(* ===== verification/Prelude.thy ===== *)
theory Prelude
  imports Main "HOL-Library.Word" "HOL-Library.Sublist" "HOL-Library.Monad_Syntax"
begin

text \<open>
  What every theory of the development shares: the reading of C strings and of the C library's
  character and number functions (in the C locale), the result codes of
  \<^verbatim>\<open>sieve2_error.h\<close>, the convention for undefined behaviour, the collections of rewrite
  rules, and the generic lemmas on lists and options.

  A C string is its list of characters without the terminating NUL. A pointer that may be NULL is
  an \<open>option\<close>. An operation that can perform an access C leaves undefined (a write outside an
  allocated block, a read of a freed block, a NULL dereference) returns an \<open>option\<close>, with
  \<open>None\<close> for the undefined access; such operations are chained with the option monad.
\<close>

named_theorems codes \<open>the integers behind result codes and tokens\<close>
named_theorems ctype \<open>character classification and case conversion\<close>

section \<open>Result codes\<close>

definition SIEVE2_OK :: int where [codes]: "SIEVE2_OK = 0"
definition SIEVE2_DONE :: int where [codes]: "SIEVE2_DONE = 1"
definition SIEVE2_ERROR_FAIL :: int where [codes]: "SIEVE2_ERROR_FAIL = 2"
definition SIEVE2_ERROR_NOT_FINALIZED :: int where [codes]: "SIEVE2_ERROR_NOT_FINALIZED = 3"
definition SIEVE2_ERROR_PARSE :: int where [codes]: "SIEVE2_ERROR_PARSE = 4"
definition SIEVE2_ERROR_EXEC :: int where [codes]: "SIEVE2_ERROR_EXEC = 5"
definition SIEVE2_ERROR_INTERNAL :: int where [codes]: "SIEVE2_ERROR_INTERNAL = 6"
definition SIEVE2_ERROR_NOMEM :: int where [codes]: "SIEVE2_ERROR_NOMEM = 7"
definition SIEVE2_ERROR_UNSUPPORTED :: int where [codes]: "SIEVE2_ERROR_UNSUPPORTED = 8"
definition SIEVE2_ERROR_BADARGS :: int where [codes]: "SIEVE2_ERROR_BADARGS = 9"
definition SIEVE2_ERROR_NOINTERPS :: int where [codes]: "SIEVE2_ERROR_NOINTERPS = 10"
definition SIEVE2_ERROR_HEADER :: int where [codes]: "SIEVE2_ERROR_HEADER = 11"
definition SIEVE2_ERROR_GETSCRIPT :: int where [codes]: "SIEVE2_ERROR_GETSCRIPT = 12"
definition SIEVE2_ERROR_ADDRESS :: int where [codes]: "SIEVE2_ERROR_ADDRESS = 13"
definition SIEVE2_ERROR_LAST :: int where [codes]: "SIEVE2_ERROR_LAST = 14"

section \<open>Machine integers\<close>

text \<open>The conversion of an integer to the 32-bit \<^verbatim>\<open>int\<close> (two's complement).\<close>

definition to_int32 :: "int \<Rightarrow> int" where
  "to_int32 x = (x + 2 ^ 31) mod 2 ^ 32 - 2 ^ 31"

lemma to_int32_range: "- (2 ^ 31) \<le> to_int32 x \<and> to_int32 x < 2 ^ 31"
  using pos_mod_bound [of "2 ^ 32" "x + 2 ^ 31"] pos_mod_sign [of "2 ^ 32" "x + 2 ^ 31"]
  by (simp add: to_int32_def)

lemma to_int32_id: "- (2 ^ 31) \<le> x \<Longrightarrow> x < 2 ^ 31 \<Longrightarrow> to_int32 x = x"
  by (simp add: to_int32_def)

text \<open>The remainder of C's \<^verbatim>\<open>%\<close>, which has the sign of the dividend.\<close>

definition c_rem :: "int \<Rightarrow> int \<Rightarrow> int" where
  "c_rem a b = sgn a * (\<bar>a\<bar> mod \<bar>b\<bar>)"

lemma c_rem_nonneg [simp]: "0 \<le> a \<Longrightarrow> 0 < b \<Longrightarrow> c_rem a b = a mod b"
  by (auto simp: c_rem_def sgn_if)

section \<open>Characters\<close>

abbreviation code :: "char \<Rightarrow> nat" where "code c \<equiv> of_char c"

text \<open>The value of a \<^verbatim>\<open>char\<close> as an \<^verbatim>\<open>int\<close> where \<^verbatim>\<open>char\<close> is signed.\<close>

definition schar :: "char \<Rightarrow> int" where
  "schar c = (if code c < 128 then int (code c) else int (code c) - 256)"

definition c_isdigit :: "char \<Rightarrow> bool" where
  [ctype]: "c_isdigit c \<longleftrightarrow> 48 \<le> code c \<and> code c \<le> 57"

definition c_isspace :: "char \<Rightarrow> bool" where
  [ctype]: "c_isspace c \<longleftrightarrow> code c = 32 \<or> 9 \<le> code c \<and> code c \<le> 13"

definition c_iscntrl :: "char \<Rightarrow> bool" where
  [ctype]: "c_iscntrl c \<longleftrightarrow> code c < 32 \<or> code c = 127"

definition c_tolower :: "char \<Rightarrow> char" where
  [ctype]: "c_tolower c = (if 65 \<le> code c \<and> code c \<le> 90 then char_of (code c + 32) else c)"

definition c_toupper :: "char \<Rightarrow> char" where
  [ctype]: "c_toupper c = (if 97 \<le> code c \<and> code c \<le> 122 then char_of (code c - 32) else c)"

lemma code_char_of [simp]: "n < 256 \<Longrightarrow> code (char_of n) = n"
  by (simp add: of_char_of)

lemma code_less [simp]: "code c < 256"
  by (metis of_char_mod_256 mod_less_divisor zero_less_numeral)

lemma code_eq_iff: "code a = code b \<longleftrightarrow> a = b"
  by (metis char_of_char)

lemma code_linear: "\<not> code a < code b \<Longrightarrow> \<not> code b < code a \<Longrightarrow> a = b"
  by (metis code_eq_iff linorder_neqE_nat)

lemma code_c_toupper:
  "code (c_toupper c) = (if 97 \<le> code c \<and> code c \<le> 122 then code c - 32 else code c)"
  by (auto simp: c_toupper_def)

lemma code_c_tolower:
  "code (c_tolower c) = (if 65 \<le> code c \<and> code c \<le> 90 then code c + 32 else code c)"
  by (auto simp: c_tolower_def)

lemma c_tolower_idem [simp]: "c_tolower (c_tolower c) = c_tolower c"
  by (rule code_eq_iff [THEN iffD1]) (auto simp: code_c_tolower)

lemma c_toupper_idem [simp]: "c_toupper (c_toupper c) = c_toupper c"
  by (rule code_eq_iff [THEN iffD1]) (auto simp: code_c_toupper)

lemma c_toupper_eq_iff_tolower: "c_toupper a = c_toupper b \<longleftrightarrow> c_tolower a = c_tolower b"
proof -
  have "(if 97 \<le> x \<and> x \<le> 122 then x - 32 else x) = (if 97 \<le> y \<and> y \<le> 122 then y - 32 else y)
    \<longleftrightarrow> (if 65 \<le> x \<and> x \<le> 90 then x + 32 else x) = (if 65 \<le> y \<and> y \<le> 90 then y + 32 else y)"
    for x y :: nat
    by (simp split: if_split) linarith
  then have "code (c_toupper a) = code (c_toupper b) \<longleftrightarrow> code (c_tolower a) = code (c_tolower b)"
    unfolding code_c_toupper code_c_tolower .
  then show ?thesis by (simp only: code_eq_iff)
qed

section \<open>Strings\<close>

text \<open>
  \<^verbatim>\<open>strcasecmp\<close>: POSIX fixes only the sign of the result.
\<close>

fun strcasecmp :: "string \<Rightarrow> string \<Rightarrow> int" where
  "strcasecmp [] [] = 0"
| "strcasecmp [] (b # bs) = - 1"
| "strcasecmp (a # as) [] = 1"
| "strcasecmp (a # as) (b # bs) =
     (if code (c_tolower a) < code (c_tolower b) then - 1
      else if code (c_tolower b) < code (c_tolower a) then 1
      else strcasecmp as bs)"

lemma strcasecmp_eq_0_iff: "strcasecmp a b = 0 \<longleftrightarrow> map c_tolower a = map c_tolower b"
  by (induction a b rule: strcasecmp.induct) (auto dest: code_linear)

lemma strcasecmp_refl [simp]: "strcasecmp a a = 0"
  by (simp add: strcasecmp_eq_0_iff)

lemma strcasecmp_sym: "strcasecmp a b = - strcasecmp b a"
  by (induction a b rule: strcasecmp.induct) auto

lemma strcasecmp_range: "strcasecmp a b \<in> {- 1, 0, 1}"
  by (induction a b rule: strcasecmp.induct) auto

text \<open>\<^verbatim>\<open>strncasecmp\<close> and \<^verbatim>\<open>strncmp\<close> compare at most \<open>n\<close> characters.\<close>

definition strncasecmp :: "string \<Rightarrow> string \<Rightarrow> nat \<Rightarrow> int" where
  "strncasecmp a b n = strcasecmp (take n a) (take n b)"

text \<open>\<^verbatim>\<open>strstr\<close>, as the test whether its result is not NULL.\<close>

fun strstr :: "string \<Rightarrow> string \<Rightarrow> bool" where
  "strstr [] pat = (pat = [])"
| "strstr (x # xs) pat = (prefix pat (x # xs) \<or> strstr xs pat)"

lemma strstr_iff_sublist: "strstr xs pat \<longleftrightarrow> sublist pat xs"
  by (induction xs) (auto simp: sublist_Cons_right)

section \<open>Numbers in strings\<close>

definition digit_val :: "char \<Rightarrow> int" where
  "digit_val c = int (code c) - 48"

definition digits_val :: "string \<Rightarrow> int" where
  "digits_val ds = foldl (\<lambda>n c. 10 * n + digit_val c) 0 ds"

text \<open>
  \<^verbatim>\<open>strtol(str, &tail, 10)\<close>: leading white space and one sign are skipped, the value is
  clamped to the 64-bit \<^verbatim>\<open>long\<close>, and the tail is the whole input when there is no digit.
\<close>

definition strtol10 :: "string \<Rightarrow> int \<times> string" where
  "strtol10 s =
     (let t = dropWhile c_isspace s;
          neg = (t \<noteq> [] \<and> hd t = CHR ''-'');
          u = (if t \<noteq> [] \<and> (hd t = CHR ''-'' \<or> hd t = CHR ''+'') then tl t else t);
          ds = takeWhile c_isdigit u
      in if ds = [] then (0, s)
         else (let v = (if neg then - digits_val ds else digits_val ds)
               in (max (- (2 ^ 63)) (min (2 ^ 63 - 1) v), dropWhile c_isdigit u)))"

definition atoi :: "string \<Rightarrow> int" where
  "atoi s = to_int32 (fst (strtol10 s))"

text \<open>The conversion \<^verbatim>\<open>%d\<close> of a non-negative \<^verbatim>\<open>int\<close>.\<close>

fun dec_string :: "nat \<Rightarrow> string" where
  "dec_string n =
     (if n < 10 then [char_of (48 + n)] else dec_string (n div 10) @ [char_of (48 + n mod 10)])"

declare dec_string.simps [simp del]

lemma digits_val_snoc: "digits_val (ds @ [c]) = 10 * digits_val ds + digit_val c"
  by (simp add: digits_val_def)

lemma dec_string_digits: "\<forall>c \<in> set (dec_string n). c_isdigit c"
proof (induction n rule: dec_string.induct)
  case (1 n)
  show ?case
  proof (cases "n < 10")
    case True
    then show ?thesis by (subst dec_string.simps) (simp add: c_isdigit_def)
  next
    case False
    have "c_isdigit (char_of (48 + n mod 10))" by (simp add: c_isdigit_def)
    with 1 False show ?thesis by (subst dec_string.simps) auto
  qed
qed

lemma dec_string_val: "digits_val (dec_string n) = int n"
proof (induction n rule: dec_string.induct)
  case (1 n)
  show ?case
  proof (cases "n < 10")
    case True
    then show ?thesis by (subst dec_string.simps) (simp add: digits_val_def digit_val_def)
  next
    case False
    have "int n = 10 * int (n div 10) + int (n mod 10)" by presburger
    with 1 False show ?thesis
      by (subst dec_string.simps) (simp add: digits_val_snoc digit_val_def)
  qed
qed

lemma dec_string_not_Nil [simp]: "dec_string n \<noteq> []"
  by (subst dec_string.simps) simp

lemma strtol10_digits:
  assumes "ds \<noteq> []" and "\<forall>c \<in> set ds. c_isdigit c"
  shows "strtol10 ds = (max (- (2 ^ 63)) (min (2 ^ 63 - 1) (digits_val ds)), [])"
proof -
  obtain d ds' where ds: "ds = d # ds'" using assms(1) by (cases ds) auto
  have d: "c_isdigit d" using assms(2) ds by simp
  then have "\<not> c_isspace d" and "d \<noteq> CHR ''-''" and "d \<noteq> CHR ''+''"
    by (auto simp: c_isdigit_def c_isspace_def)
  moreover have "takeWhile c_isdigit ds = ds" and "dropWhile c_isdigit ds = []"
    using assms(2) by auto
  ultimately show ?thesis by (simp add: strtol10_def Let_def ds)
qed

lemma atoi_dec_string: "n < 2 ^ 31 \<Longrightarrow> atoi (dec_string n) = int n"
  by (simp add: atoi_def strtol10_digits dec_string_digits dec_string_val to_int32_id)

section \<open>Generic lemmas\<close>

lemma option_case_bind: "(case x of None \<Rightarrow> None | Some y \<Rightarrow> f y) = Option.bind x f"
  by (cases x) auto

lemma bind_bind_Some: "Option.bind x g = Some y \<Longrightarrow> Option.bind x (\<lambda>a. Option.bind (g a) f) = f y"
  by (cases x) auto

lemma take_update_cover:
  "length ys = n \<Longrightarrow> k + n \<le> length xs \<Longrightarrow>
   take (k + n) (take k xs @ ys @ drop (k + n) xs) = take k xs @ ys"
  by simp

end
