(* ===== verification/Util.thy ===== *)
theory Util
  imports Prelude
begin

text \<open>
  The string and buffer routines of \<^verbatim>\<open>src/sv_util/util.c\<close>: case conversion, the atom test, the
  number reader of the script lexer, \<^verbatim>\<open>libsieve_strconcat\<close>, the growing string buffer
  \<^verbatim>\<open>struct catbuf\<close> and the string table \<^verbatim>\<open>struct mlbuf\<close>.

  An allocated block of characters is a list with \<open>None\<close> for an indeterminate byte; an access
  outside it makes the whole operation \<open>None\<close>. Whether an allocation succeeds is an argument of the
  operation that asks for it. \<^verbatim>\<open>size_t\<close> values are naturals: no object is larger than the
  address space, and no subtraction below goes under zero while the buffer is well formed.
\<close>

named_theorems block_simps \<open>reading and writing allocated blocks\<close>

section \<open>Blocks\<close>

type_synonym block = "char option list"

definition blk_realloc :: "block \<Rightarrow> nat \<Rightarrow> block" where
  "blk_realloc b n = take n b @ replicate (n - length b) None"

definition blk_write :: "block \<Rightarrow> nat \<Rightarrow> string \<Rightarrow> block option" where
  "blk_write b off xs =
     (if off + length xs \<le> length b
      then Some (take off b @ map Some xs @ drop (off + length xs) b) else None)"

text \<open>Reading a block as a C string: up to the first NUL, which has to be there.\<close>

fun block_cstr :: "block \<Rightarrow> string option" where
  "block_cstr [] = None"
| "block_cstr (None # b) = None"
| "block_cstr (Some c # b) =
     (if c = CHR 0x00 then Some [] else map_option (Cons c) (block_cstr b))"

abbreviation nul_free :: "string \<Rightarrow> bool" where
  "nul_free s \<equiv> CHR 0x00 \<notin> set s"

lemma length_blk_realloc [block_simps]: "length (blk_realloc b n) = n"
  by (simp add: blk_realloc_def)

lemma take_blk_realloc [block_simps]: "k \<le> length b \<Longrightarrow> k \<le> n \<Longrightarrow> take k (blk_realloc b n) = take k b"
  by (simp add: blk_realloc_def min_def)

lemma blk_write_Some_iff:
  "blk_write b off xs = Some b' \<longleftrightarrow>
   off + length xs \<le> length b \<and> b' = take off b @ map Some xs @ drop (off + length xs) b"
  by (auto simp: blk_write_def)

lemma blk_write_None_iff: "blk_write b off xs = None \<longleftrightarrow> length b < off + length xs"
  by (auto simp: blk_write_def)

lemma length_blk_write: "blk_write b off xs = Some b' \<Longrightarrow> length b' = length b"
  by (auto simp: blk_write_Some_iff)

lemma take_blk_write:
  "blk_write b off xs = Some b' \<Longrightarrow> take off b = map Some w \<Longrightarrow>
   take (off + length xs) b' = map Some (w @ xs)"
  by (auto simp: blk_write_Some_iff dest!: arg_cong [of _ _ length])

lemma nth_blk_write_single: "blk_write b off [c] = Some b' \<Longrightarrow> b' ! off = Some c"
  by (auto simp: blk_write_Some_iff nth_append)

lemma take_blk_write_single: "blk_write b off [c] = Some b' \<Longrightarrow> take off b' = take off b"
  by (auto simp: blk_write_Some_iff)

lemma block_cstr_terminated:
  assumes "take n b = map Some w" and "n < length b" and "b ! n = Some (CHR 0x00)" and "nul_free w"
  shows "block_cstr b = Some w"
proof -
  have b: "b = map Some w @ Some (CHR 0x00) # drop (Suc n) b"
    using assms(1-3) by (metis id_take_nth_drop)
  have "block_cstr (map Some w @ Some (CHR 0x00) # r) = Some w" for r
    using assms(4) by (induction w) auto
  then show ?thesis by (metis b)
qed

section \<open>Memory\<close>

text \<open>
  The wrappers of the allocator, for a block of characters that is \<open>None\<close> when the pointer is \<^verbatim>\<open>NULL\<close>. \<open>ok\<close> is the
  answer of the allocator. The operations below use their effect directly.
\<close>

definition libsieve_malloc :: "bool \<Rightarrow> nat \<Rightarrow> block option" where
  "libsieve_malloc ok n = (if ok then Some (replicate n None) else None)"

definition libsieve_realloc :: "bool \<Rightarrow> block option \<Rightarrow> nat \<Rightarrow> block option" where
  "libsieve_realloc ok ptr n =
     (case ptr of
        None \<Rightarrow> libsieve_malloc ok n
      | Some b \<Rightarrow> if ok then Some (blk_realloc b n) else None)"

definition libsieve_memset :: "block option \<Rightarrow> int \<Rightarrow> nat \<Rightarrow> block option option" where
  "libsieve_memset ptr c len =
     (case ptr of
        None \<Rightarrow> Some None
      | Some b \<Rightarrow>
          if 0 \<le> c \<and> c < 254 \<and> 0 < len
          then map_option Some (blk_write b 0 (replicate len (char_of (nat c))))
          else Some None)"

text \<open>What is freed: the pointer, if it is not \<^verbatim>\<open>NULL\<close>; all in front of the terminating \<^verbatim>\<open>NULL\<close> of an array.\<close>

definition libsieve_free :: "'p option \<Rightarrow> 'p list" where
  "libsieve_free ptr = (case ptr of None \<Rightarrow> [] | Some p \<Rightarrow> [p])"

fun libsieve_freev :: "'p option list \<Rightarrow> 'p list option" where
  "libsieve_freev [] = None"
| "libsieve_freev (None # ps) = Some []"
| "libsieve_freev (Some p # ps) = map_option (append (libsieve_free (Some p))) (libsieve_freev ps)"

section \<open>Case conversion, atoms and numbers\<close>

definition libsieve_strtolower :: "string \<Rightarrow> nat \<Rightarrow> string" where
  "libsieve_strtolower str len = map c_tolower (take len str) @ drop len str"

definition libsieve_strtoupper :: "string \<Rightarrow> nat \<Rightarrow> string" where
  "libsieve_strtoupper str len = map c_toupper (take len str) @ drop len str"

definition atom_special :: "char \<Rightarrow> bool" where
  "atom_special c \<longleftrightarrow> schar c < 31 \<or> schar c \<ge> 127
     \<or> c \<in> set '' {()%*'' \<or> c = CHR 0x5C \<or> c = CHR 0x22"

fun strisatom_loop :: "string \<Rightarrow> nat \<Rightarrow> bool" where
  "strisatom_loop (c # str) (Suc n) = (if atom_special c then False else strisatom_loop str n)"
| "strisatom_loop _ _ = True"

definition libsieve_strisatom :: "string \<Rightarrow> nat \<Rightarrow> bool" where
  "libsieve_strisatom str len = (if len > 1023 then False else strisatom_loop str len)"

text \<open>
  \<^verbatim>\<open>libsieve_strtonum\<close>: the cast of the \<^verbatim>\<open>long\<close> keeps the low 32 bits, as
  compilers define it; a product with the unit that an \<^verbatim>\<open>int\<close> cannot hold is undefined in C,
  and so is the result here.
\<close>

definition unit_bits :: "string \<Rightarrow> nat option" where
  "unit_bits tail =
     (case tail of
        c # _ \<Rightarrow> if c = CHR ''K'' then Some 10 else if c = CHR ''M'' then Some 20
                 else if c = CHR ''G'' then Some 30 else None
      | [] \<Rightarrow> None)"

definition libsieve_strtonum :: "string \<Rightarrow> int option" where
  "libsieve_strtonum str = do {
     let (v, tail) = strtol10 str;
     let val = to_int32 v;
     val \<leftarrow> (case unit_bits tail of
               Some b \<Rightarrow> let p = val * 2 ^ b in if to_int32 p = p then Some p else None
             | None \<Rightarrow> Some val);
     Some (if val < 0 then 0 else val)
   }"

definition libsieve_strndup :: "bool \<Rightarrow> string \<Rightarrow> nat \<Rightarrow> string option" where
  "libsieve_strndup ok str len = (if ok then Some (take len str) else None)"

definition libsieve_strdup :: "bool \<Rightarrow> string \<Rightarrow> string option" where
  "libsieve_strdup ok str = libsieve_strndup ok str (length str)"

lemma strisatom_loop_iff:
  "strisatom_loop str n \<longleftrightarrow> (\<forall>c \<in> set (take n str). \<not> atom_special c)"
  by (induction str n rule: strisatom_loop.induct) auto

lemma length_strtolower [simp]: "length (libsieve_strtolower s n) = length s"
  by (simp add: libsieve_strtolower_def)

lemma strtolower_full [simp]: "libsieve_strtolower s (length s) = map c_tolower s"
  by (simp add: libsieve_strtolower_def)

lemma strcasecmp_tolower: "strcasecmp (libsieve_strtolower s n) s = 0"
proof -
  have "map c_tolower (libsieve_strtolower s n) = map c_tolower (take n s) @ map c_tolower (drop n s)"
    by (simp add: libsieve_strtolower_def o_def)
  also have "\<dots> = map c_tolower s" by (metis append_take_drop_id map_append)
  finally show ?thesis by (simp add: strcasecmp_eq_0_iff)
qed

text \<open>The factor a unit letter stands for.\<close>

fun unit_factor :: "string \<Rightarrow> int" where
  "unit_factor ''K'' = 2 ^ 10"
| "unit_factor ''M'' = 2 ^ 20"
| "unit_factor ''G'' = 2 ^ 30"
| "unit_factor _ = 1"

lemma digits_val_nonneg: "\<forall>c \<in> set ds. c_isdigit c \<Longrightarrow> 0 \<le> digits_val ds"
proof (induction ds rule: rev_induct)
  case (snoc d ds)
  then show ?case by (auto simp: digits_val_def digit_val_def c_isdigit_def)
qed (simp add: digits_val_def)

lemma to_int32_fits: "to_int32 x = x \<longleftrightarrow> - (2 ^ 31) \<le> x \<and> x < 2 ^ 31"
  using to_int32_range [of x] to_int32_id [of x] by auto

lemma strtol10_unit:
  assumes "ds \<noteq> []" and "\<forall>c \<in> set ds. c_isdigit c" and "u \<in> {[], ''K'', ''M'', ''G''}"
    and "digits_val ds < 2 ^ 63" and "0 \<le> digits_val ds"
  shows "strtol10 (ds @ u) = (digits_val ds, u)"
proof -
  obtain d ds' where ds: "ds = d # ds'" using assms(1) by (cases ds) auto
  have d: "c_isdigit d" using assms(2) ds by simp
  then have "\<not> c_isspace d" and "d \<noteq> CHR ''-''" and "d \<noteq> CHR ''+''"
    by (auto simp: c_isdigit_def c_isspace_def)
  moreover have u: "takeWhile c_isdigit u = []" "dropWhile c_isdigit u = u"
    using assms(3) by (auto simp: c_isdigit_def)
  moreover have "takeWhile c_isdigit (ds @ u) = ds" and "dropWhile c_isdigit (ds @ u) = u"
    using assms(2) u by auto
  ultimately show ?thesis using assms(4,5) by (simp add: strtol10_def Let_def ds)
qed

section \<open>libsieve_strconcat\<close>

text \<open>
  The loop over the variable arguments, from the buffer \<open>buf\<close> (the empty block while the pointer
  is still NULL), its fill \<open>pos\<close> and its size \<open>siz\<close>. \<open>ok n\<close> says whether a request of \<open>n\<close> bytes
  is granted; the code does not look at a refusal and copies through NULL.
\<close>

fun strconcat_loop ::
  "(nat \<Rightarrow> bool) \<Rightarrow> block \<Rightarrow> nat \<Rightarrow> nat \<Rightarrow> string list \<Rightarrow> (block \<times> nat) option" where
  "strconcat_loop ok buf pos siz [] = Some (buf, pos)"
| "strconcat_loop ok buf pos siz (str # strs) =
     do {
       (buf, siz) \<leftarrow>
         (if siz - pos < length str
          then (let siz' = siz + (length str + 256)
                in if ok siz' then Some (blk_realloc buf siz', siz') else None)
          else Some (buf, siz));
       buf \<leftarrow> blk_write buf pos str;
       strconcat_loop ok buf (pos + length str) siz strs
     }"

definition libsieve_strconcat :: "(nat \<Rightarrow> bool) \<Rightarrow> string list \<Rightarrow> block option option" where
  "libsieve_strconcat ok strs =
     (if strs = [] then Some None
      else do {
        (buf, pos) \<leftarrow> strconcat_loop ok [] 0 0 strs;
        buf \<leftarrow> blk_write buf pos [CHR 0x00];
        Some (Some buf)
      })"

text \<open>The string it returns to a caller when every request is granted.\<close>

definition strconcat_str :: "string list \<Rightarrow> string option" where
  "strconcat_str strs = do { r \<leftarrow> libsieve_strconcat (\<lambda>_. True) strs; b \<leftarrow> r; block_cstr b }"

text \<open>The room left in the buffer after the pieces, as the growth rule makes it.\<close>

fun strconcat_room :: "nat \<Rightarrow> string list \<Rightarrow> nat" where
  "strconcat_room room [] = room"
| "strconcat_room room (str # strs) =
     strconcat_room (if room < length str then room + 256 else room - length str) strs"

lemma strconcat_loop_ok:
  assumes "length buf = siz" and "pos \<le> siz" and "take pos buf = map Some w"
  shows "\<exists>buf'. strconcat_loop (\<lambda>_. True) buf pos siz strs = Some (buf', pos + length (concat strs))
           \<and> length buf' = pos + length (concat strs) + strconcat_room (siz - pos) strs
           \<and> take (pos + length (concat strs)) buf' = map Some (w @ concat strs)"
  using assms
proof (induction strs arbitrary: buf pos siz w)
  case Nil
  then show ?case by simp
next
  case (Cons str strs)
  define grown where "grown = (siz - pos < length str)"
  define siz' where "siz' = (if grown then siz + (length str + 256) else siz)"
  define buf1 where "buf1 = (if grown then blk_realloc buf siz' else buf)"
  have len1: "length buf1 = siz'" and fit: "pos + length str \<le> siz'"
    using Cons.prems by (auto simp: buf1_def siz'_def grown_def block_simps)
  have take1: "take pos buf1 = map Some w"
    using Cons.prems by (auto simp: buf1_def siz'_def block_simps)
  obtain buf2 where wr: "blk_write buf1 pos str = Some buf2"
    using fit len1 by (auto simp: blk_write_def)
  have room: "siz' - (pos + length str)
      = (if siz - pos < length str then siz - pos + 256 else siz - pos - length str)"
    using Cons.prems(2) by (auto simp: siz'_def grown_def)
  have "strconcat_loop (\<lambda>_. True) buf pos siz (str # strs)
      = strconcat_loop (\<lambda>_. True) buf2 (pos + length str) siz' strs"
    using wr by (auto simp: buf1_def siz'_def grown_def Let_def split: if_splits)
  moreover have "length buf2 = siz'" using length_blk_write [OF wr] len1 by simp
  moreover have "take (pos + length str) buf2 = map Some (w @ str)"
    by (rule take_blk_write [OF wr take1])
  ultimately show ?case
    using Cons.IH [of buf2 siz' "pos + length str" "w @ str"] fit room by (auto simp: add.assoc)
qed

lemma libsieve_strconcat_eq:
  assumes "strs \<noteq> []" and "nul_free (concat strs)"
  shows "if strconcat_room 0 strs = 0 then libsieve_strconcat (\<lambda>_. True) strs = None
         else \<exists>b. libsieve_strconcat (\<lambda>_. True) strs = Some (Some b)
                  \<and> block_cstr b = Some (concat strs)"
proof -
  obtain buf where loop: "strconcat_loop (\<lambda>_. True) [] 0 0 strs = Some (buf, length (concat strs))"
    and len: "length buf = length (concat strs) + strconcat_room 0 strs"
    and cont: "take (length (concat strs)) buf = map Some (concat strs)"
    using strconcat_loop_ok [of "[]" 0 0 "[]" strs] by auto
  show ?thesis
  proof (cases "strconcat_room 0 strs = 0")
    case True
    then show ?thesis
      using assms(1) loop len by (simp add: libsieve_strconcat_def blk_write_def)
  next
    case False
    then obtain b where wr: "blk_write buf (length (concat strs)) [CHR 0x00] = Some b"
      using len by (auto simp: blk_write_def)
    have "block_cstr b = Some (concat strs)"
      using cont len False length_blk_write [OF wr] assms(2)
      by (intro block_cstr_terminated [of "length (concat strs)"])
        (auto simp: take_blk_write_single [OF wr] nth_blk_write_single [OF wr])
    then show ?thesis using False assms(1) loop wr by (simp add: libsieve_strconcat_def)
  qed
qed


section \<open>Accumulating buffers\<close>

text \<open>
  The contract both growing buffers of the file keep with their callers: an append that returns
  extends the contents by its argument and keeps the buffer well formed, and it returns exactly
  when the buffer can take the argument.
\<close>

locale accumulator =
  fixes inv :: "'s \<Rightarrow> bool"
    and contents :: "'s \<Rightarrow> 'a list"
    and app :: "'x \<Rightarrow> 's \<Rightarrow> 's option"
    and piece :: "'x \<Rightarrow> 'a list"
    and safe :: "'x \<Rightarrow> 's \<Rightarrow> bool"
  assumes app_inv: "inv s \<Longrightarrow> app x s = Some s' \<Longrightarrow> inv s'"
    and app_contents: "inv s \<Longrightarrow> app x s = Some s' \<Longrightarrow> contents s' = contents s @ piece x"
    and app_defined: "inv s \<Longrightarrow> app x s = None \<longleftrightarrow> \<not> safe x s"
begin

fun app_all :: "'x list \<Rightarrow> 's \<Rightarrow> 's option" where
  "app_all [] s = Some s"
| "app_all (x # xs) s = app x s \<bind> app_all xs"

lemma app_all_contents:
  "inv s \<Longrightarrow> app_all xs s = Some s' \<Longrightarrow>
   inv s' \<and> contents s' = contents s @ concat (map piece xs)"
proof (induction xs arbitrary: s)
  case Nil
  then show ?case by simp
next
  case (Cons x xs)
  then obtain t where t: "app x s = Some t" "app_all xs t = Some s'"
    by (auto simp: Option.bind_eq_Some_conv)
  then show ?case
    using Cons app_inv [OF Cons.prems(1) t(1)] app_contents [OF Cons.prems(1) t(1)] by auto
qed

lemma app_all_defined:
  assumes "\<And>x s. inv s \<Longrightarrow> safe x s" and "inv s"
  shows "\<exists>s'. app_all xs s = Some s'"
  using assms(2)
proof (induction xs arbitrary: s)
  case Nil
  then show ?case by simp
next
  case (Cons x xs)
  then obtain t where t: "app x s = Some t"
    using app_defined [of s x] assms(1) by fastforce
  then show ?case using Cons app_inv by auto
qed

end

section \<open>struct catbuf\<close>

record catbuf =
  cb_str :: block
  cb_pos :: nat
  cb_len :: nat

definition libsieve_catbuf_alloc :: catbuf where
  "libsieve_catbuf_alloc = \<lparr>cb_str = replicate 256 None, cb_pos = 0, cb_len = 256\<rparr>"

definition libsieve_catbuf :: "bool \<Rightarrow> string \<Rightarrow> catbuf \<Rightarrow> catbuf option" where
  "libsieve_catbuf ok str s =
     do {
       s \<leftarrow> (if cb_len s - cb_pos s < length str
             then (let n = cb_len s + max (length str) 256
                   in if ok then Some (s\<lparr>cb_len := n, cb_str := blk_realloc (cb_str s) n\<rparr>) else None)
             else Some s);
       b \<leftarrow> blk_write (cb_str s) (cb_pos s) str;
       let s = s\<lparr>cb_str := b, cb_pos := cb_pos s + length str\<rparr>;
       b \<leftarrow> blk_write (cb_str s) (cb_pos s) [CHR 0x00];
       Some (s\<lparr>cb_str := b\<rparr>)
     }"

definition libsieve_catbuf_free :: "catbuf \<Rightarrow> block" where
  "libsieve_catbuf_free s = cb_str s"

definition catbuf_inv :: "catbuf \<Rightarrow> bool" where
  "catbuf_inv s \<longleftrightarrow> length (cb_str s) = cb_len s \<and> cb_pos s < cb_len s
     \<and> (\<exists>w. take (cb_pos s) (cb_str s) = map Some w)"

definition catbuf_contents :: "catbuf \<Rightarrow> string" where
  "catbuf_contents s = map the (take (cb_pos s) (cb_str s))"

definition catbuf_safe :: "string \<Rightarrow> catbuf \<Rightarrow> bool" where
  "catbuf_safe str s \<longleftrightarrow> length str \<noteq> cb_len s - cb_pos s"

lemma map_the_Some [simp]: "map the (map Some w) = w"
  by (simp add: o_def)

lemma catbuf_step:
  assumes "catbuf_inv s"
  shows "if catbuf_safe str s
         then \<exists>s'. libsieve_catbuf True str s = Some s' \<and> catbuf_inv s'
                \<and> catbuf_contents s' = catbuf_contents s @ str
                \<and> cb_str s' ! cb_pos s' = Some (CHR 0x00)
         else libsieve_catbuf True str s = None"
proof -
  obtain w where len: "length (cb_str s) = cb_len s" and pos: "cb_pos s < cb_len s"
    and w: "take (cb_pos s) (cb_str s) = map Some w"
    using assms by (auto simp: catbuf_inv_def)
  define grown where "grown = (cb_len s - cb_pos s < length str)"
  define n where "n = (if grown then cb_len s + max (length str) 256 else cb_len s)"
  define b1 where "b1 = (if grown then blk_realloc (cb_str s) n else cb_str s)"
  have b1: "length b1 = n" "take (cb_pos s) b1 = map Some w"
    using len pos w by (auto simp: b1_def n_def block_simps)
  have fit: "cb_pos s + length str \<le> n" using pos by (auto simp: n_def grown_def)
  obtain b2 where b2: "blk_write b1 (cb_pos s) str = Some b2"
    using fit b1 by (auto simp: blk_write_def)
  have len2: "length b2 = n" using length_blk_write [OF b2] b1 by simp
  have cont: "take (cb_pos s + length str) b2 = map Some (w @ str)"
    by (rule take_blk_write [OF b2 b1(2)])
  have run: "libsieve_catbuf True str s =
      do { b \<leftarrow> blk_write b2 (cb_pos s + length str) [CHR 0x00];
           Some (s\<lparr>cb_len := n, cb_str := b, cb_pos := cb_pos s + length str\<rparr>) }"
    using b2 by (cases s) (auto simp: libsieve_catbuf_def Let_def n_def b1_def grown_def)
  have tight: "cb_pos s + length str < n \<longleftrightarrow> catbuf_safe str s"
    using pos by (auto simp: n_def grown_def catbuf_safe_def)
  show ?thesis
  proof (cases "catbuf_safe str s")
    case True
    then obtain b3 where b3: "blk_write b2 (cb_pos s + length str) [CHR 0x00] = Some b3"
      using tight len2 by (auto simp: blk_write_def)
    have "catbuf_inv (s\<lparr>cb_len := n, cb_str := b3, cb_pos := cb_pos s + length str\<rparr>)"
      using length_blk_write [OF b3] len2 True tight take_blk_write_single [OF b3] cont
      by (auto simp: catbuf_inv_def intro!: exI [of _ "w @ str"])
    then show ?thesis
      using True run b3 take_blk_write_single [OF b3] nth_blk_write_single [OF b3] cont w
      by (simp add: catbuf_contents_def del: map_append)
  next
    case False
    then show ?thesis using run tight len2 by (simp add: blk_write_def)
  qed
qed

interpretation catbuf: accumulator catbuf_inv catbuf_contents "libsieve_catbuf True" id catbuf_safe
proof
  fix s s' :: catbuf and x :: string
  assume inv: "catbuf_inv s"
  show "libsieve_catbuf True x s = None \<longleftrightarrow> \<not> catbuf_safe x s"
    using catbuf_step [OF inv, of x] by (auto split: if_splits)
  assume "libsieve_catbuf True x s = Some s'"
  then show "catbuf_inv s'" and "catbuf_contents s' = catbuf_contents s @ id x"
    using catbuf_step [OF inv, of x] by (auto split: if_splits)
qed

lemma catbuf_inv_alloc: "catbuf_inv libsieve_catbuf_alloc"
  by (simp add: catbuf_inv_def libsieve_catbuf_alloc_def)

lemma catbuf_cstr:
  "catbuf_inv s \<Longrightarrow> nul_free (catbuf_contents s) \<Longrightarrow> cb_str s ! cb_pos s = Some (CHR 0x00) \<Longrightarrow>
   block_cstr (libsieve_catbuf_free s) = Some (catbuf_contents s)"
  unfolding libsieve_catbuf_free_def
  by (rule block_cstr_terminated [of "cb_pos s"]) (auto simp: catbuf_inv_def catbuf_contents_def)

section \<open>struct mlbuf\<close>

text \<open>
  The table of pointers: a slot of the block is uninitialised, NULL, or points to a string of its
  own. \<open>libsieve_strbuf\<close> takes the outcomes of its two allocations.
\<close>

datatype slot = Uninit | NullPtr | Str string

record mlbuf =
  ml_buf :: "slot list"
  ml_siz :: nat
  ml_pos :: nat

definition libsieve_strbufalloc :: "bool \<Rightarrow> bool \<Rightarrow> int \<times> mlbuf option" where
  "libsieve_strbufalloc ok_ml ok_buf =
     (if \<not> ok_ml then (SIEVE2_ERROR_NOMEM, None)
      else if \<not> ok_buf then (SIEVE2_ERROR_NOMEM, None)
      else (SIEVE2_OK, Some \<lparr>ml_buf = replicate 256 Uninit, ml_siz = 256, ml_pos = 0\<rparr>))"

definition slot_write :: "slot list \<Rightarrow> nat \<Rightarrow> slot \<Rightarrow> slot list option" where
  "slot_write b i v = (if i < length b then Some (b[i := v]) else None)"

definition libsieve_strbuf ::
  "bool \<Rightarrow> bool \<Rightarrow> mlbuf \<Rightarrow> string \<Rightarrow> nat \<Rightarrow> (string option \<times> mlbuf) option" where
  "libsieve_strbuf ok_realloc ok_dup ml str len =
     (let grow = ml_siz ml \<le> ml_pos ml + 1;
          siz = (if grow then ml_siz ml * 2 else ml_siz ml);
          ml = ml\<lparr>ml_siz := siz\<rparr>
      in if grow \<and> \<not> ok_realloc then Some (None, ml)
         else (let ml = (if grow
                         then ml\<lparr>ml_buf := take siz (ml_buf ml) @ replicate (siz - length (ml_buf ml)) Uninit\<rparr>
                         else ml)
               in case libsieve_strndup ok_dup str len of
                    None \<Rightarrow> Some (None, ml)
                  | Some stmp \<Rightarrow>
                      do {
                        b \<leftarrow> slot_write (ml_buf ml) (ml_pos ml) (Str stmp);
                        let pos = ml_pos ml + 1;
                        b \<leftarrow> slot_write b pos NullPtr;
                        Some (Some stmp, ml\<lparr>ml_buf := b, ml_pos := pos\<rparr>)
                      }))"

text \<open>\<^verbatim>\<open>libsieve_strbuffree\<close>: the strings it releases when it is asked to release them.\<close>

definition libsieve_strbuffree :: "mlbuf \<Rightarrow> bool \<Rightarrow> slot list" where
  "libsieve_strbuffree ml freeall = (if freeall then take (ml_pos ml) (ml_buf ml) else [])"

definition mlbuf_inv :: "mlbuf \<Rightarrow> bool" where
  "mlbuf_inv ml \<longleftrightarrow> length (ml_buf ml) = ml_siz ml \<and> ml_pos ml < ml_siz ml
     \<and> (\<forall>x \<in> set (take (ml_pos ml) (ml_buf ml)). \<exists>s. x = Str s)"

definition slot_str :: "slot \<Rightarrow> string" where
  "slot_str x = (case x of Str s \<Rightarrow> s | _ \<Rightarrow> [])"

definition mlbuf_contents :: "mlbuf \<Rightarrow> string list" where
  "mlbuf_contents ml = map slot_str (take (ml_pos ml) (ml_buf ml))"

definition mlbuf_append :: "string \<times> nat \<Rightarrow> mlbuf \<Rightarrow> mlbuf option" where
  "mlbuf_append x ml = map_option snd (libsieve_strbuf True True ml (fst x) (snd x))"

lemma mlbuf_inv_alloc: "libsieve_strbufalloc True True = (r, Some ml) \<Longrightarrow> mlbuf_inv ml \<and> mlbuf_contents ml = []"
  by (auto simp: libsieve_strbufalloc_def mlbuf_inv_def mlbuf_contents_def)

lemma libsieve_strbuf_ok:
  assumes "mlbuf_inv ml"
  shows "\<exists>ml'. libsieve_strbuf True True ml str len = Some (Some (take len str), ml')
           \<and> mlbuf_inv ml' \<and> mlbuf_contents ml' = mlbuf_contents ml @ [take len str]
           \<and> ml_buf ml' ! ml_pos ml' = NullPtr"
proof -
  let ?p = "ml_pos ml" and ?s = "take len str"
  define siz where "siz = (if ml_siz ml \<le> ?p + 1 then ml_siz ml * 2 else ml_siz ml)"
  define b where "b = (if ml_siz ml \<le> ?p + 1
      then take siz (ml_buf ml) @ replicate (siz - length (ml_buf ml)) Uninit else ml_buf ml)"
  define b' where "b' = b[?p := Str ?s, ?p + 1 := NullPtr]"
  have len: "length b = siz" "length b' = siz" and room: "?p + 1 < siz"
    using assms by (auto simp: b_def b'_def siz_def mlbuf_inv_def)
  have pre: "take ?p b = take ?p (ml_buf ml)"
    using assms by (auto simp: b_def siz_def mlbuf_inv_def)
  have taken: "take (?p + 1) b' = take ?p (ml_buf ml) @ [Str ?s]"
    using room len(1) pre by (simp add: b'_def take_Suc_conv_app_nth)
  have run: "libsieve_strbuf True True ml str len =
      Some (Some ?s, ml\<lparr>ml_siz := siz, ml_buf := b', ml_pos := ?p + 1\<rparr>)"
    using room len(1) assms
    by (cases ml) (auto simp: libsieve_strbuf_def Let_def siz_def b_def b'_def slot_write_def
        libsieve_strndup_def mlbuf_inv_def)
  have "mlbuf_inv (ml\<lparr>ml_siz := siz, ml_buf := b', ml_pos := ?p + 1\<rparr>)"
    using assms len room taken by (auto simp: mlbuf_inv_def)
  moreover have "b' ! (?p + 1) = NullPtr" using len room by (simp add: b'_def)
  ultimately show ?thesis
    using run taken by (simp add: mlbuf_contents_def slot_str_def)
qed

interpretation mlbuf: accumulator mlbuf_inv mlbuf_contents mlbuf_append
  "\<lambda>x. [take (snd x) (fst x)]" "\<lambda>_ _. True"
proof
  fix s s' :: mlbuf and x :: "string \<times> nat"
  assume inv: "mlbuf_inv s"
  show "mlbuf_append x s = None \<longleftrightarrow> \<not> True"
    using libsieve_strbuf_ok [OF inv, of "fst x" "snd x"] by (auto simp: mlbuf_append_def)
  assume "mlbuf_append x s = Some s'"
  then show "mlbuf_inv s'" and "mlbuf_contents s' = mlbuf_contents s @ [take (snd x) (fst x)]"
    using libsieve_strbuf_ok [OF inv, of "fst x" "snd x"] by (auto simp: mlbuf_append_def)
qed


lemma catbuf_all_terminated:
  "catbuf_inv s \<Longrightarrow> xs \<noteq> [] \<Longrightarrow> catbuf.app_all xs s = Some s' \<Longrightarrow>
   cb_str s' ! cb_pos s' = Some (CHR 0x00)"
proof (induction xs arbitrary: s)
  case Nil
  then show ?case by simp
next
  case (Cons x xs)
  then obtain t where t: "libsieve_catbuf True x s = Some t" "catbuf.app_all xs t = Some s'"
    by (auto simp: Option.bind_eq_Some_conv)
  then have "catbuf_inv t" and "cb_str t ! cb_pos t = Some (CHR 0x00)"
    using catbuf_step [OF Cons.prems(1), of x] by (auto split: if_splits)
  then show ?case using Cons.IH [of t] t(2) by (cases xs) auto
qed

section \<open>Properties\<close>

text \<open>
  C23. \<^verbatim>\<open>libsieve_strconcat\<close>, with memory granted: it writes the terminating NUL outside its
  block exactly when the growth rule leaves no room after the last piece, and otherwise returns a
  NUL-terminated string that is the concatenation of its arguments.
\<close>

theorem strconcat_concatenates_or_overflows:
  assumes "strs \<noteq> []" and "nul_free (concat strs)"
  shows "if strconcat_room 0 strs = 0 then libsieve_strconcat (\<lambda>_. True) strs = None
         else \<exists>b. libsieve_strconcat (\<lambda>_. True) strs = Some (Some b)
                  \<and> block_cstr b = Some (concat strs)"
  using assms by (rule libsieve_strconcat_eq)

lemma strconcat_concatenates_or_overflows_witness:
  "\<exists>b. libsieve_strconcat (\<lambda>_. True) [''@'', ''example.org''] = Some (Some b)
       \<and> block_cstr b = Some ''@example.org''"
  using strconcat_concatenates_or_overflows [of "[''@'', ''example.org'']"] by simp

text \<open>
  The overflow is reachable: joining a non-empty string and one of 256 characters (a header
  body and a continuation line of 256 characters, in \<^verbatim>\<open>header.y\<close>) writes one byte past the block.
\<close>

lemma strconcat_overflow_256:
  assumes "a \<noteq> []" and "length w = 256"
  shows "libsieve_strconcat (\<lambda>_. True) [a, w] = None"
proof -
  obtain buf where "strconcat_loop (\<lambda>_. True) [] 0 0 [a, w] = Some (buf, length (concat [a, w]))"
    and "length buf = length (concat [a, w]) + strconcat_room 0 [a, w]"
    using strconcat_loop_ok [of "[]" 0 0 "[]" "[a, w]"] by auto
  then show ?thesis using assms by (simp add: libsieve_strconcat_def blk_write_def)
qed

lemma strconcat_overflow_256_witness:
  "libsieve_strconcat (\<lambda>_. True) [''x'', replicate 256 (CHR ''y'')] = None"
  by (rule strconcat_overflow_256) simp_all

text \<open>
  Whether no piece of a list fills the room that is left exactly, from \<open>room\<close> bytes on: a longer
  piece makes the block grow by its length, by 256 at least.
\<close>

fun catbuf_fits :: "nat \<Rightarrow> string list \<Rightarrow> bool" where
  "catbuf_fits room [] = True"
| "catbuf_fits room (p # ps) \<longleftrightarrow> length p \<noteq> room \<and>
     catbuf_fits (if room < length p then room + (if length p < 256 then 256 - length p else 0) else room - length p) ps"

lemma catbuf_room:
  "libsieve_catbuf True str s = Some s' \<Longrightarrow> cb_pos s \<le> cb_len s \<Longrightarrow>
   cb_len s' - cb_pos s' = (let room = cb_len s - cb_pos s
     in if room < length str then room + (if length str < 256 then 256 - length str else 0) else room - length str)"
  by (auto simp: libsieve_catbuf_def bind_eq_Some_conv Let_def max_def split: if_splits)

lemma catbuf_all_fits: "catbuf_inv s \<Longrightarrow> catbuf.app_all ps s \<noteq> None \<longleftrightarrow> catbuf_fits (cb_len s - cb_pos s) ps"
proof (induction ps arbitrary: s)
  case (Cons p ps)
  show ?case
  proof (cases "catbuf_safe p s")
    case True
    then obtain t where t: "libsieve_catbuf True p s = Some t" "catbuf_inv t"
      using catbuf_step [OF Cons.prems, of p] by auto
    moreover have "cb_pos s \<le> cb_len s" using Cons.prems by (simp add: catbuf_inv_def)
    ultimately show ?thesis
      using Cons.IH [OF t(2)] catbuf_room [OF t(1)] True by (simp add: catbuf_safe_def Let_def)
  next
    case False
    then show ?thesis using catbuf_step [OF Cons.prems, of p] by (simp add: catbuf_safe_def)
  qed
qed simp

text \<open>
  C26. \<^verbatim>\<open>libsieve_catbuf\<close> over the pieces of a string that is built from several, as a multi-line
  string of a script, with memory granted: from a new buffer of 256 bytes it writes the NUL outside its
  block when some piece fills exactly the room the pieces before it left, and otherwise the buffer in
  the end holds the concatenation of the pieces as a NUL-terminated string.
\<close>
theorem catbuf_pieces:
  assumes "pieces \<noteq> []" and "nul_free (concat pieces)"
  shows "if catbuf_fits 256 pieces
    then \<exists>s. catbuf.app_all pieces libsieve_catbuf_alloc = Some s \<and> block_cstr (libsieve_catbuf_free s) = Some (concat pieces)
    else catbuf.app_all pieces libsieve_catbuf_alloc = None"
proof (cases "catbuf.app_all pieces libsieve_catbuf_alloc")
  case None
  then show ?thesis using catbuf_all_fits [OF catbuf_inv_alloc, of pieces] by (simp add: libsieve_catbuf_alloc_def)
next
  case (Some s)
  have "catbuf_inv s \<and> catbuf_contents s = catbuf_contents libsieve_catbuf_alloc @ concat (map id pieces)"
    using catbuf.app_all_contents [OF catbuf_inv_alloc Some] .
  then have inv: "catbuf_inv s" and cont: "catbuf_contents s = concat pieces"
    by (simp_all add: catbuf_contents_def libsieve_catbuf_alloc_def)
  have "cb_str s ! cb_pos s = Some (CHR 0x00)"
    by (rule catbuf_all_terminated [OF catbuf_inv_alloc assms(1) Some])
  with catbuf_cstr [OF inv] assms(2) have "block_cstr (libsieve_catbuf_free s) = Some (concat pieces)" by (simp add: cont)
  then show ?thesis using Some catbuf_all_fits [OF catbuf_inv_alloc, of pieces] by (simp add: libsieve_catbuf_alloc_def)
qed

lemma catbuf_pieces_witness:
  "(\<exists>s. catbuf.app_all [''ab'', ''c''] libsieve_catbuf_alloc = Some s
       \<and> block_cstr (libsieve_catbuf_free s) = Some ''abc'') \<and>
   catbuf.app_all [''ab'', replicate 254 (CHR ''x'')] libsieve_catbuf_alloc = None"
  using catbuf_pieces [of "[''ab'', ''c'']"] catbuf_pieces [of "[''ab'', replicate 254 (CHR ''x'')]"]
  by (simp del: catbuf.app_all.simps)

text \<open>
  A well-formed \<^verbatim>\<open>catbuf\<close> writes outside its block exactly when the piece fills the room
  that is left, because the growth test leaves no byte for the terminating NUL; a buffer that no
  piece was added to (an empty \<^verbatim>\<open>text:\<close> block) is not a C string at all.
\<close>

lemma catbuf_overflow_iff_exact_fill:
  assumes "catbuf_inv s"
  shows "(libsieve_catbuf True str s = None) = (length str = cb_len s - cb_pos s)
    \<and> block_cstr (libsieve_catbuf_free libsieve_catbuf_alloc) = None"
proof -
  have "block_cstr (replicate 256 None) = None" by (simp add: numeral_eq_Suc)
  then show ?thesis
    using catbuf.app_defined [OF assms, of str]
    by (simp add: catbuf_safe_def libsieve_catbuf_free_def libsieve_catbuf_alloc_def)
qed

lemma catbuf_overflow_iff_exact_fill_witness:
  "libsieve_catbuf True (replicate 256 (CHR ''x'')) libsieve_catbuf_alloc = None"
  using catbuf_overflow_iff_exact_fill [OF catbuf_inv_alloc, of "replicate 256 (CHR ''x'')"]
  by (simp add: libsieve_catbuf_alloc_def)

text \<open>
  C24. The string table \<^verbatim>\<open>struct mlbuf\<close> with memory granted: from a fresh table, any number of
  \<^verbatim>\<open>libsieve_strbuf\<close> calls stays inside the block, keeps every string it was given in order, and
  those are the strings \<^verbatim>\<open>libsieve_strbuffree\<close> releases.
\<close>

theorem mlbuf_keeps_all:
  assumes "libsieve_strbufalloc True True = (r, Some ml)"
  shows "\<exists>ml'. mlbuf.app_all xs ml = Some ml' \<and> mlbuf_inv ml'
    \<and> libsieve_strbuffree ml' True = map (\<lambda>(s, n). Str (take n s)) xs"
proof -
  have ml: "mlbuf_inv ml" "mlbuf_contents ml = []" using mlbuf_inv_alloc [OF assms] by auto
  obtain ml' where ml': "mlbuf.app_all xs ml = Some ml'"
    using mlbuf.app_all_defined [OF TrueI ml(1)] by blast
  have inv: "mlbuf_inv ml'" and cont: "mlbuf_contents ml' = map (\<lambda>x. take (snd x) (fst x)) xs"
    using mlbuf.app_all_contents [OF ml(1) ml'] ml(2) by auto
  have "take (ml_pos ml') (ml_buf ml') = map Str (mlbuf_contents ml')"
    using inv by (auto simp: mlbuf_inv_def mlbuf_contents_def slot_str_def o_def intro!: map_idI [symmetric])
  then show ?thesis using ml' inv cont by (simp add: libsieve_strbuffree_def split_def)
qed

lemma mlbuf_keeps_all_witness:
  "\<exists>ml ml'. libsieve_strbufalloc True True = (SIEVE2_OK, Some ml)
     \<and> mlbuf.app_all [(''fileinto'', 4)] ml = Some ml'
     \<and> libsieve_strbuffree ml' True = [Str ''file'']"
proof -
  obtain ml where ml: "libsieve_strbufalloc True True = (SIEVE2_OK, Some ml)"
    by (simp add: libsieve_strbufalloc_def)
  show ?thesis using ml mlbuf_keeps_all [OF ml, of "[(''fileinto'', 4)]"] by (auto simp: numeral_eq_Suc)
qed

text \<open>
  A refused growth breaks the table: the recorded size is doubled before the outcome is known,
  so the call after a refused one on a full table writes past the block.
\<close>

lemma mlbuf_refused_growth:
  assumes "mlbuf_inv ml" and "ml_pos ml + 1 = ml_siz ml"
  shows "\<exists>ml'. libsieve_strbuf False ok ml str len = Some (None, ml')
    \<and> libsieve_strbuf ok' True ml' str' len' = None"
  using assms
  by (auto simp: libsieve_strbuf_def Let_def mlbuf_inv_def libsieve_strndup_def slot_write_def)

lemma mlbuf_refused_growth_witness:
  "\<exists>ml'. libsieve_strbuf False True \<lparr>ml_buf = [Str ''a'', NullPtr], ml_siz = 2, ml_pos = 1\<rparr> ''b'' 1
      = Some (None, ml') \<and> libsieve_strbuf True True ml' ''b'' 1 = None"
  by (rule mlbuf_refused_growth) (auto simp: mlbuf_inv_def)

text \<open>
  C33. \<^verbatim>\<open>libsieve_strtonum\<close> on a number of the script, digits and an optional unit letter, where
  the digits fit an \<^verbatim>\<open>int\<close> or, without a unit, 32 bits: the result is the product of number and unit
  when it fits an \<^verbatim>\<open>int\<close>. A larger plain number reads as 0, and a larger product, as for
  \<^verbatim>\<open>2G\<close>, overflows in the multiplication, which is undefined in C.
\<close>
theorem strtonum_value:
  assumes "ds \<noteq> []" and "\<forall>c \<in> set ds. c_isdigit c" and "u \<in> {[], ''K'', ''M'', ''G''}"
    and "digits_val ds < (if u = [] then 2 ^ 32 else 2 ^ 31)"
  shows "libsieve_strtonum (ds @ u)
    = (if digits_val ds * unit_factor u < 2 ^ 31 then Some (digits_val ds * unit_factor u)
       else if u = [] then Some 0 else None)"
proof -
  let ?v = "digits_val ds"
  have nonneg: "0 \<le> ?v" by (rule digits_val_nonneg [OF assms(2)])
  have "?v < 2 ^ 63" using assms(4) by (auto split: if_splits)
  then have parse: "strtol10 (ds @ u) = (?v, u)" using assms(1-3) nonneg by (intro strtol10_unit) auto
  show ?thesis
  proof (cases "?v < 2 ^ 31")
    case True
    then have id: "to_int32 ?v = ?v" using nonneg by (intro to_int32_id) auto
    have fits: "to_int32 (?v * f) = ?v * f \<longleftrightarrow> ?v * f < 2 ^ 31" if "0 < f" for f
      using to_int32_fits [of "?v * f"] nonneg that by (simp add: order_trans [of _ 0])
    show ?thesis
      using assms(3) nonneg True fits [of "2 ^ 10"] fits [of "2 ^ 20"] fits [of "2 ^ 30"]
      by (auto simp: libsieve_strtonum_def parse id unit_bits_def Let_def)
  next
    case False
    then have u: "u = []" "?v < 2 ^ 32" using assms(4) by (auto split: if_splits)
    have "(?v - 2 ^ 31 + 2 ^ 32) mod 2 ^ 32 = ?v - 2 ^ 31"
      using False u(2) by (subst mod_add_self2) (intro mod_pos_pos_trivial, simp_all)
    then have "to_int32 ?v < 0" using u(2) by (simp add: to_int32_def algebra_simps)
    then show ?thesis using u False parse by (simp add: libsieve_strtonum_def unit_bits_def)
  qed
qed

lemma strtonum_value_witness:
  "libsieve_strtonum ''10K'' = Some 10240 \<and> libsieve_strtonum ''2G'' = None \<and> libsieve_strtonum ''3000000000'' = Some 0"
  using strtonum_value [of "''10''" "''K''"] strtonum_value [of "''2''" "''G''"] strtonum_value [of "''3000000000''" "[]"]
  by (simp add: c_isdigit_def digits_val_def digit_val_def)

end
