(* ===== verification/Md5.thy ===== *)
theory Md5
  imports Util
begin

unbundle bit_operations_syntax

text \<open>
  The MD5 code of \<^verbatim>\<open>src/sv_util/md5.c\<close>: the unrolled block transform, the streaming
  \<^verbatim>\<open>init\<close> / \<^verbatim>\<open>update\<close> / \<^verbatim>\<open>final\<close> interface over \<^verbatim>\<open>struct GdmMD5Context\<close>, and
  \<^verbatim>\<open>libsieve_makehash\<close>; and the message digest of RFC 1321, table-driven and over the whole
  message, that they compute. The host is little-endian, where \<^verbatim>\<open>byteReverse\<close> is empty and a
  \<^verbatim>\<open>uint32\<close> overlays four bytes, the lowest first.
\<close>

type_synonym u32 = "32 word"
type_synonym u8 = "8 word"
type_synonym chain = "u32 \<times> u32 \<times> u32 \<times> u32"

section \<open>The block transform\<close>

definition F1 :: "u32 \<Rightarrow> u32 \<Rightarrow> u32 \<Rightarrow> u32" where
  "F1 x y z = z XOR (x AND (y XOR z))"

definition F2 :: "u32 \<Rightarrow> u32 \<Rightarrow> u32 \<Rightarrow> u32" where
  "F2 x y z = F1 z x y"

definition F3 :: "u32 \<Rightarrow> u32 \<Rightarrow> u32 \<Rightarrow> u32" where
  "F3 x y z = x XOR y XOR z"

definition F4 :: "u32 \<Rightarrow> u32 \<Rightarrow> u32 \<Rightarrow> u32" where
  "F4 x y z = y XOR (x OR NOT z)"

text \<open>
  \<^verbatim>\<open>gdm_md5_step(f, w, x, y, z, data, s)\<close>: the new value of the variable \<open>w\<close>. The transform is
  the list of its 64 uses; \<open>RA\<close> to \<open>RD\<close> are the local variables \<^verbatim>\<open>a\<close> to \<^verbatim>\<open>d\<close>.
\<close>

definition gdm_md5_step ::
  "(u32 \<Rightarrow> u32 \<Rightarrow> u32 \<Rightarrow> u32) \<Rightarrow> u32 \<Rightarrow> u32 \<Rightarrow> u32 \<Rightarrow> u32 \<Rightarrow> u32 \<Rightarrow> nat \<Rightarrow> u32" where
  "gdm_md5_step f w x y z data s =
     (let w = w + (f x y z + data);
          w = push_bit s w OR drop_bit (32 - s) w
      in w + x)"

datatype reg = RA | RB | RC | RD

type_synonym md5_instr =
  "(u32 \<Rightarrow> u32 \<Rightarrow> u32 \<Rightarrow> u32) \<times> reg \<times> reg \<times> reg \<times> reg \<times> nat \<times> u32 \<times> nat"

definition md5_run :: "u32 list \<Rightarrow> (reg \<Rightarrow> u32) \<Rightarrow> md5_instr \<Rightarrow> (reg \<Rightarrow> u32)" where
  "md5_run input v ins =
     (case ins of (f, w, x, y, z, i, k, s) \<Rightarrow>
        v(w := gdm_md5_step f (v w) (v x) (v y) (v z) (input ! i + k) s))"

definition md5_program :: "md5_instr list" where
  "md5_program =
    [(F1, RA, RB, RC, RD, 0, 0xd76aa478, 7),
     (F1, RD, RA, RB, RC, 1, 0xe8c7b756, 12),
     (F1, RC, RD, RA, RB, 2, 0x242070db, 17),
     (F1, RB, RC, RD, RA, 3, 0xc1bdceee, 22),
     (F1, RA, RB, RC, RD, 4, 0xf57c0faf, 7),
     (F1, RD, RA, RB, RC, 5, 0x4787c62a, 12),
     (F1, RC, RD, RA, RB, 6, 0xa8304613, 17),
     (F1, RB, RC, RD, RA, 7, 0xfd469501, 22),
     (F1, RA, RB, RC, RD, 8, 0x698098d8, 7),
     (F1, RD, RA, RB, RC, 9, 0x8b44f7af, 12),
     (F1, RC, RD, RA, RB, 10, 0xffff5bb1, 17),
     (F1, RB, RC, RD, RA, 11, 0x895cd7be, 22),
     (F1, RA, RB, RC, RD, 12, 0x6b901122, 7),
     (F1, RD, RA, RB, RC, 13, 0xfd987193, 12),
     (F1, RC, RD, RA, RB, 14, 0xa679438e, 17),
     (F1, RB, RC, RD, RA, 15, 0x49b40821, 22),
     (F2, RA, RB, RC, RD, 1, 0xf61e2562, 5),
     (F2, RD, RA, RB, RC, 6, 0xc040b340, 9),
     (F2, RC, RD, RA, RB, 11, 0x265e5a51, 14),
     (F2, RB, RC, RD, RA, 0, 0xe9b6c7aa, 20),
     (F2, RA, RB, RC, RD, 5, 0xd62f105d, 5),
     (F2, RD, RA, RB, RC, 10, 0x02441453, 9),
     (F2, RC, RD, RA, RB, 15, 0xd8a1e681, 14),
     (F2, RB, RC, RD, RA, 4, 0xe7d3fbc8, 20),
     (F2, RA, RB, RC, RD, 9, 0x21e1cde6, 5),
     (F2, RD, RA, RB, RC, 14, 0xc33707d6, 9),
     (F2, RC, RD, RA, RB, 3, 0xf4d50d87, 14),
     (F2, RB, RC, RD, RA, 8, 0x455a14ed, 20),
     (F2, RA, RB, RC, RD, 13, 0xa9e3e905, 5),
     (F2, RD, RA, RB, RC, 2, 0xfcefa3f8, 9),
     (F2, RC, RD, RA, RB, 7, 0x676f02d9, 14),
     (F2, RB, RC, RD, RA, 12, 0x8d2a4c8a, 20),
     (F3, RA, RB, RC, RD, 5, 0xfffa3942, 4),
     (F3, RD, RA, RB, RC, 8, 0x8771f681, 11),
     (F3, RC, RD, RA, RB, 11, 0x6d9d6122, 16),
     (F3, RB, RC, RD, RA, 14, 0xfde5380c, 23),
     (F3, RA, RB, RC, RD, 1, 0xa4beea44, 4),
     (F3, RD, RA, RB, RC, 4, 0x4bdecfa9, 11),
     (F3, RC, RD, RA, RB, 7, 0xf6bb4b60, 16),
     (F3, RB, RC, RD, RA, 10, 0xbebfbc70, 23),
     (F3, RA, RB, RC, RD, 13, 0x289b7ec6, 4),
     (F3, RD, RA, RB, RC, 0, 0xeaa127fa, 11),
     (F3, RC, RD, RA, RB, 3, 0xd4ef3085, 16),
     (F3, RB, RC, RD, RA, 6, 0x04881d05, 23),
     (F3, RA, RB, RC, RD, 9, 0xd9d4d039, 4),
     (F3, RD, RA, RB, RC, 12, 0xe6db99e5, 11),
     (F3, RC, RD, RA, RB, 15, 0x1fa27cf8, 16),
     (F3, RB, RC, RD, RA, 2, 0xc4ac5665, 23),
     (F4, RA, RB, RC, RD, 0, 0xf4292244, 6),
     (F4, RD, RA, RB, RC, 7, 0x432aff97, 10),
     (F4, RC, RD, RA, RB, 14, 0xab9423a7, 15),
     (F4, RB, RC, RD, RA, 5, 0xfc93a039, 21),
     (F4, RA, RB, RC, RD, 12, 0x655b59c3, 6),
     (F4, RD, RA, RB, RC, 3, 0x8f0ccc92, 10),
     (F4, RC, RD, RA, RB, 10, 0xffeff47d, 15),
     (F4, RB, RC, RD, RA, 1, 0x85845dd1, 21),
     (F4, RA, RB, RC, RD, 8, 0x6fa87e4f, 6),
     (F4, RD, RA, RB, RC, 15, 0xfe2ce6e0, 10),
     (F4, RC, RD, RA, RB, 6, 0xa3014314, 15),
     (F4, RB, RC, RD, RA, 13, 0x4e0811a1, 21),
     (F4, RA, RB, RC, RD, 4, 0xf7537e82, 6),
     (F4, RD, RA, RB, RC, 11, 0xbd3af235, 10),
     (F4, RC, RD, RA, RB, 2, 0x2ad7d2bb, 15),
     (F4, RB, RC, RD, RA, 9, 0xeb86d391, 21)]"

definition gdm_md5_transform :: "chain \<Rightarrow> u32 list \<Rightarrow> chain" where
  "gdm_md5_transform buf input =
     (case buf of (a, b, c, d) \<Rightarrow>
        let v = foldl (md5_run input)
                  (\<lambda>r. case r of RA \<Rightarrow> a | RB \<Rightarrow> b | RC \<Rightarrow> c | RD \<Rightarrow> d) md5_program
        in (a + v RA, b + v RB, c + v RC, d + v RD))"

section \<open>The context\<close>

record md5_context =
  md5_buf :: chain
  md5_bits :: "u32 \<times> u32"
  md5_in :: "u8 list"

definition gdm_md5_init :: "md5_context \<Rightarrow> md5_context" where
  "gdm_md5_init ctx =
     ctx\<lparr>md5_buf := (0x67452301, 0xefcdab89, 0x98badcfe, 0x10325476), md5_bits := (0, 0)\<rparr>"

text \<open>The four bytes of a \<^verbatim>\<open>uint32\<close> in memory, and the sixteen words that overlay \<^verbatim>\<open>in[64]\<close>.\<close>

definition le_word :: "u8 list \<Rightarrow> u32" where
  "le_word bs = foldr (\<lambda>b w. push_bit 8 w OR ucast b) bs 0"

definition le_bytes :: "u32 \<Rightarrow> u8 list" where
  "le_bytes w = map (\<lambda>i. ucast (drop_bit (8 * i) w)) [0..<4]"

definition le_words :: "u8 list \<Rightarrow> u32 list" where
  "le_words bs = map (\<lambda>i. le_word (take 4 (drop (4 * i) bs))) [0..<16]"

text \<open>\<^verbatim>\<open>memcpy\<close> of \<open>src\<close> to position \<open>p\<close> of the buffer \<open>dst\<close>.\<close>

definition bytes_put :: "u8 list \<Rightarrow> nat \<Rightarrow> u8 list \<Rightarrow> u8 list" where
  "bytes_put dst p src = take p dst @ src @ drop (p + length src) dst"

text \<open>The loop over the complete blocks, and the copy of the rest.\<close>

fun md5_blocks :: "md5_context \<Rightarrow> u8 list \<Rightarrow> md5_context" where
  "md5_blocks ctx buf =
     (if 64 \<le> length buf
      then (let i = bytes_put (md5_in ctx) 0 (take 64 buf)
            in md5_blocks (ctx\<lparr>md5_in := i, md5_buf := gdm_md5_transform (md5_buf ctx) (le_words i)\<rparr>)
                 (drop 64 buf))
      else ctx\<lparr>md5_in := bytes_put (md5_in ctx) 0 buf\<rparr>)"

declare md5_blocks.simps [simp del]

definition gdm_md5_update :: "md5_context \<Rightarrow> u8 list \<Rightarrow> nat \<Rightarrow> md5_context" where
  "gdm_md5_update ctx bytes n =
     (let len = take_bit 32 n; buf = take len bytes;
          t = fst (md5_bits ctx);
          lo = t + push_bit 3 (of_nat len);
          hi = (if lo < t then snd (md5_bits ctx) + 1 else snd (md5_bits ctx)) + of_nat (drop_bit 29 len);
          ctx = ctx\<lparr>md5_bits := (lo, hi)\<rparr>;
          k = unat (drop_bit 3 t AND 0x3f)
      in if k \<noteq> 0 then
           (let r = 64 - k
            in if len < r then ctx\<lparr>md5_in := bytes_put (md5_in ctx) k buf\<rparr>
               else (let i = bytes_put (md5_in ctx) k (take r buf)
                     in md5_blocks (ctx\<lparr>md5_in := i,
                            md5_buf := gdm_md5_transform (md5_buf ctx) (le_words i)\<rparr>)
                          (drop r buf)))
         else md5_blocks ctx buf)"

text \<open>
  \<^verbatim>\<open>gdm_md5_final\<close> returns the digest and the context it leaves: \<^verbatim>\<open>memset(ctx, 0, sizeof(ctx))\<close>
  clears as many bytes as a pointer has, eight, which are \<^verbatim>\<open>buf[0]\<close> and \<^verbatim>\<open>buf[1]\<close>.
\<close>

definition gdm_md5_final :: "md5_context \<Rightarrow> u8 list \<times> md5_context" where
  "gdm_md5_final ctx =
     (let count = unat (drop_bit 3 (fst (md5_bits ctx)) AND 0x3F);
          i = bytes_put (md5_in ctx) count [0x80];
          p = count + 1;
          count = 64 - 1 - count;
          (buf, i) =
            (if count < 8
             then (let i = bytes_put i p (replicate count 0);
                       buf = gdm_md5_transform (md5_buf ctx) (le_words i)
                   in (buf, bytes_put i 0 (replicate 56 0)))
             else (md5_buf ctx, bytes_put i p (replicate (count - 8) 0)));
          i = bytes_put i 56 (le_bytes (fst (md5_bits ctx)));
          i = bytes_put i 60 (le_bytes (snd (md5_bits ctx)));
          buf = gdm_md5_transform buf (le_words i)
      in case buf of (a, b, c, d) \<Rightarrow>
           (le_bytes a @ le_bytes b @ le_bytes c @ le_bytes d,
            ctx\<lparr>md5_buf := (0, 0, c, d), md5_in := i\<rparr>))"

definition hex_digit :: "nat \<Rightarrow> char" where
  "hex_digit n = char_of (if n < 10 then 48 + n else 87 + n)"

definition hex_string :: "u8 list \<Rightarrow> string" where
  "hex_string bs = concat (map (\<lambda>b. [hex_digit (unat b div 16), hex_digit (unat b mod 16)]) bs)"

definition bytes_of :: "string \<Rightarrow> u8 list" where
  "bytes_of s = map (\<lambda>c. of_nat (code c)) s"

text \<open>
  The digest \<^verbatim>\<open>libsieve_makehash\<close> computes from its two strings; \<open>ctx\<close> is the uninitialised
  context of its stack frame. The function then prints it into a block of 33 bytes (each
  \<^verbatim>\<open>sprintf\<close> writes two digits and a NUL) and stores a NUL at index 33.
\<close>

definition makehash_digest :: "md5_context \<Rightarrow> string \<Rightarrow> string \<Rightarrow> u8 list" where
  "makehash_digest ctx s1 s2 =
     (let ctx = gdm_md5_init ctx;
          ctx = gdm_md5_update ctx (bytes_of s1) (length s1);
          ctx = gdm_md5_update ctx (bytes_of s2) (length s2)
      in fst (gdm_md5_final ctx))"

definition libsieve_makehash :: "bool \<Rightarrow> md5_context \<Rightarrow> string \<Rightarrow> string \<Rightarrow> block option option" where
  "libsieve_makehash ok ctx s1 s2 =
     (let result = makehash_digest ctx s1 s2
      in if \<not> ok then Some None
         else do {
           hash \<leftarrow> blk_write (replicate 33 None) 0 (hex_string result @ [CHR 0x00]);
           hash \<leftarrow> blk_write hash 33 [CHR 0x00];
           Some (Some hash)
         })"

section \<open>RFC 1321\<close>

definition rfc_K :: "u32 list" where
  "rfc_K =
    [0xd76aa478, 0xe8c7b756, 0x242070db, 0xc1bdceee,
     0xf57c0faf, 0x4787c62a, 0xa8304613, 0xfd469501,
     0x698098d8, 0x8b44f7af, 0xffff5bb1, 0x895cd7be,
     0x6b901122, 0xfd987193, 0xa679438e, 0x49b40821,
     0xf61e2562, 0xc040b340, 0x265e5a51, 0xe9b6c7aa,
     0xd62f105d, 0x02441453, 0xd8a1e681, 0xe7d3fbc8,
     0x21e1cde6, 0xc33707d6, 0xf4d50d87, 0x455a14ed,
     0xa9e3e905, 0xfcefa3f8, 0x676f02d9, 0x8d2a4c8a,
     0xfffa3942, 0x8771f681, 0x6d9d6122, 0xfde5380c,
     0xa4beea44, 0x4bdecfa9, 0xf6bb4b60, 0xbebfbc70,
     0x289b7ec6, 0xeaa127fa, 0xd4ef3085, 0x04881d05,
     0xd9d4d039, 0xe6db99e5, 0x1fa27cf8, 0xc4ac5665,
     0xf4292244, 0x432aff97, 0xab9423a7, 0xfc93a039,
     0x655b59c3, 0x8f0ccc92, 0xffeff47d, 0x85845dd1,
     0x6fa87e4f, 0xfe2ce6e0, 0xa3014314, 0x4e0811a1,
     0xf7537e82, 0xbd3af235, 0x2ad7d2bb, 0xeb86d391]"

definition rfc_fun :: "nat \<Rightarrow> u32 \<Rightarrow> u32 \<Rightarrow> u32 \<Rightarrow> u32" where
  "rfc_fun i x y z =
     (if i < 16 then (x AND y) OR (NOT x AND z)
      else if i < 32 then (x AND z) OR (y AND NOT z)
      else if i < 48 then x XOR y XOR z
      else y XOR (x OR NOT z))"

definition rfc_index :: "nat \<Rightarrow> nat" where
  "rfc_index i =
     (if i < 16 then i else if i < 32 then (5 * i + 1) mod 16
      else if i < 48 then (3 * i + 5) mod 16 else (7 * i) mod 16)"

definition rfc_shift :: "nat \<Rightarrow> nat" where
  "rfc_shift i =
     (if i < 16 then [7, 12, 17, 22] else if i < 32 then [5, 9, 14, 20]
      else if i < 48 then [4, 11, 16, 23] else [6, 10, 15, 21]) ! (i mod 4)"

definition rfc_round :: "u32 list \<Rightarrow> chain \<Rightarrow> nat \<Rightarrow> chain" where
  "rfc_round X st i =
     (case st of (a, b, c, d) \<Rightarrow>
        (d, b + word_rotl (rfc_shift i) (a + rfc_fun i b c d + X ! rfc_index i + rfc_K ! i), b, c))"

definition rfc_block :: "chain \<Rightarrow> u8 list \<Rightarrow> chain" where
  "rfc_block st bs =
     (case (st, foldl (rfc_round (le_words bs)) st [0..<64]) of
        ((a, b, c, d), (a', b', c', d')) \<Rightarrow> (a + a', b + b', c + c', d + d'))"

text \<open>The complete blocks of a message, in order, through the transform.\<close>

fun rfc_blocks :: "chain \<Rightarrow> u8 list \<Rightarrow> chain" where
  "rfc_blocks st m = (if length m < 64 then st else rfc_blocks (rfc_block st (take 64 m)) (drop 64 m))"

declare rfc_blocks.simps [simp del]

definition rfc_pad :: "u8 list \<Rightarrow> u8 list" where
  "rfc_pad m =
     m @ [0x80] @ replicate (nat ((55 - int (length m)) mod 64)) 0
     @ le_bytes (of_nat (8 * length m)) @ le_bytes (of_nat (8 * length m div 2 ^ 32))"

definition rfc1321 :: "u8 list \<Rightarrow> u8 list" where
  "rfc1321 m =
     (case rfc_blocks (0x67452301, 0xefcdab89, 0x98badcfe, 0x10325476) (rfc_pad m) of
        (a, b, c, d) \<Rightarrow> le_bytes a @ le_bytes b @ le_bytes c @ le_bytes d)"

section \<open>The transform is the RFC\<close>

lemma F1_rfc: "F1 x y z = (x AND y) OR (NOT x AND z)"
  unfolding F1_def by (rule bit_word_eqI) (auto simp: bit_simps)

lemma F2_rfc: "F2 x y z = (x AND z) OR (y AND NOT z)"
  unfolding F2_def F1_def by (rule bit_word_eqI) (auto simp: bit_simps)

lemma rotl_shift_or:
  fixes w :: u32
  assumes "0 < s" and "s < 32"
  shows "push_bit s w OR drop_bit (32 - s) w = word_rotl s w"
proof (rule bit_word_eqI)
  fix n :: nat
  assume n: "n < LENGTH(32)"
  have r: "bit (word_rotl s w) n = bit w ((n + (32 - s)) mod 32)"
    using assms n by (simp add: bit_word_rotl_iff)
  have l: "bit (push_bit s w OR drop_bit (32 - s) w) n = (s \<le> n \<and> bit w (n - s) \<or> bit w (32 - s + n))"
    using n by (auto simp: bit_or_iff bit_push_bit_iff bit_drop_bit_eq)
  show "bit (push_bit s w OR drop_bit (32 - s) w) n = bit (word_rotl s w) n"
  proof (cases "n < s")
    case True
    then have "(n + (32 - s)) mod 32 = 32 - s + n" using assms n by auto
    then show ?thesis unfolding l r using True by simp
  next
    case False
    then have "(n + (32 - s)) mod 32 = n - s" using assms n by (simp add: mod_if)
    moreover have "\<not> bit w (32 - s + n)" using False assms by (auto dest: bit_imp_le_length)
    ultimately show ?thesis unfolding l r using False by simp
  qed
qed

text \<open>The roles of the four variables rotate with the step number.\<close>

definition roles :: "nat \<Rightarrow> reg \<times> reg \<times> reg \<times> reg" where
  "roles i = (if i mod 4 = 0 then (RA, RB, RC, RD) else if i mod 4 = 1 then (RD, RA, RB, RC)
     else if i mod 4 = 2 then (RC, RD, RA, RB) else (RB, RC, RD, RA))"

definition step_fun :: "nat \<Rightarrow> u32 \<Rightarrow> u32 \<Rightarrow> u32 \<Rightarrow> u32" where
  "step_fun i = (if i < 16 then F1 else if i < 32 then F2 else if i < 48 then F3 else F4)"

definition rfc_instr :: "nat \<Rightarrow> md5_instr" where
  "rfc_instr i = (case roles i of (w, x, y, z) \<Rightarrow>
     (step_fun i, w, x, y, z, rfc_index i, rfc_K ! i, rfc_shift i))"

definition view :: "(reg \<Rightarrow> u32) \<Rightarrow> nat \<Rightarrow> chain" where
  "view v i = (case roles i of (w, x, y, z) \<Rightarrow> (v w, v x, v y, v z))"

lemma upt_64:
  "[0..<64] = [0, 1, 2, 3, 4, 5, 6, 7, 8, 9, 10, 11, 12, 13, 14, 15,
    16, 17, 18, 19, 20, 21, 22, 23, 24, 25, 26, 27, 28, 29, 30, 31,
    32, 33, 34, 35, 36, 37, 38, 39, 40, 41, 42, 43, 44, 45, 46, 47,
    48, 49, 50, 51, 52, 53, 54, 55, 56, 57, 58, 59, 60, 61, 62, 63]"
  by (simp add: upt_rec)

lemma md5_program_rfc: "md5_program = map rfc_instr [0..<64]"
  unfolding upt_64 md5_program_def
  by (simp add: rfc_instr_def roles_def step_fun_def rfc_index_def rfc_shift_def rfc_K_def)

lemma step_fun_rfc: "step_fun i x y z = rfc_fun i x y z"
  by (simp add: step_fun_def rfc_fun_def F1_rfc F2_rfc F3_def F4_def)

lemma rfc_shift_range: "0 < rfc_shift i \<and> rfc_shift i < 32"
proof -
  have "i mod 4 \<in> {0, 1, 2, 3}" by auto
  then show ?thesis by (auto simp: rfc_shift_def)
qed

lemma roles_cases:
  obtains "roles i = (RA, RB, RC, RD)" "roles (Suc i) = (RD, RA, RB, RC)"
  | "roles i = (RD, RA, RB, RC)" "roles (Suc i) = (RC, RD, RA, RB)"
  | "roles i = (RC, RD, RA, RB)" "roles (Suc i) = (RB, RC, RD, RA)"
  | "roles i = (RB, RC, RD, RA)" "roles (Suc i) = (RA, RB, RC, RD)"
proof -
  have "i mod 4 \<in> {0, 1, 2, 3}" by auto
  then show ?thesis using that by (auto simp: roles_def mod_Suc)
qed

lemma md5_run_step: "view (md5_run X v (rfc_instr i)) (Suc i) = rfc_round X (view v i) i"
  using rfc_shift_range [of i]
  by (cases i rule: roles_cases)
    (simp_all add: view_def rfc_round_def md5_run_def rfc_instr_def gdm_md5_step_def Let_def
      rotl_shift_or step_fun_rfc algebra_simps)

lemma md5_run_steps:
  "view (foldl (md5_run X) v (map rfc_instr [0..<n])) n = foldl (rfc_round X) (view v 0) [0..<n]"
  by (induction n) (simp_all add: md5_run_step)

lemma view_64: "view v 64 = (v RA, v RB, v RC, v RD)" and view_0: "view v 0 = (v RA, v RB, v RC, v RD)"
  by (simp_all add: view_def roles_def)

lemma transform_rfc: "gdm_md5_transform st (le_words bs) = rfc_block st bs"
proof -
  obtain a b c d where st: "st = (a, b, c, d)" by (cases st)
  let ?v = "\<lambda>r. case r of RA \<Rightarrow> a | RB \<Rightarrow> b | RC \<Rightarrow> c | RD \<Rightarrow> d"
  have "view (foldl (md5_run (le_words bs)) ?v md5_program) 64
      = foldl (rfc_round (le_words bs)) st [0..<64]"
    unfolding md5_program_rfc md5_run_steps by (simp add: view_0 st)
  then have "foldl (rfc_round (le_words bs)) (a, b, c, d) [0..<64]
      = (let v = foldl (md5_run (le_words bs)) ?v md5_program in (v RA, v RB, v RC, v RD))"
    by (simp add: view_64 st Let_def)
  then show ?thesis
    by (simp add: gdm_md5_transform_def rfc_block_def st Let_def)
qed

section \<open>Streaming\<close>

lemma rfc_blocks_short [simp]: "length m < 64 \<Longrightarrow> rfc_blocks st m = st"
  by (simp add: rfc_blocks.simps)

lemma rfc_blocks_long: "64 \<le> length m \<Longrightarrow> rfc_blocks st m = rfc_blocks (rfc_block st (take 64 m)) (drop 64 m)"
  by (simp add: rfc_blocks.simps [of st m])

lemma rfc_blocks_append:
  "length a mod 64 = 0 \<Longrightarrow> rfc_blocks st (a @ b) = rfc_blocks (rfc_blocks st a) b"
proof (induction st a rule: rfc_blocks.induct)
  case (1 st m)
  show ?case
  proof (cases "length m < 64")
    case True
    then show ?thesis using 1(2) by auto
  next
    case False
    then have "(length m - 64) mod 64 = 0" using 1(2) by (simp add: mod_if [of "length m"])
    then show ?thesis using False 1(1) by (simp add: rfc_blocks_long)
  qed
qed

lemma length_bytes_put [simp]: "p + length s \<le> length d \<Longrightarrow> length (bytes_put d p s) = length d"
  by (simp add: bytes_put_def)

lemma take_bytes_put: "p + length s \<le> length d \<Longrightarrow> take (p + length s) (bytes_put d p s) = take p d @ s"
  by (simp add: bytes_put_def)

lemma bytes_put_fill: "p + length s = length d \<Longrightarrow> bytes_put d p s = take p d @ s"
  by (simp add: bytes_put_def)

lemma md5_blocks_bits [simp]: "md5_bits (md5_blocks ctx buf) = md5_bits ctx"
  by (induction ctx buf rule: md5_blocks.induct) (simp add: md5_blocks.simps Let_def)

lemma md5_blocks_buf:
  "length (md5_in ctx) = 64 \<Longrightarrow> md5_buf (md5_blocks ctx buf) = rfc_blocks (md5_buf ctx) buf"
proof (induction ctx buf rule: md5_blocks.induct)
  case (1 ctx buf)
  then show ?case
    by (simp add: md5_blocks.simps [of ctx buf] Let_def rfc_blocks_long transform_rfc bytes_put_fill)
qed

lemma md5_blocks_in:
  "length (md5_in ctx) = 64 \<Longrightarrow>
     length (md5_in (md5_blocks ctx buf)) = 64 \<and>
     take (length buf mod 64) (md5_in (md5_blocks ctx buf)) = drop (length buf - length buf mod 64) buf"
proof (induction ctx buf rule: md5_blocks.induct)
  case (1 ctx buf)
  show ?case
  proof (cases "64 \<le> length buf")
    case True
    then have "(length buf - 64) mod 64 = length buf mod 64" by (simp add: mod_if [of "length buf"])
    moreover have "length buf - 64 - length buf mod 64 + 64 = length buf - length buf mod 64"
      using True by (smt (verit) calculation diff_commute le_add_diff_inverse2 mod_less_eq_dividend ordered_cancel_comm_monoid_diff_class.diff_add_assoc2 length_drop)
    ultimately show ?thesis using 1 True
      by (simp add: md5_blocks.simps [of ctx buf] Let_def)
  next
    case False
    then show ?thesis using 1(2)
      by (simp add: md5_blocks.simps [of ctx buf] take_bytes_put [of 0 buf, simplified])
  qed
qed

definition md5_absorbed :: "u8 list \<Rightarrow> md5_context \<Rightarrow> bool" where
  "md5_absorbed m ctx =
     (length (md5_in ctx) = 64 \<and>
      md5_bits ctx = (of_nat (8 * length m), of_nat (8 * length m div 2 ^ 32)) \<and>
      md5_buf ctx = rfc_blocks (0x67452301, 0xefcdab89, 0x98badcfe, 0x10325476) m \<and>
      take (length m mod 64) (md5_in ctx) = drop (length m - length m mod 64) m)"

lemma absorbed_count: "unat (drop_bit 3 (of_nat (8 * n) :: u32) AND 0x3f) = n mod 64"
proof -
  have "(0x3f :: u32) = mask 6" by (simp add: mask_eq_exp_minus_1)
  then have "unat (drop_bit 3 (of_nat (8 * n) :: u32) AND 0x3f) = take_bit 6 (drop_bit 3 (take_bit 32 (8 * n)))"
    by (simp only: take_bit_eq_mask [symmetric] unsigned_take_bit_eq unsigned_drop_bit_eq unsigned_of_nat) simp
  also have "\<dots> = 8 * n mod 2 ^ 32 div 8 mod 64"
    by (simp only: take_bit_eq_mod drop_bit_eq_div) simp
  also have "\<dots> = 8 * (n mod 2 ^ 29) div 8 mod 64"
    using mult_mod_right [of 8 n "2 ^ 29"] by simp
  also have "\<dots> = n mod 64"
    by (simp add: mod_mod_cancel)
  finally show ?thesis .
qed

lemma absorbed_low:
  "(of_nat (8 * a) :: u32) + push_bit 3 (of_nat b) = of_nat (8 * (a + b))"
  by (simp add: push_bit_eq_mult)

lemma add_div_carry:
  fixes x y m :: nat
  assumes "0 < m"
  shows "(x + y) div m = (if (x + y) mod m < x mod m then x div m + 1 else x div m) + y div m"
proof -
  define u v where "u = x mod m" and "v = y mod m"
  have uv: "u < m" "v < m" using assms by (simp_all add: u_def v_def)
  have d: "(x + y) div m = x div m + y div m + (u + v) div m" unfolding u_def v_def by (rule div_add1_eq)
  have r: "(x + y) mod m = (u + v) mod m" unfolding u_def v_def by (simp add: mod_add_eq)
  show ?thesis
  proof (cases "u + v < m")
    case True
    then show ?thesis using d r by (simp flip: u_def)
  next
    case False
    have "(u + v) div m = 1" by (rule div_nat_eqI) (use False uv in simp_all)
    moreover have "(u + v) mod m = u + v - m" using False uv by (simp add: le_mod_geq)
    ultimately show ?thesis using d r False uv by (simp flip: u_def)
  qed
qed

lemma absorbed_high:
  "(if (of_nat (8 * (a + b)) :: u32) < of_nat (8 * a) then of_nat (8 * a div 2 ^ 32) + 1
     else of_nat (8 * a div 2 ^ 32)) + of_nat (b div 2 ^ 29) = (of_nat (8 * (a + b) div 2 ^ 32) :: u32)"
proof -
  have less: "(of_nat (8 * (a + b)) :: u32) < of_nat (8 * a) \<longleftrightarrow> (8 * a + 8 * b) mod 2 ^ 32 < 8 * a mod 2 ^ 32"
    by (simp only: word_less_nat_alt unsigned_of_nat take_bit_eq_mod distrib_left) simp
  have "8 * b div 2 ^ 32 = b div 2 ^ 29" using div_mult_mult1 [of 8 b "2 ^ 29"] by simp
  then have "8 * (a + b) div 2 ^ 32
      = (if (8 * a + 8 * b) mod 2 ^ 32 < 8 * a mod 2 ^ 32 then 8 * a div 2 ^ 32 + 1 else 8 * a div 2 ^ 32)
        + b div 2 ^ 29"
    using add_div_carry [of "2 ^ 32" "8 * a" "8 * b"] by (simp only: distrib_left) simp
  then show ?thesis unfolding less
    by (cases "(8 * a + 8 * b) mod 2 ^ 32 < 8 * a mod 2 ^ 32") (simp_all only: if_True if_False of_nat_add of_nat_1)
qed

section \<open>Update and final\<close>

lemma rfc_blocks_tail:
  "rfc_blocks st (m @ s) = rfc_blocks (rfc_blocks st m) (drop (length m - length m mod 64) m @ s)"
proof -
  let ?n = "length m - length m mod 64"
  have "?n = 64 * (length m div 64)" by (rule minus_mod_eq_mult_div)
  then have "?n mod 64 = 0" by (simp only: mod_mult_self1_is_0)
  moreover have "length (take ?n m) = ?n" by simp
  ultimately have n: "length (take ?n m) mod 64 = 0" by (simp only:)
  have "length (drop ?n m) = length m mod 64" by simp
  also have "\<dots> < 64" by simp
  finally have short: "length (drop ?n m) < 64" .
  have "rfc_blocks st (take ?n m @ drop ?n m) = rfc_blocks st (take ?n m)"
    by (simp only: rfc_blocks_append [OF n] rfc_blocks_short [OF short])
  then have m: "rfc_blocks st m = rfc_blocks st (take ?n m)" by simp
  have "rfc_blocks st (take ?n m @ (drop ?n m @ s)) = rfc_blocks (rfc_blocks st (take ?n m)) (drop ?n m @ s)"
    by (rule rfc_blocks_append [OF n])
  then show ?thesis by (simp only: append_assoc [symmetric] append_take_drop_id m)
qed

lemma md5_absorbed_append:
  assumes "md5_absorbed m ctx" and "t = take (length m mod 64) (md5_in ctx)"
    and "length (md5_in ctx') = 64"
    and "md5_bits ctx' = (of_nat (8 * (length m + length s)), of_nat (8 * (length m + length s) div 2 ^ 32))"
    and "md5_buf ctx' = rfc_blocks (md5_buf ctx) (t @ s)"
    and "take (length (t @ s) mod 64) (md5_in ctx') = drop (length (t @ s) - length (t @ s) mod 64) (t @ s)"
  shows "md5_absorbed (m @ s) ctx'"
proof -
  let ?n = "length m - length m mod 64"
  have t: "t = drop ?n m" using assms(1,2) by (simp add: md5_absorbed_def)
  have lt: "length t = length m mod 64" by (simp add: t)
  have m1: "(length m mod 64 + length s) mod 64 = (length m + length s) mod 64" by (simp add: mod_add_left_eq)
  have "drop (?n + (length (t @ s) - length (t @ s) mod 64)) (take ?n m @ (t @ s))
      = drop (length (t @ s) - length (t @ s) mod 64) (t @ s)"
    by (simp only: drop_append) simp
  moreover have "take ?n m @ (t @ s) = m @ s" by (simp add: t)
  moreover have "?n + (length (t @ s) - length (t @ s) mod 64) = length (m @ s) - length (m @ s) mod 64"
    using mod_less_eq_dividend [of "length m" 64] mod_less_eq_dividend [of "length m mod 64 + length s" 64]
    by (simp add: lt m1)
  ultimately have "take (length (m @ s) mod 64) (md5_in ctx') = drop (length (m @ s) - length (m @ s) mod 64) (m @ s)"
    using assms(6) by (simp add: lt m1)
  then show ?thesis using assms(1,3,4,5)
    by (simp add: md5_absorbed_def rfc_blocks_tail [of _ m s] t)
qed

lemma md5_init_absorbed: "length (md5_in ctx) = 64 \<Longrightarrow> md5_absorbed [] (gdm_md5_init ctx)"
  by (simp add: md5_absorbed_def gdm_md5_init_def)

lemma md5_update_absorbed:
  assumes "md5_absorbed m ctx" and "length s < 2 ^ 32"
  shows "md5_absorbed (m @ s) (gdm_md5_update ctx s (length s))"
proof -
  let ?k = "length m mod 64" and ?len = "length s"
  define t where "t = take ?k (md5_in ctx)"
  have inv: "length (md5_in ctx) = 64" "md5_bits ctx = (of_nat (8 * length m), of_nat (8 * length m div 2 ^ 32))"
    using assms(1) by (simp_all only: md5_absorbed_def)
  have lt: "length t = ?k" using inv by (simp add: t_def min_def) 
  have len: "take_bit 32 ?len = ?len" using assms(2) by (simp add: take_bit_nat_eq_self_iff)
  define bits where "bits = (of_nat (8 * (length m + ?len)) :: u32, of_nat (8 * (length m + ?len) div 2 ^ 32) :: u32)"
  define c1 where "c1 = ctx\<lparr>md5_bits := bits\<rparr>"
  have k: "?k < 64" by simp
  have upd: "gdm_md5_update ctx s ?len =
    (if ?k \<noteq> 0 then
       (if ?len < 64 - ?k then c1\<lparr>md5_in := bytes_put (md5_in ctx) ?k s\<rparr>
        else md5_blocks (c1\<lparr>md5_in := bytes_put (md5_in ctx) ?k (take (64 - ?k) s),
               md5_buf := gdm_md5_transform (md5_buf ctx) (le_words (bytes_put (md5_in ctx) ?k (take (64 - ?k) s)))\<rparr>) (drop (64 - ?k) s))
     else md5_blocks c1 s)"
    unfolding gdm_md5_update_def Let_def len inv(2) fst_conv snd_conv absorbed_count absorbed_low 
        drop_bit_eq_div [of 29 ?len] absorbed_high c1_def bits_def take_all_iff [THEN iffD2, OF order_refl]
    by (simp del: of_nat_add of_nat_mult split del: if_split cong: if_cong)
  have c1: "length (md5_in c1) = 64" "md5_bits c1 = bits" "md5_buf c1 = md5_buf ctx" "md5_in c1 = md5_in ctx"
    by (simp_all add: c1_def inv)
  show ?thesis
  proof (rule md5_absorbed_append [OF assms(1) t_def])
    consider (first) "?k = 0" | (small) "?k \<noteq> 0" "?len < 64 - ?k" | (big) "?k \<noteq> 0" "\<not> ?len < 64 - ?k" by blast
    then have "length (md5_in (gdm_md5_update ctx s ?len)) = 64 \<and> md5_bits (gdm_md5_update ctx s ?len) = bits \<and>
      md5_buf (gdm_md5_update ctx s ?len) = rfc_blocks (md5_buf ctx) (t @ s) \<and>
      take (length (t @ s) mod 64) (md5_in (gdm_md5_update ctx s ?len))
        = drop (length (t @ s) - length (t @ s) mod 64) (t @ s)"
    proof cases
      case first
      then have "t = []" by (simp add: t_def)
      then show ?thesis using first c1 md5_blocks_in [of c1 s] by (simp add: upd md5_blocks_buf)
    next
      case small
      then show ?thesis using k inv c1 take_bytes_put [of ?k s "md5_in ctx"]
        by (simp add: upd lt t_def)
    next
      case big
      define blk where "blk = t @ take (64 - ?k) s"
      have lb: "length blk = 64" using big k by (simp add: blk_def lt)
      define r where "r = drop (64 - ?k) s"
      have ts: "t @ s = blk @ r" by (simp add: blk_def r_def)
      have n: "length (blk @ r) mod 64 = length r mod 64"
        and "length (blk @ r) - length r mod 64 = 64 + (length r - length r mod 64)"
        using mod_less_eq_dividend [of "length r" 64] by (simp_all add: lb)
      then have d: "drop (length (blk @ r) - length (blk @ r) mod 64) (blk @ r) = drop (length r - length r mod 64) r"
        by (simp only: drop_append) (simp add: lb)
      define c2 where "c2 = c1\<lparr>md5_in := blk, md5_buf := rfc_block (md5_buf ctx) blk\<rparr>"
      have c2: "length (md5_in c2) = 64" "md5_bits c2 = bits" "md5_buf c2 = rfc_block (md5_buf ctx) blk"
        by (simp_all add: c2_def c1 lb)
      have "bytes_put (md5_in ctx) ?k (take (64 - ?k) s) = blk"
        using big k by (simp add: blk_def t_def bytes_put_fill inv)
      then have "gdm_md5_update ctx s ?len = md5_blocks c2 r"
        using big by (simp add: upd transform_rfc c2_def r_def)
      then show ?thesis
        using md5_blocks_in [OF c2(1), of r] md5_blocks_buf [OF c2(1), of r]
        by (simp only: ts d n md5_blocks_bits c2) (simp add: rfc_blocks_long [of "blk @ r"] lb)
    qed
    then show "length (md5_in (gdm_md5_update ctx s ?len)) = 64"
      and "md5_bits (gdm_md5_update ctx s ?len) =
        (of_nat (8 * (length m + ?len)), of_nat (8 * (length m + ?len) div 2 ^ 32))"
      and "md5_buf (gdm_md5_update ctx s ?len) = rfc_blocks (md5_buf ctx) (t @ s)"
      and "take (length (t @ s) mod 64) (md5_in (gdm_md5_update ctx s ?len))
        = drop (length (t @ s) - length (t @ s) mod 64) (t @ s)"
      unfolding bits_def by blast+
  qed
qed

section \<open>Final and the digest\<close>

lemma length_le_bytes [simp]: "length (le_bytes w) = 4"
  by (simp add: le_bytes_def)

lemma pad_zeros:
  "nat ((55 - int n) mod 64) = (if n mod 64 \<le> 55 then 55 - n mod 64 else 119 - n mod 64)"
proof -
  have "(55 - int n) mod 64 = (55 - int (n mod 64)) mod 64" by (simp add: zmod_int mod_diff_right_eq)
  also have "\<dots> = (if n mod 64 \<le> 55 then 55 - int (n mod 64) else 119 - int (n mod 64))"
    using mod_less_divisor [of 64 n] by (auto simp: mod_pos_pos_trivial intro: int_mod_pos_eq [where q = "-1"])
  finally show ?thesis by (simp add: nat_diff_distrib')
qed

lemma put_length_words:
  assumes "length i = 64"
  shows "bytes_put (bytes_put i 56 (le_bytes lo)) 60 (le_bytes hi) = take 56 i @ le_bytes lo @ le_bytes hi"
  using assms by (simp add: bytes_put_def)

lemma md5_final_digest:
  assumes "md5_absorbed m ctx"
  shows "fst (gdm_md5_final ctx) = rfc1321 m"
proof -
  let ?k = "length m mod 64"
  define t where "t = take ?k (md5_in ctx)"
  have inv: "length (md5_in ctx) = 64" "md5_bits ctx = (of_nat (8 * length m), of_nat (8 * length m div 2 ^ 32))"
    "md5_buf ctx = rfc_blocks (0x67452301, 0xefcdab89, 0x98badcfe, 0x10325476) m"
    "t = drop (length m - ?k) m"
    using assms by (simp_all only: md5_absorbed_def t_def)
  have k: "?k < 64" by simp
  have lt: "length t = ?k" using inv by (simp add: t_def min_def)
  define lo hi where "lo = le_bytes (fst (md5_bits ctx))" and "hi = le_bytes (snd (md5_bits ctx))"
  have lo_hi: "le_bytes (of_nat (8 * length m)) = lo" "le_bytes (of_nat (length m div 536870912)) = hi"
    by (simp_all add: lo_def hi_def inv(2) del: of_nat_mult)
  have l4: "length lo = 4" "length hi = 4" by (simp_all add: lo_def hi_def)
  have pad: "rfc_blocks (0x67452301, 0xefcdab89, 0x98badcfe, 0x10325476) (rfc_pad m)
    = rfc_blocks (md5_buf ctx) (t @ 0x80 # replicate (nat ((55 - int (length m)) mod 64)) 0 @ lo @ hi)"
    unfolding rfc_pad_def rfc_blocks_tail [of _ m] inv(3) inv(4) lo_def hi_def inv(2) by simp
  define i1 where "i1 = t @ 0x80 # drop (Suc ?k) (md5_in ctx)"
  have i1: "bytes_put (md5_in ctx) ?k [0x80] = i1" "length i1 = 64" "take (Suc ?k) i1 = t @ [0x80]"
    using inv(1) lt k by (simp_all add: i1_def bytes_put_def t_def)
  show ?thesis
  proof (cases "?k \<le> 55")
    case True
    then have z: "nat ((55 - int (length m)) mod 64) = 55 - ?k" by (simp add: pad_zeros)
    have "take 56 (bytes_put i1 (Suc ?k) (replicate (55 - ?k) 0)) = t @ 0x80 # replicate (55 - ?k) 0"
      using take_bytes_put [of "Suc ?k" "replicate (55 - ?k) 0" i1] True i1 by simp
    moreover have "length (bytes_put i1 (Suc ?k) (replicate (55 - ?k) 0)) = 64" using True i1 by simp
    ultimately have "rfc_block (md5_buf ctx) (bytes_put (bytes_put (bytes_put i1 (Suc ?k) (replicate (55 - ?k) 0)) 56 lo) 60 hi)
       = rfc_blocks (md5_buf ctx) (t @ 0x80 # replicate (55 - ?k) 0 @ lo @ hi)"
      using True l4 lt unfolding lo_def hi_def by (simp add: put_length_words rfc_blocks_long)
    moreover obtain a b c d where "rfc_blocks (md5_buf ctx) (t @ 0x80 # replicate (55 - ?k) 0 @ lo @ hi) = (a, b, c, d)"
      by (rule prod_cases4)
    moreover have "\<not> 63 - ?k < 8" "63 - ?k - 8 = 55 - ?k" using True by auto
    ultimately show ?thesis
      unfolding rfc1321_def pad z
      by (simp add: gdm_md5_final_def Let_def inv(2) absorbed_count transform_rfc i1 lo_hi del: of_nat_mult of_nat_add)
  next
    case False
    then have z: "nat ((55 - int (length m)) mod 64) = (63 - ?k) + 56" using k by (simp add: pad_zeros)
    define F where "F = t @ 0x80 # replicate (63 - ?k) (0 :: u8)"
    have full: "bytes_put i1 (Suc ?k) (replicate (63 - ?k) 0) = F"
      using k i1 by (simp add: bytes_put_fill F_def)
    have l: "length F = 64" using k lt by (simp add: F_def)
    have F: "t @ 0x80 # replicate (63 - ?k + 56) 0 @ lo @ hi = F @ replicate 56 0 @ lo @ hi"
      by (simp only: F_def replicate_add append_assoc append_Cons)
    have "take 56 (bytes_put F 0 (replicate 56 0)) = replicate 56 (0 :: u8)"
      using take_bytes_put [of 0 "replicate 56 0" F] l by simp
    moreover have "length (bytes_put F 0 (replicate 56 (0 :: u8))) = 64" using l by simp
    ultimately have "rfc_block (rfc_block (md5_buf ctx) F)
        (bytes_put (bytes_put (bytes_put F 0 (replicate 56 0)) 56 lo) 60 hi)
       = rfc_blocks (md5_buf ctx) (F @ replicate 56 0 @ lo @ hi)"
      using l unfolding lo_def hi_def by (simp add: put_length_words rfc_blocks_long)
    moreover obtain a b c d where "rfc_blocks (md5_buf ctx) (F @ replicate 56 0 @ lo @ hi) = (a, b, c, d)"
      by (rule prod_cases4)
    moreover have "63 - ?k < 8" using False by auto
    ultimately show ?thesis
      unfolding rfc1321_def pad z F
      by (simp add: gdm_md5_final_def Let_def inv(2) absorbed_count transform_rfc i1 full lo_hi
          del: of_nat_mult of_nat_add)
  qed
qed

text \<open>
  C12. For strings shorter than 4 GiB, and whatever the uninitialised context on the stack holds, the
  digest that \<^verbatim>\<open>libsieve_makehash\<close> computes with the streaming interface is the MD5 of RFC 1321 of
  the concatenation of its two arguments.
\<close>
theorem makehash_digest_is_md5:
  assumes "length (md5_in ctx) = 64" and "length s1 < 2 ^ 32" and "length s2 < 2 ^ 32"
  shows "makehash_digest ctx s1 s2 = rfc1321 (bytes_of (s1 @ s2))"
proof -
  have "md5_absorbed (bytes_of s1) (gdm_md5_update (gdm_md5_init ctx) (bytes_of s1) (length s1))"
    using md5_update_absorbed [OF md5_init_absorbed [OF assms(1)], of "bytes_of s1"] assms(2)
    by (simp add: bytes_of_def)
  from md5_update_absorbed [OF this, of "bytes_of s2"]
  show ?thesis using assms(3) by (simp add: makehash_digest_def Let_def md5_final_digest bytes_of_def)
qed

lemma length_makehash_digest: "length (makehash_digest ctx s1 s2) = 16"
  by (simp add: makehash_digest_def gdm_md5_final_def Let_def split: prod.splits)

lemma length_hex_string: "length (hex_string bs) = 2 * length bs"
  by (induction bs) (simp_all add: hex_string_def)

text \<open>
  C40. Whenever the allocation succeeds, \<^verbatim>\<open>libsieve_makehash\<close> is undefined: the 32 digits and their
  NUL fill the block of 33 bytes, and the last statement stores at index 33. When it fails, NULL
  is returned.
\<close>
theorem makehash_writes_past_its_block:
  "libsieve_makehash True ctx s1 s2 = None \<and> libsieve_makehash False ctx s1 s2 = Some None \<and>
   blk_write (replicate 33 None) 0 (hex_string (makehash_digest ctx s1 s2) @ [CHR 0x00])
     = Some (map Some (hex_string (makehash_digest ctx s1 s2) @ [CHR 0x00]))"
  by (simp add: libsieve_makehash_def Let_def blk_write_def length_hex_string length_makehash_digest)

lemma makehash_digest_is_md5_witness:
  "makehash_digest \<lparr>md5_buf = (0, 0, 0, 0), md5_bits = (0, 0), md5_in = replicate 64 0\<rparr> ''a'' ''bc''
     = rfc1321 (bytes_of ''abc'')"
  using makehash_digest_is_md5 [of "\<lparr>md5_buf = (0, 0, 0, 0), md5_bits = (0, 0), md5_in = replicate 64 0\<rparr>" "''a''" "''bc''"]
  by simp

end
