(* ===== verification/Node_Set.thy ===== *)
theory Node_Set
  imports Prelude
begin

text \<open>
  The sets of node numbers of the regular expression engine, \<^verbatim>\<open>re_node_set\<close> in
  \<^verbatim>\<open>src/sv_regex/regex_internal.c\<close>: an allocated block of integers of which the first
  \<^verbatim>\<open>nelem\<close> are the elements, in ascending order. Each operation takes the outcomes of its allocations; \<open>None\<close> is
  an access outside a block, to a cell that was never written, or through \<^verbatim>\<open>NULL\<close>. Sizes are far
  below the range of \<^verbatim>\<open>int\<close>, since a set holds node numbers of one compiled expression.
\<close>

section \<open>Blocks of cells\<close>

type_synonym 'a cells = "'a option list"

definition cells_read :: "'a cells \<Rightarrow> nat \<Rightarrow> 'a option" where
  "cells_read b i = (if i < length b then b ! i else None)"

definition cells_write :: "'a cells \<Rightarrow> nat \<Rightarrow> 'a \<Rightarrow> 'a cells option" where
  "cells_write b i v = (if i < length b then Some (b[i := Some v]) else None)"

text \<open>\<^verbatim>\<open>memcpy(dst + i, src + j, n)\<close> and \<^verbatim>\<open>memmove\<close>, the latter with one block twice.\<close>

definition cells_copy :: "'a cells \<Rightarrow> nat \<Rightarrow> 'a cells \<Rightarrow> nat \<Rightarrow> nat \<Rightarrow> 'a cells option" where
  "cells_copy dst i src j n =
     (if i + n \<le> length dst \<and> j + n \<le> length src
      then Some (take i dst @ take n (drop j src) @ drop (i + n) dst) else None)"

definition cells_realloc :: "'a cells option \<Rightarrow> nat \<Rightarrow> 'a cells" where
  "cells_realloc b n = (let b = (case b of None \<Rightarrow> [] | Some b \<Rightarrow> b) in take n b @ replicate (n - length b) None)"

text \<open>A block whose first cells hold the numbers of a list.\<close>

definition holds :: "'a cells \<Rightarrow> 'a list \<Rightarrow> bool" where
  "holds b xs \<longleftrightarrow> take (length xs) b = map Some xs"

lemma holds_length: "holds b xs \<Longrightarrow> length xs \<le> length b"
  by (metis holds_def length_map length_take min.absorb_iff2 min.commute)

lemma holds_read: "holds b xs \<Longrightarrow> i < length xs \<Longrightarrow> cells_read b i = Some (xs ! i)"
  using holds_length [of b xs] by (auto simp: holds_def cells_read_def dest: arg_cong [of _ _ "\<lambda>l. l ! i"])

lemma holds_Nil [simp]: "holds b []"
  by (simp add: holds_def)

lemma holds_eq: "holds b xs \<Longrightarrow> b = map Some xs @ drop (length xs) b"
  by (metis holds_def append_take_drop_id)

lemma holds_append: "holds (map Some xs @ r) xs"
  by (simp add: holds_def)

text \<open>Making room in front of index \<open>i\<close> and writing there.\<close>

lemma insert_cell:
  assumes "holds b xs" and "length xs < length b" and "i \<le> length xs"
  obtains b1 b2 where "cells_copy b (i + 1) b i (length xs - i) = Some b1" and "cells_write b1 i v = Some b2"
    and "holds b2 (take i xs @ v # drop i xs)" and "length b2 = length b"
proof -
  obtain y r where b: "b = map Some xs @ y # r"
    using holds_eq [OF assms(1)] assms(2) by (metis Cons_nth_drop_Suc)
  obtain us ws where xs: "xs = us @ ws" "length us = i"
    using assms(3) by (metis append_take_drop_id length_take min.absorb2)
  obtain z zs where z: "map Some ws @ [y] = z # zs" by (cases "map Some ws @ [y]") auto
  let ?b1 = "map Some us @ z # map Some ws @ r"
  have bz: "b = map Some us @ z # zs @ r" using z by (simp add: b xs flip: append_assoc) (metis append_Cons append_assoc z)
  have zs: "length zs = length ws" using arg_cong [OF z, of length] by simp
  have "cells_copy b (i + 1) b i (length xs - i) = Some ?b1"
  proof -
    have "take (i + 1) b = map Some us @ [z]" using xs(2) by (simp add: bz)
    moreover have "take (length ws) (drop i b) = map Some ws" using xs by (simp add: b)
    moreover have "drop (i + 1 + length ws) b = r" using xs by (simp add: b)
    ultimately show ?thesis using xs assms(2) by (simp add: cells_copy_def)
  qed
  moreover have "cells_write ?b1 i v = Some (map Some us @ Some v # map Some ws @ r)"
    using xs by (simp add: cells_write_def list_update_append)
  moreover have "holds (map Some us @ Some v # map Some ws @ r) (take i xs @ v # drop i xs)"
    using xs holds_append [of "us @ v # ws" r] by simp
  ultimately show ?thesis by (rule that) (use zs in \<open>simp add: bz\<close>)
qed

section \<open>Sets of nodes\<close>

record re_node_set =
  ns_alloc :: nat
  ns_nelem :: nat
  ns_elems :: "int cells option"

definition REG_NOERROR :: int where "REG_NOERROR = 0"
definition REG_ESPACE :: int where "REG_ESPACE = 12"

definition re_node_set_init_empty :: re_node_set where
  "re_node_set_init_empty = \<lparr>ns_alloc = 0, ns_nelem = 0, ns_elems = None\<rparr>"

definition re_node_set_alloc :: "bool \<Rightarrow> nat \<Rightarrow> int \<times> re_node_set" where
  "re_node_set_alloc ok n =
     (if ok then (REG_NOERROR, \<lparr>ns_alloc = n, ns_nelem = 0, ns_elems = Some (replicate n None)\<rparr>)
      else (REG_ESPACE, \<lparr>ns_alloc = n, ns_nelem = 0, ns_elems = None\<rparr>))"

definition re_node_set_init_1 :: "bool \<Rightarrow> int \<Rightarrow> int \<times> re_node_set" where
  "re_node_set_init_1 ok e =
     (if ok then (REG_NOERROR, \<lparr>ns_alloc = 1, ns_nelem = 1, ns_elems = Some [Some e]\<rparr>)
      else (REG_ESPACE, re_node_set_init_empty))"

text \<open>Without memory the field \<^verbatim>\<open>nelem\<close> of the set given stays as it is.\<close>

definition re_node_set_init_2 :: "bool \<Rightarrow> re_node_set \<Rightarrow> int \<Rightarrow> int \<Rightarrow> int \<times> re_node_set" where
  "re_node_set_init_2 ok s e1 e2 =
     (if \<not> ok then (REG_ESPACE, s\<lparr>ns_alloc := 2, ns_elems := None\<rparr>)
      else (REG_NOERROR,
        (if e1 = e2 then \<lparr>ns_alloc = 2, ns_nelem = 1, ns_elems = Some [Some e1, None]\<rparr>
         else if e1 < e2 then \<lparr>ns_alloc = 2, ns_nelem = 2, ns_elems = Some [Some e1, Some e2]\<rparr>
         else \<lparr>ns_alloc = 2, ns_nelem = 2, ns_elems = Some [Some e2, Some e1]\<rparr>)))"

definition re_node_set_init_copy :: "bool \<Rightarrow> re_node_set \<Rightarrow> (int \<times> re_node_set) option" where
  "re_node_set_init_copy ok src =
     (if ns_nelem src > 0
      then (if \<not> ok then Some (REG_ESPACE, re_node_set_init_empty)
            else do {
              e \<leftarrow> ns_elems src;
              b \<leftarrow> cells_copy (replicate (ns_nelem src) None) 0 e 0 (ns_nelem src);
              Some (REG_NOERROR, \<lparr>ns_alloc = ns_nelem src, ns_nelem = ns_nelem src, ns_elems = Some b\<rparr>)
            })
      else Some (REG_NOERROR, re_node_set_init_empty))"

text \<open>The binary search that \<^verbatim>\<open>insert\<close>, \<^verbatim>\<open>merge\<close> and \<^verbatim>\<open>contains\<close> write out.\<close>

function bsearch :: "int cells \<Rightarrow> int \<Rightarrow> nat \<Rightarrow> nat \<Rightarrow> nat option" where
  "bsearch b v idx right =
     (if idx < right
      then do {
        x \<leftarrow> cells_read b ((idx + right) div 2);
        (if x < v then bsearch b v ((idx + right) div 2 + 1) right else bsearch b v idx ((idx + right) div 2))
      }
      else Some idx)"
  by pat_completeness auto
termination by (relation "measure (\<lambda>(b, v, idx, right). right - idx)") auto

declare bsearch.simps [simp del]

definition re_node_set_contains :: "re_node_set \<Rightarrow> int \<Rightarrow> nat option" where
  "re_node_set_contains s e =
     (if ns_nelem s = 0 then Some 0
      else do {
        b \<leftarrow> ns_elems s;
        idx \<leftarrow> bsearch b e 0 (ns_nelem s - 1);
        x \<leftarrow> cells_read b idx;
        Some (if x = e then idx + 1 else 0)
      })"

definition re_node_set_insert :: "bool \<Rightarrow> re_node_set \<Rightarrow> int \<Rightarrow> (int \<times> re_node_set) option" where
  "re_node_set_insert ok s e =
     (case (if ns_alloc s = 0 then None else ns_elems s) of
        None \<Rightarrow> (let (err, s) = re_node_set_init_1 ok e in Some (if err = REG_NOERROR then 1 else - 1, s))
      | Some b \<Rightarrow>
          do {
            idx \<leftarrow> bsearch b e 0 (ns_nelem s);
            (if ns_alloc s < ns_nelem s + 1
             then (if \<not> ok then Some (- 1, s\<lparr>ns_alloc := ns_alloc s * 2\<rparr>)
                   else do {
                     n \<leftarrow> cells_copy (replicate (ns_alloc s * 2) None) 0 b 0 idx;
                     n \<leftarrow> cells_copy n (idx + 1) b idx (ns_nelem s - idx);
                     n \<leftarrow> cells_write n idx e;
                     Some (1, \<lparr>ns_alloc = ns_alloc s * 2, ns_nelem = ns_nelem s + 1, ns_elems = Some n\<rparr>)
                   })
             else do {
               b \<leftarrow> cells_copy b (idx + 1) b idx (ns_nelem s - idx);
               b \<leftarrow> cells_write b idx e;
               Some (1, s\<lparr>ns_nelem := ns_nelem s + 1, ns_elems := Some b\<rparr>)
             })
          })"

fun compare_loop :: "int cells \<Rightarrow> int cells \<Rightarrow> nat \<Rightarrow> nat \<Rightarrow> bool option" where
  "compare_loop b1 b2 i 0 = Some True"
| "compare_loop b1 b2 i (Suc n) =
     do {
       x \<leftarrow> cells_read b1 i;
       y \<leftarrow> cells_read b2 i;
       (if x \<noteq> y then Some False else compare_loop b1 b2 (i + 1) n)
     }"

definition re_node_set_compare :: "re_node_set option \<Rightarrow> re_node_set option \<Rightarrow> bool option" where
  "re_node_set_compare set1 set2 =
     (case (set1, set2) of
        (Some s1, Some s2) \<Rightarrow>
          (if ns_nelem s1 \<noteq> ns_nelem s2 then Some False
           else if ns_nelem s1 = 0 then Some True
           else do { b1 \<leftarrow> ns_elems s1; b2 \<leftarrow> ns_elems s2; compare_loop b1 b2 0 (ns_nelem s1) })
      | _ \<Rightarrow> Some False)"

definition re_node_set_remove_at :: "re_node_set \<Rightarrow> int \<Rightarrow> re_node_set option" where
  "re_node_set_remove_at s idx =
     (if idx < 0 \<or> int (ns_nelem s) \<le> idx then Some s
      else if nat idx < ns_nelem s - 1
      then do {
        b \<leftarrow> ns_elems s;
        b \<leftarrow> cells_copy b (nat idx) b (nat idx + 1) (ns_nelem s - nat idx - 1);
        Some (s\<lparr>ns_nelem := ns_nelem s - 1, ns_elems := Some b\<rparr>)
      }
      else Some (s\<lparr>ns_nelem := ns_nelem s - 1\<rparr>))"

definition re_node_set_remove :: "re_node_set \<Rightarrow> int \<Rightarrow> re_node_set option" where
  "re_node_set_remove s e = do { k \<leftarrow> re_node_set_contains s e; re_node_set_remove_at s (int k - 1) }"

section \<open>Union, merge and intersection\<close>

text \<open>The main loop of a union; it leaves the block, its next index and the two source indices.\<close>

function union_loop ::
  "int cells \<Rightarrow> nat \<Rightarrow> int cells \<Rightarrow> nat \<Rightarrow> int cells \<Rightarrow> nat \<Rightarrow> nat \<Rightarrow> nat \<Rightarrow> (int cells \<times> nat \<times> nat \<times> nat) option" where
  "union_loop e1 n1 e2 n2 d i1 i2 j =
     (if i1 < n1 \<and> i2 < n2
      then do {
        x \<leftarrow> cells_read e1 i1;
        y \<leftarrow> cells_read e2 i2;
        (if y < x then do { d \<leftarrow> cells_write d j y; union_loop e1 n1 e2 n2 d i1 (i2 + 1) (j + 1) }
         else do { d \<leftarrow> cells_write d j x; union_loop e1 n1 e2 n2 d (i1 + 1) (if x = y then i2 + 1 else i2) (j + 1) })
      }
      else Some (d, i1, i2, j))"
  by pat_completeness auto
termination by (relation "measure (\<lambda>(e1, n1, e2, n2, d, i1, i2, j). (n1 - i1) + (n2 - i2))") auto

declare union_loop.simps [simp del]

definition union_sets :: "bool \<Rightarrow> re_node_set \<Rightarrow> re_node_set \<Rightarrow> re_node_set \<Rightarrow> (int \<times> re_node_set) option" where
  "union_sets ok dest s1 s2 =
     (let n1 = ns_nelem s1; n2 = ns_nelem s2
      in if \<not> ok then Some (REG_ESPACE, dest\<lparr>ns_alloc := n1 + n2, ns_elems := None\<rparr>)
         else do {
           e1 \<leftarrow> ns_elems s1;
           e2 \<leftarrow> ns_elems s2;
           (d, i1, i2, j) \<leftarrow> union_loop e1 n1 e2 n2 (replicate (n1 + n2) None) 0 0 0;
           (d, j) \<leftarrow>
             (if i1 < n1 then do { d \<leftarrow> cells_copy d j e1 i1 (n1 - i1); Some (d, j + (n1 - i1)) }
              else if i2 < n2 then do { d \<leftarrow> cells_copy d j e2 i2 (n2 - i2); Some (d, j + (n2 - i2)) }
              else Some (d, j));
           Some (REG_NOERROR, \<lparr>ns_alloc = n1 + n2, ns_nelem = j, ns_elems = Some d\<rparr>)
         })"

definition some_elems :: "re_node_set option \<Rightarrow> bool" where
  "some_elems src = (case src of None \<Rightarrow> False | Some s \<Rightarrow> ns_nelem s > 0)"

definition re_node_set_init_union ::
  "bool \<Rightarrow> re_node_set \<Rightarrow> re_node_set option \<Rightarrow> re_node_set option \<Rightarrow> (int \<times> re_node_set) option" where
  "re_node_set_init_union ok dest src1 src2 =
     (if some_elems src1 \<and> some_elems src2 then union_sets ok dest (the src1) (the src2)
      else if some_elems src1 then re_node_set_init_copy ok (the src1)
      else if some_elems src2 then re_node_set_init_copy ok (the src2)
      else Some (REG_NOERROR, re_node_set_init_empty))"

text \<open>The run of source elements below \<open>x\<close>.\<close>

function run_end :: "int cells \<Rightarrow> nat \<Rightarrow> int \<Rightarrow> nat \<Rightarrow> nat option" where
  "run_end e n x si =
     (if si < n then do { y \<leftarrow> cells_read e si; (if y < x then run_end e n x (si + 1) else Some si) } else Some si)"
  by pat_completeness auto
termination by (relation "measure (\<lambda>(e, n, x, si). n - si)") auto

declare run_end.simps [simp del]

lemma bsearch_le: "bsearch b v idx right = Some k \<Longrightarrow> idx \<le> right \<Longrightarrow> idx \<le> k \<and> k \<le> right"
proof (induction b v idx right rule: bsearch.induct)
  case (1 b v idx right)
  show ?case
  proof (cases "idx < right")
    case True
    then obtain y where y: "cells_read b ((idx + right) div 2) = Some y"
      using "1.prems"(1) by (subst (asm) bsearch.simps) (auto simp: bind_eq_Some_conv)
    have mid: "idx \<le> (idx + right) div 2" "(idx + right) div 2 < right" using True by auto
    show ?thesis
    proof (cases "y < v")
      case True
      then have "bsearch b v ((idx + right) div 2 + 1) right = Some k"
        using "1.prems"(1) \<open>idx < right\<close> y by (subst (asm) bsearch.simps) simp
      then show ?thesis using "1.IH"(1) [OF \<open>idx < right\<close> y True] mid by simp
    next
      case False
      then have "bsearch b v idx ((idx + right) div 2) = Some k"
        using "1.prems"(1) \<open>idx < right\<close> y by (subst (asm) bsearch.simps) simp
      then show ?thesis using "1.IH"(2) [OF \<open>idx < right\<close> y False] mid by simp
    qed
  next
    case False
    then show ?thesis using "1.prems" by (subst (asm) bsearch.simps) simp
  qed
qed

lemma bsearch_not_less: "bsearch b v idx right = Some k \<Longrightarrow> k < right \<Longrightarrow> cells_read b k = Some x \<Longrightarrow> \<not> x < v"
proof (induction b v idx right rule: bsearch.induct)
  case (1 b v idx right)
  show ?case
  proof (cases "idx < right")
    case True
    then obtain y where y: "cells_read b ((idx + right) div 2) = Some y"
      using "1.prems"(1) by (subst (asm) bsearch.simps) (auto simp: bind_eq_Some_conv)
    have run: "bsearch b v idx right = (if y < v then bsearch b v ((idx + right) div 2 + 1) right else bsearch b v idx ((idx + right) div 2))"
      using True y by (subst bsearch.simps) simp
    show ?thesis
    proof (cases "y < v")
      case True
      then show ?thesis using "1.IH"(1) [OF \<open>idx < right\<close> y] "1.prems" run by simp
    next
      case False
      show ?thesis
      proof (cases "k < (idx + right) div 2")
        case True
        then show ?thesis using "1.IH"(2) [OF \<open>idx < right\<close> y] False "1.prems" run by simp
      next
        case ge: False
        have "k \<le> (idx + right) div 2" using "1.prems"(1) False run True bsearch_le by simp
        then show ?thesis using ge y "1.prems"(3) False by simp
      qed
    qed
  next
    case False
    then show ?thesis using "1.prems"(1,2) by (subst (asm) bsearch.simps) simp
  qed
qed

lemma run_end_first: "run_end e n x si = Some k \<Longrightarrow> si < n \<Longrightarrow> cells_read e si = Some y \<Longrightarrow> y < x \<Longrightarrow> si < k"
proof (induction e n x si arbitrary: y rule: run_end.induct)
  case (1 e n x si)
  then have k: "run_end e n x (si + 1) = Some k" by (subst (asm) run_end.simps) simp
  show ?case
  proof (cases "si + 1 < n")
    case True
    then obtain z where z: "cells_read e (si + 1) = Some z" using k by (subst (asm) run_end.simps) (auto simp: bind_eq_Some_conv)
    show ?thesis
    proof (cases "z < x")
      case True
      then show ?thesis using "1.IH" [OF "1.prems"(2,3,4) k \<open>si + 1 < n\<close> z True] by simp
    next
      case False
      then show ?thesis using k z \<open>si + 1 < n\<close> by (subst (asm) run_end.simps) simp
    qed
  next
    case False
    then show ?thesis using k by (subst (asm) run_end.simps) simp
  qed
qed

text \<open>
  The main loop of a merge. It ends when the source or the destination is used up, since the search
  never stops in front of a smaller element.
\<close>

function merge_loop ::
  "int cells \<Rightarrow> nat \<Rightarrow> int cells \<Rightarrow> nat \<Rightarrow> nat \<Rightarrow> nat \<Rightarrow> (int cells \<times> nat \<times> nat \<times> nat) option" where
  "merge_loop e n d nd si di =
     (if si < n \<and> di < nd
      then do {
        src_elem \<leftarrow> cells_read e si;
        di \<leftarrow> bsearch d src_elem di nd;
        (if nd \<le> di then Some (d, nd, si, di)
         else do {
           x \<leftarrow> cells_read d di;
           (if x = src_elem then merge_loop e n d nd (si + 1) (di + 1)
            else do {
              k \<leftarrow> run_end e n x si;
              d \<leftarrow> cells_copy d (di + (k - si)) d di (nd - di);
              d \<leftarrow> cells_copy d di e si (k - si);
              merge_loop e n d (nd + (k - si)) k (di + (k - si))
            })
         })
      }
      else Some (d, nd, si, di))"
  by pat_completeness auto
termination
proof (relation "measure (\<lambda>(e, n, d, nd, si, di). n - si)")
  fix e n d nd si di src_elem di' x k d1 d2
  assume "si < n \<and> di < nd" "cells_read e si = Some src_elem" "bsearch d src_elem di nd = Some di'"
    "\<not> nd \<le> di'" "cells_read d di' = Some x" "x \<noteq> src_elem" "run_end e n x si = Some k"
  then show "((e, n, d2, nd + (k - si), k, di' + (k - si)), e, n, d, nd, si, di) \<in> measure (\<lambda>(e, n, d, nd, si, di). n - si)"
    using bsearch_not_less [of d src_elem di nd di' x] run_end_first [of e n x si k src_elem] by auto
qed auto

declare merge_loop.simps [simp del]

definition re_node_set_merge :: "bool \<Rightarrow> re_node_set \<Rightarrow> re_node_set option \<Rightarrow> (int \<times> re_node_set) option" where
  "re_node_set_merge ok dest src =
     (case src of
        None \<Rightarrow> Some (REG_NOERROR, dest)
      | Some src \<Rightarrow>
          (if ns_nelem src = 0 then Some (REG_NOERROR, dest)
           else
             (let grow = ns_alloc dest < ns_nelem src + ns_nelem dest;
                  alloc = (if grow then 2 * (ns_nelem src + ns_alloc dest) else ns_alloc dest)
              in if grow \<and> \<not> ok then Some (REG_ESPACE, dest\<lparr>ns_alloc := alloc\<rparr>)
                 else do {
                   d \<leftarrow> (if grow then Some (cells_realloc (ns_elems dest) alloc) else ns_elems dest);
                   e \<leftarrow> ns_elems src;
                   (d, nd, si, di) \<leftarrow> merge_loop e (ns_nelem src) d (ns_nelem dest) 0 0;
                   (d, nd) \<leftarrow>
                     (if si < ns_nelem src
                      then do { d \<leftarrow> cells_copy d di e si (ns_nelem src - si); Some (d, nd + (ns_nelem src - si)) }
                      else Some (d, nd));
                   Some (REG_NOERROR, \<lparr>ns_alloc = alloc, ns_nelem = nd, ns_elems = Some d\<rparr>)
                 })))"

function skip_less :: "int cells \<Rightarrow> nat \<Rightarrow> int \<Rightarrow> nat \<Rightarrow> nat option" where
  "skip_less d nd y j =
     (if j < nd then do { x \<leftarrow> cells_read d j; (if x < y then skip_less d nd y (j + 1) else Some j) } else Some j)"
  by pat_completeness auto
termination by (relation "measure (\<lambda>(d, nd, y, j). nd - j)") auto

declare skip_less.simps [simp del]

function intersect_loop ::
  "int cells \<Rightarrow> nat \<Rightarrow> int cells \<Rightarrow> nat \<Rightarrow> int cells \<Rightarrow> nat \<Rightarrow> nat \<Rightarrow> nat \<Rightarrow> nat \<Rightarrow> (int cells \<times> nat) option" where
  "intersect_loop e1 n1 e2 n2 d nd i1 i2 j =
     (if i1 < n1 \<and> i2 < n2
      then do {
        x \<leftarrow> cells_read e1 i1;
        y \<leftarrow> cells_read e2 i2;
        (if y < x then intersect_loop e1 n1 e2 n2 d nd i1 (i2 + 1) j
         else if x = y
         then do {
           j \<leftarrow> skip_less d nd y j;
           found \<leftarrow> (if j < nd then map_option (\<lambda>z. z = y) (cells_read d j) else Some False);
           (if found then intersect_loop e1 n1 e2 n2 d nd (i1 + 1) i2 (j + 1)
            else do {
              d \<leftarrow> cells_copy d (j + 1) d j (nd - j);
              d \<leftarrow> cells_write d j y;
              intersect_loop e1 n1 e2 n2 d (nd + 1) (i1 + 1) (i2 + 1) (j + 1)
            })
         }
         else intersect_loop e1 n1 e2 n2 d nd (i1 + 1) i2 j)
      }
      else Some (d, nd))"
  by pat_completeness auto
termination by (relation "measure (\<lambda>(e1, n1, e2, n2, d, nd, i1, i2, j). (n1 - i1) + (n2 - i2))") auto

declare intersect_loop.simps [simp del]

definition re_node_set_add_intersect ::
  "bool \<Rightarrow> re_node_set \<Rightarrow> re_node_set \<Rightarrow> re_node_set \<Rightarrow> (int \<times> re_node_set) option" where
  "re_node_set_add_intersect ok dest src1 src2 =
     (let need = ns_nelem src1 + ns_nelem src2 + ns_nelem dest; grow = ns_alloc dest < need;
          alloc = (if grow then need else ns_alloc dest)
      in if ns_nelem src1 = 0 \<or> ns_nelem src2 = 0 then Some (REG_NOERROR, dest)
         else if grow \<and> \<not> ok then Some (REG_ESPACE, dest\<lparr>ns_alloc := alloc, ns_elems := None\<rparr>)
         else do {
           d \<leftarrow> (if grow then Some (cells_realloc (ns_elems dest) alloc) else ns_elems dest);
           e1 \<leftarrow> ns_elems src1;
           e2 \<leftarrow> ns_elems src2;
           (d, nd) \<leftarrow> intersect_loop e1 (ns_nelem src1) e2 (ns_nelem src2) d (ns_nelem dest) 0 0 0;
           Some (REG_NOERROR, \<lparr>ns_alloc = alloc, ns_nelem = nd, ns_elems = Some d\<rparr>)
         })"

end
