(* ===== verification/Node_Set_Props.thy ===== *)
theory Node_Set_Props
  imports Node_Set
begin

text \<open>
  The node sets refine finite sets of integers: what each operation of \<^verbatim>\<open>Node_Set\<close> does to the
  ascending list of elements, and the laws of the set operations that follow.
\<close>

section \<open>Cells and lists\<close>

abbreviation asc :: "int list \<Rightarrow> bool" where "asc \<equiv> sorted_wrt (<)"

lemma asc_sorted_list: "asc xs \<Longrightarrow> sorted_list_of_set (set xs) = xs"
  by (simp add: strict_sorted_iff sorted_list_of_set.idem_if_sorted_distinct)

lemma asc_nth: "asc xs \<Longrightarrow> i < j \<Longrightarrow> j < length xs \<Longrightarrow> xs ! i < xs ! j"
  by (rule sorted_wrt_nth_less)

lemma append_cell:
  assumes "holds d acc" and "length acc < length d"
  obtains d' where "cells_write d (length acc) v = Some d'" and "holds d' (acc @ [v])" and "length d' = length d"
proof -
  obtain y r where d: "d = map Some acc @ y # r" using holds_eq [OF assms(1)] assms(2) by (metis Cons_nth_drop_Suc)
  show ?thesis
    by (rule that [of "map Some (acc @ [v]) @ r"]) (simp_all add: cells_write_def d list_update_append holds_append del: map_append, simp)
qed

lemma append_cells:
  assumes "holds d acc" and "holds e xs" and "i + n \<le> length xs" and "length acc + n \<le> length d"
  obtains d' where "cells_copy d (length acc) e i n = Some d'" and "holds d' (acc @ take n (drop i xs))" and "length d' = length d"
proof -
  have e: "e = map Some xs @ drop (length xs) e" using holds_eq [OF assms(2)] .
  have acc: "take (length acc) d = map Some acc" using assms(1) by (simp add: holds_def)
  have "take n (drop i e) = map Some (take n (drop i xs))"
    using assms(3) by (subst e) (simp add: take_map drop_map)
  then have copy: "cells_copy d (length acc) e i n = Some (map Some (acc @ take n (drop i xs)) @ drop (length acc + n) d)"
    using assms(3,4) holds_length [OF assms(2)] by (simp add: cells_copy_def acc)
  show ?thesis
    by (rule that [OF copy]) (simp add: holds_append del: map_append, use assms(3,4) in simp)
qed

lemma insert_cells:
  assumes "holds d ds" and "holds e xs" and "i + n \<le> length xs" and "length ds + n \<le> length d" and "j \<le> length ds"
  obtains d1 d2 where "cells_copy d (j + n) d j (length ds - j) = Some d1" and "cells_copy d1 j e i n = Some d2"
    and "holds d2 (take j ds @ take n (drop i xs) @ drop j ds)" and "length d2 = length d"
proof -
  have d: "d = map Some ds @ drop (length ds) d" using holds_eq [OF assms(1)] .
  have e: "e = map Some xs @ drop (length xs) e" using holds_eq [OF assms(2)] .
  let ?d1 = "take (j + n) d @ map Some (drop j ds) @ drop (length ds + n) d"
  have "take (length ds - j) (drop j d) = map Some (drop j ds)"
    using assms(5) by (subst d) (simp add: take_map drop_map)
  then have c1: "cells_copy d (j + n) d j (length ds - j) = Some ?d1"
    using assms(4,5) by (simp add: cells_copy_def ac_simps)
  have "take n (drop i e) = map Some (take n (drop i xs))"
    using assms(3) by (subst e) (simp add: take_map drop_map)
  moreover have "take j ?d1 = map Some (take j ds)" using assms(4,5) by (simp, subst d) (simp add: take_map)
  moreover have "drop (j + n) ?d1 = map Some (drop j ds) @ drop (length ds + n) d" using assms(4,5) by simp
  ultimately have c2: "cells_copy ?d1 j e i n
      = Some (map Some (take j ds @ take n (drop i xs) @ drop j ds) @ drop (length ds + n) d)"
    using assms(3,4,5) holds_length [OF assms(2)] by (simp add: cells_copy_def)
  show ?thesis
    by (rule that [OF c1 c2]) (simp add: holds_append del: map_append, use assms(3-5) in simp)
qed

lemma bsearch_spec:
  assumes "holds b xs" and "sorted xs" and "lo \<le> hi" and "hi \<le> length xs"
  shows "\<exists>k. bsearch b v lo hi = Some k \<and> lo \<le> k \<and> k \<le> hi \<and>
    (\<forall>i. lo \<le> i \<and> i < k \<longrightarrow> xs ! i < v) \<and> (\<forall>i. k \<le> i \<and> i < hi \<longrightarrow> v \<le> xs ! i)"
  using assms
proof (induction b v lo hi rule: bsearch.induct)
  case (1 b v lo hi)
  let ?m = "(lo + hi) div 2"
  show ?case
  proof (cases "lo < hi")
    case True
    then have m: "lo \<le> ?m" "?m < hi" by auto
    have x: "cells_read b ?m = Some (xs ! ?m)" using holds_read [OF "1.prems"(1)] m "1.prems"(4) by simp
    show ?thesis
    proof (cases "xs ! ?m < v")
      case True
      then obtain k where k: "bsearch b v (?m + 1) hi = Some k" "?m + 1 \<le> k" "k \<le> hi"
        "\<forall>i. ?m + 1 \<le> i \<and> i < k \<longrightarrow> xs ! i < v" "\<forall>i. k \<le> i \<and> i < hi \<longrightarrow> v \<le> xs ! i"
        using "1.IH"(1) [OF \<open>lo < hi\<close> x True "1.prems"(1,2)] m "1.prems"(4) by auto
      have "xs ! i < v" if "i \<le> ?m" for i
        using sorted_nth_mono [OF "1.prems"(2) that] m "1.prems"(4) True by simp
      then have "\<forall>i. lo \<le> i \<and> i < k \<longrightarrow> xs ! i < v" using k(4) by (metis Suc_eq_plus1 not_less_eq_eq)
      moreover have "bsearch b v lo hi = Some k" using \<open>lo < hi\<close> x True k(1) by (subst bsearch.simps) simp
      ultimately show ?thesis using k m by auto
    next
      case False
      then obtain k where k: "bsearch b v lo ?m = Some k" "lo \<le> k" "k \<le> ?m"
        "\<forall>i. lo \<le> i \<and> i < k \<longrightarrow> xs ! i < v" "\<forall>i. k \<le> i \<and> i < ?m \<longrightarrow> v \<le> xs ! i"
        using "1.IH"(2) [OF \<open>lo < hi\<close> x False "1.prems"(1,2)] m "1.prems"(4) by auto
      have "v \<le> xs ! i" if "?m \<le> i" "i < hi" for i
        using sorted_nth_mono [OF "1.prems"(2) that(1)] that(2) "1.prems"(4) False by simp
      then have "\<forall>i. k \<le> i \<and> i < hi \<longrightarrow> v \<le> xs ! i" using k(5) by (meson not_less)
      moreover have "bsearch b v lo hi = Some k" using \<open>lo < hi\<close> x False k(1) by (subst bsearch.simps) simp
      ultimately show ?thesis using k m by auto
    qed
  next
    case False
    then have "bsearch b v lo hi = Some lo" by (subst bsearch.simps) simp
    then show ?thesis using False "1.prems"(3) by auto
  qed
qed

section \<open>Elements of a set\<close>

text \<open>The elements of a set are a list; its block has the length the set says.\<close>

definition elems_of :: "re_node_set \<Rightarrow> int list \<Rightarrow> bool" where
  "elems_of s xs \<longleftrightarrow> ns_nelem s = length xs \<and>
     (case ns_elems s of None \<Rightarrow> xs = [] \<and> ns_alloc s = 0 | Some b \<Rightarrow> holds b xs \<and> length b = ns_alloc s)"

lemma elems_of_block:
  assumes "elems_of s xs" and "xs \<noteq> []"
  obtains b where "ns_elems s = Some b" and "holds b xs" and "length b = ns_alloc s" and "ns_nelem s = length xs"
  using assms by (auto simp: elems_of_def split: option.splits)

lemma empty_elems [simp]: "elems_of re_node_set_init_empty xs \<longleftrightarrow> xs = []"
  by (auto simp: elems_of_def re_node_set_init_empty_def)

lemma init_1_elems: "re_node_set_init_1 True e = (REG_NOERROR, s) \<Longrightarrow> elems_of s [e]"
  by (auto simp: re_node_set_init_1_def elems_of_def holds_def)

lemma init_2_elems:
  "re_node_set_init_2 True s0 e1 e2 = (REG_NOERROR, s) \<Longrightarrow>
   elems_of s (if e1 = e2 then [e1] else if e1 < e2 then [e1, e2] else [e2, e1])"
  by (auto simp: re_node_set_init_2_def elems_of_def holds_def split: if_splits)

lemma init_copy_elems:
  assumes "elems_of src xs"
  shows "\<exists>s. re_node_set_init_copy True src = Some (REG_NOERROR, s) \<and> elems_of s xs"
proof (cases "xs = []")
  case True
  then show ?thesis using assms by (auto simp: elems_of_def re_node_set_init_copy_def re_node_set_init_empty_def)
next
  case False
  from elems_of_block [OF assms False] obtain b where b: "ns_elems src = Some b" "holds b xs" "ns_nelem src = length xs" .
  obtain d where "cells_copy (replicate (length xs) None) 0 b 0 (length xs) = Some d" "holds d xs" "length d = length xs"
    using append_cells [of "replicate (length xs) None" "[]" b xs 0 "length xs"] b(2) by auto
  then show ?thesis using b False by (auto simp: re_node_set_init_copy_def elems_of_def)
qed

lemma insert_split:
  assumes "sorted xs" and "k \<le> length xs" and "\<forall>i. i < k \<longrightarrow> xs ! i < e" and "\<forall>i. k \<le> i \<and> i < length xs \<longrightarrow> e \<le> xs ! i"
  shows "take k xs @ e # drop k xs = insort e xs"
proof -
  have "\<forall>x \<in> set (take k xs). x < e" using assms(2,3) by (auto simp: in_set_conv_nth)
  moreover have "\<forall>x \<in> set (drop k xs). e \<le> x" using assms(4) by (auto simp: in_set_conv_nth)
  moreover have "insort e (us @ ws) = us @ e # ws" if "\<forall>x \<in> set us. x < e" "\<forall>x \<in> set ws. e \<le> x" for us ws
  proof -
    have "insort e ws = e # ws" using that(2) by (cases ws) auto
    then show ?thesis using that(1) by (induction us) auto
  qed
  ultimately show ?thesis by (metis append_take_drop_id)
qed

lemma hole_cells:
  assumes "holds d us" and "holds b xs" and "k \<le> length xs" and "length us + 1 + (length xs - k) \<le> length d"
  obtains d1 d2 where "cells_copy d (length us + 1) b k (length xs - k) = Some d1" and "cells_write d1 (length us) e = Some d2"
    and "holds d2 (us @ e # drop k xs)" and "length d2 = length d"
proof -
  obtain y r where d: "d = map Some us @ y # r" using holds_eq [OF assms(1)] assms(4) by (metis Cons_nth_drop_Suc Suc_eq_plus1 add_leD1 Suc_le_eq)
  have "take (length xs - k) (drop k b) = map Some (drop k xs)"
    using holds_eq [OF assms(2)] assms(3) by (metis holds_def assms(2) drop_map take_drop add_diff_cancel_right' le_add_diff_inverse2 add.commute)
  then have "cells_copy d (length us + 1) b k (length xs - k)
      = Some (map Some us @ y # map Some (drop k xs) @ drop (length xs - k) r)"
    using assms(3,4) holds_length [OF assms(2)] by (simp add: cells_copy_def d Suc_diff_le)
  moreover have "cells_write (map Some us @ y # map Some (drop k xs) @ drop (length xs - k) r) (length us) e
      = Some (map Some (us @ e # drop k xs) @ drop (length xs - k) r)"
    by (simp add: cells_write_def list_update_append)
  ultimately show ?thesis
    by (rule that) (simp add: holds_append del: map_append list.map, use assms(3,4) in \<open>simp add: d\<close>)
qed

lemma insert_elems:
  assumes "elems_of s xs" and "sorted xs"
  shows "\<exists>s'. re_node_set_insert True s e = Some (1, s') \<and> elems_of s' (insort e xs)"
proof (cases "ns_alloc s = 0 \<or> ns_elems s = None")
  case True
  then have "xs = []" using assms(1) holds_length by (fastforce simp: elems_of_def split: option.splits)
  then show ?thesis using True init_1_elems [of e]
    by (auto simp: re_node_set_insert_def re_node_set_init_1_def REG_NOERROR_def)
next
  case False
  then obtain b where b: "ns_elems s = Some b" "holds b xs" "length b = ns_alloc s" "ns_nelem s = length xs"
    using assms(1) by (auto simp: elems_of_def split: option.splits)
  obtain k where k: "bsearch b e 0 (length xs) = Some k" "k \<le> length xs" "\<forall>i. i < k \<longrightarrow> xs ! i < e"
    "\<forall>i. k \<le> i \<and> i < length xs \<longrightarrow> e \<le> xs ! i"
    using bsearch_spec [OF b(2) assms(2), of 0 "length xs" e] by auto
  have ins: "take k xs @ e # drop k xs = insort e xs" by (rule insert_split [OF assms(2) k(2,3,4)])
  show ?thesis
  proof (cases "ns_alloc s < length xs + 1")
    case True
    have full: "length xs = ns_alloc s" using True holds_length [OF b(2)] b(3) by simp
    let ?n = "replicate (ns_alloc s * 2) None"
    have "holds ?n []" "length ([] :: int list) + k \<le> length ?n" "0 + k \<le> length xs" using k(2) full by simp_all
    from append_cells [OF this(1) b(2) this(3,2)] obtain n1 where
      n1: "cells_copy ?n 0 b 0 k = Some n1" "holds n1 (take k xs)" "length n1 = ns_alloc s * 2" by auto
    have "length (take k xs) = k" using k(2) by simp
    moreover have "k + 1 + (length xs - k) \<le> length n1" using n1(3) full k(2) False by simp
    ultimately obtain n2 n3 where n3: "cells_copy n1 (k + 1) b k (length xs - k) = Some n2" "cells_write n2 k e = Some n3"
      "holds n3 (insort e xs)" "length n3 = length n1"
      using hole_cells [OF n1(2) b(2) k(2), of e] ins by metis
    then have "re_node_set_insert True s e
        = Some (1, \<lparr>ns_alloc = ns_alloc s * 2, ns_nelem = ns_nelem s + 1, ns_elems = Some n3\<rparr>)"
      using True False b k(1) n1(1) by (simp add: re_node_set_insert_def)
    then show ?thesis using n3 n1(3) b(4) by (simp add: elems_of_def)
  next
    case f: False
    obtain b1 b2 where "cells_copy b (k + 1) b k (length xs - k) = Some b1" "cells_write b1 k e = Some b2"
      "holds b2 (insort e xs)" "length b2 = length b"
      using insert_cell [OF b(2) _ k(2), of e] f b(3) ins by auto
    then show ?thesis using False f b k(1) by (auto simp: re_node_set_insert_def elems_of_def)
  qed
qed

lemma contains_elems:
  assumes "elems_of s xs" and "sorted xs"
  obtains k where "re_node_set_contains s e = Some k" and "k = 0 \<longleftrightarrow> e \<notin> set xs" and "k \<noteq> 0 \<longrightarrow> k \<le> length xs \<and> xs ! (k - 1) = e"
proof (cases "xs = []")
  case True
  then show ?thesis using assms(1) that [of 0] by (simp add: re_node_set_contains_def elems_of_def)
next
  case False
  from elems_of_block [OF assms(1) False] obtain b where b: "ns_elems s = Some b" "holds b xs" "ns_nelem s = length xs" .
  obtain k where k: "bsearch b e 0 (length xs - 1) = Some k" "k \<le> length xs - 1" "\<forall>i. i < k \<longrightarrow> xs ! i < e"
    "\<forall>i. k \<le> i \<and> i < length xs - 1 \<longrightarrow> e \<le> xs ! i"
    using bsearch_spec [OF b(2) assms(2), of 0 "length xs - 1" e] by auto
  have kl: "k < length xs" using k(2) False by (cases xs) auto
  have "e \<notin> set xs" if "xs ! k \<noteq> e"
  proof
    assume "e \<in> set xs"
    then obtain i where i: "i < length xs" "xs ! i = e" by (auto simp: in_set_conv_nth)
    then have ki: "k \<le> i" using k(3) by (metis not_less less_irrefl)
    then have "xs ! k \<le> e" using sorted_nth_mono [OF assms(2) ki i(1)] i(2) by simp
    moreover have "e \<le> xs ! k"
      using k(4) kl ki i that by (cases "k < length xs - 1") (auto simp: le_antisym Suc_leI le_diff_conv2 dest: le_antisym)
    ultimately show False using that by simp
  qed
  then have "re_node_set_contains s e = Some (if xs ! k = e then k + 1 else 0)"
    and "(if xs ! k = e then k + 1 else 0) = 0 \<longleftrightarrow> e \<notin> set xs"
    using b k(1) kl holds_read [OF b(2) kl] False nth_mem [OF kl] by (auto simp: re_node_set_contains_def)
  then show ?thesis by (rule that) (use kl in auto)
qed

lemma compare_loop_lists:
  assumes "holds b1 xs" and "holds b2 ys" and "length ys = length xs" and "i + n = length xs"
  shows "compare_loop b1 b2 i n = Some (drop i xs = drop i ys)"
  using assms(3,4)
proof (induction n arbitrary: i)
  case (Suc n)
  have "drop i xs = xs ! i # drop (i + 1) xs" "drop i ys = ys ! i # drop (i + 1) ys"
    using Suc.prems by (simp_all add: Cons_nth_drop_Suc)
  then show ?case
    using Suc holds_read [OF assms(1), of i] holds_read [OF assms(2), of i] by simp
qed simp

lemma compare_elems:
  assumes "elems_of s1 xs" and "elems_of s2 ys"
  shows "re_node_set_compare (Some s1) (Some s2) = Some (xs = ys)"
proof (cases "length xs = length ys \<and> xs \<noteq> []")
  case True
  then have "ys \<noteq> []" by auto
  from elems_of_block [OF assms(1)] elems_of_block [OF assms(2) this] True obtain b1 b2 where
    "ns_elems s1 = Some b1" "holds b1 xs" "ns_nelem s1 = length xs" "ns_elems s2 = Some b2" "holds b2 ys" "ns_nelem s2 = length ys"
    by metis
  then show ?thesis using True \<open>ys \<noteq> []\<close> compare_loop_lists [of b1 xs b2 ys 0 "length xs"] by (simp add: re_node_set_compare_def)
next
  case False
  then show ?thesis using assms by (auto simp: re_node_set_compare_def elems_of_def)
qed

lemma remove_at_elems:
  assumes "elems_of s xs" and "i < length xs"
  shows "\<exists>s'. re_node_set_remove_at s (int i) = Some s' \<and> elems_of s' (take i xs @ drop (i + 1) xs)"
proof -
  have "xs \<noteq> []" using assms(2) by auto
  from elems_of_block [OF assms(1) this] obtain b where
    b: "ns_elems s = Some b" "holds b xs" "length b = ns_alloc s" "ns_nelem s = length xs" .
  have us: "holds b (take i xs)" using b(2) holds_eq [OF b(2)] by (metis append_take_drop_id holds_append map_append append_assoc)
  show ?thesis
  proof (cases "i < length xs - 1")
    case True
    have "length (take i xs) = i" using assms(2) by simp
    moreover have "i + 1 + (length xs - i - 1) \<le> length xs" "i + (length xs - i - 1) \<le> length b"
      using assms(2) holds_length [OF b(2)] by simp_all
    moreover have "take (length xs - i - 1) (drop (i + 1) xs) = drop (i + 1) xs" by simp
    ultimately obtain d where "cells_copy b i b (i + 1) (length xs - i - 1) = Some d" "holds d (take i xs @ drop (i + 1) xs)" "length d = length b"
      using append_cells [OF us b(2), of "i + 1" "length xs - i - 1"] by metis
    then show ?thesis using b True assms(2) by (auto simp: re_node_set_remove_at_def elems_of_def)
  next
    case False
    then have "drop (i + 1) xs = []" using assms(2) by simp
    then show ?thesis using False b us assms(2) by (auto simp: re_node_set_remove_at_def elems_of_def)
  qed
qed

section \<open>Unions\<close>

fun set_merge :: "int list \<Rightarrow> int list \<Rightarrow> int list" where
  "set_merge [] ys = ys"
| "set_merge (x # xs) [] = x # xs"
| "set_merge (x # xs) (y # ys) =
     (if y < x then y # set_merge (x # xs) ys else x # set_merge xs (if x = y then ys else y # ys))"

lemma set_merge_Nil [simp]: "set_merge xs [] = xs"
  by (cases xs) auto

lemma set_set_merge: "set (set_merge xs ys) = set xs \<union> set ys"
  by (induction xs ys rule: set_merge.induct) auto

lemma asc_set_merge: "asc xs \<Longrightarrow> asc ys \<Longrightarrow> asc (set_merge xs ys)"
  by (induction xs ys rule: set_merge.induct) (auto simp: set_set_merge)

lemma union_loop_spec:
  assumes "holds e1 xs" and "holds e2 ys" and "holds d acc" and "i1 \<le> length xs" and "i2 \<le> length ys"
    and "length acc + (length xs - i1) + (length ys - i2) \<le> length d"
  shows "\<exists>d' i1' i2' acc'. union_loop e1 (length xs) e2 (length ys) d i1 i2 (length acc) = Some (d', i1', i2', length acc') \<and>
    holds d' acc' \<and> length d' = length d \<and> (i1' = length xs \<or> i2' = length ys) \<and> i1' \<le> length xs \<and> i2' \<le> length ys \<and>
    length acc' + (length xs - i1') + (length ys - i2') \<le> length d \<and>
    acc' @ drop i1' xs @ drop i2' ys = acc @ set_merge (drop i1 xs) (drop i2 ys)"
  using assms(3-6)
proof (induction "(length xs - i1) + (length ys - i2)" arbitrary: d i1 i2 acc rule: less_induct)
  case less
  show ?case
  proof (cases "i1 < length xs \<and> i2 < length ys")
    case True
    let ?x = "xs ! i1" and ?y = "ys ! i2"
    have r: "cells_read e1 i1 = Some ?x" "cells_read e2 i2 = Some ?y"
      using True holds_read [OF assms(1)] holds_read [OF assms(2)] by simp_all
    have dx: "drop i1 xs = ?x # drop (Suc i1) xs" "drop i2 ys = ?y # drop (Suc i2) ys"
      using True by (simp_all add: Cons_nth_drop_Suc)
    define v j1 j2 where vj: "v = (if ?y < ?x then ?y else ?x)" "j1 = (if ?y < ?x then i1 else i1 + 1)"
      "j2 = (if ?y \<le> ?x then i2 + 1 else i2)"
    have "length acc < length d" using less.prems(4) True by linarith
    from append_cell [OF less.prems(1) this, of v] obtain d1 where
      d1: "cells_write d (length acc) v = Some d1" "holds d1 (acc @ [v])" "length d1 = length d" .
    have step: "union_loop e1 (length xs) e2 (length ys) d i1 i2 (length acc)
        = union_loop e1 (length xs) e2 (length ys) d1 j1 j2 (length (acc @ [v]))"
      using True r d1(1) by (subst union_loop.simps) (auto simp: vj)
    have m: "set_merge (drop i1 xs) (drop i2 ys) = v # set_merge (drop j1 xs) (drop j2 ys)"
      by (auto simp: dx vj)
    have "(length xs - j1) + (length ys - j2) < (length xs - i1) + (length ys - i2)" "j1 \<le> length xs" "j2 \<le> length ys"
      "length (acc @ [v]) + (length xs - j1) + (length ys - j2) \<le> length d1"
      using True less.prems(4) d1(3) by (auto simp: vj)
    from less.hyps [OF this(1) d1(2) this(2,3,4)] show ?thesis unfolding step m using d1(3) by simp
  next
    case False
    then have "union_loop e1 (length xs) e2 (length ys) d i1 i2 (length acc) = Some (d, i1, i2, length acc)"
      by (subst union_loop.simps) auto
    then show ?thesis using False less.prems by (intro exI [of _ d] exI [of _ i1] exI [of _ i2] exI [of _ acc]) auto
  qed
qed

lemma union_sets_elems:
  assumes "elems_of s1 xs" and "elems_of s2 ys" and "xs \<noteq> []" and "ys \<noteq> []"
  shows "\<exists>s. union_sets True dest s1 s2 = Some (REG_NOERROR, s) \<and> elems_of s (set_merge xs ys)"
proof -
  from elems_of_block [OF assms(1,3)] elems_of_block [OF assms(2,4)] obtain e1 e2 where
    b: "ns_elems s1 = Some e1" "holds e1 xs" "ns_nelem s1 = length xs" "ns_elems s2 = Some e2" "holds e2 ys" "ns_nelem s2 = length ys"
    by metis
  let ?d = "replicate (length xs + length ys) None"
  from union_loop_spec [OF b(2,5), of ?d "[]" 0 0] obtain d i1 i2 acc where
    u: "union_loop e1 (length xs) e2 (length ys) ?d 0 0 0 = Some (d, i1, i2, length acc)" "holds d acc"
      "length d = length xs + length ys" "i1 = length xs \<or> i2 = length ys" "i1 \<le> length xs" "i2 \<le> length ys"
      "length acc + (length xs - i1) + (length ys - i2) \<le> length xs + length ys"
      "acc @ drop i1 xs @ drop i2 ys = set_merge xs ys" by auto
  let ?fin = "if i1 < length xs then do { d \<leftarrow> cells_copy d (length acc) e1 i1 (length xs - i1); Some (d, length acc + (length xs - i1)) }
              else if i2 < length ys then do { d \<leftarrow> cells_copy d (length acc) e2 i2 (length ys - i2); Some (d, length acc + (length ys - i2)) }
              else Some (d, length acc)"
  have "\<exists>d'. ?fin = Some (d', length (set_merge xs ys)) \<and> holds d' (set_merge xs ys) \<and> length d' = length d"
  proof (cases "i1 < length xs")
    case True
    have "i1 + (length xs - i1) \<le> length xs" "length acc + (length xs - i1) \<le> length d" using u True by simp_all
    from append_cells [OF u(2) b(2) this] obtain d' where
      "cells_copy d (length acc) e1 i1 (length xs - i1) = Some d'" "holds d' (acc @ drop i1 xs)" "length d' = length d" by auto
    moreover have "set_merge xs ys = acc @ drop i1 xs" using u(4,8) True by simp
    ultimately show ?thesis using True by simp
  next
    case False
    show ?thesis
    proof (cases "i2 < length ys")
      case True
      have "i2 + (length ys - i2) \<le> length ys" "length acc + (length ys - i2) \<le> length d" using u True by simp_all
      from append_cells [OF u(2) b(5) this] obtain d' where
        "cells_copy d (length acc) e2 i2 (length ys - i2) = Some d'" "holds d' (acc @ drop i2 ys)" "length d' = length d" by auto
      moreover have "set_merge xs ys = acc @ drop i2 ys" using u(5,8) False by simp
      ultimately show ?thesis using True False by simp
    next
      case no: False
      have "set_merge xs ys = acc" using u(5,6,8) no False by simp
      then show ?thesis using False no u(2) by simp
    qed
  qed
  then show ?thesis using b u(1,3) by (fastforce simp: union_sets_def elems_of_def)
qed

section \<open>Merging into a set\<close>

lemma run_end_spec:
  assumes "holds e xs" and "si \<le> length xs"
  shows "\<exists>k. run_end e (length xs) x si = Some k \<and> si \<le> k \<and> k \<le> length xs \<and> (\<forall>i. si \<le> i \<and> i < k \<longrightarrow> xs ! i < x) \<and>
    (k < length xs \<longrightarrow> x \<le> xs ! k)"
  using assms(2)
proof (induction "length xs - si" arbitrary: si rule: less_induct)
  case less
  show ?case
  proof (cases "si < length xs \<and> xs ! si < x")
    case True
    then have "length xs - (si + 1) < length xs - si" "si + 1 \<le> length xs" by linarith+
    from less.hyps [OF this] obtain k where k: "run_end e (length xs) x (si + 1) = Some k" "si + 1 \<le> k" "k \<le> length xs"
      "\<forall>i. si + 1 \<le> i \<and> i < k \<longrightarrow> xs ! i < x" "k < length xs \<longrightarrow> x \<le> xs ! k" by blast
    moreover have "run_end e (length xs) x si = Some k"
      using True k(1) holds_read [OF assms(1), of si] by (subst run_end.simps) simp
    moreover have "\<forall>i. si \<le> i \<and> i < k \<longrightarrow> xs ! i < x" using k(4) True by (metis Suc_eq_plus1 le_antisym not_less_eq_eq)
    ultimately show ?thesis by (intro exI [of _ k]) simp
  next
    case False
    then have "run_end e (length xs) x si = Some si"
      using holds_read [OF assms(1), of si] by (subst run_end.simps) auto
    then show ?thesis using False less.prems by auto
  qed
qed

definition below :: "int list \<Rightarrow> int list \<Rightarrow> bool" where
  "below us ws \<longleftrightarrow> (\<forall>u \<in> set us. \<forall>w \<in> set ws. u < w)"

lemma asc_append: "asc (us @ ws) \<longleftrightarrow> asc us \<and> asc ws \<and> below us ws"
  by (auto simp: sorted_wrt_append below_def)

lemma below_append:
  "below (us @ us') ws \<longleftrightarrow> below us ws \<and> below us' ws" "below us (ws @ ws') \<longleftrightarrow> below us ws \<and> below us ws'"
  by (auto simp: below_def)

lemma asc_parts: "asc xs \<Longrightarrow> asc (take k xs)" "asc xs \<Longrightarrow> asc (drop k xs)" "asc xs \<Longrightarrow> below (take k xs) (drop k xs)"
  using asc_append [of "take k xs" "drop k xs"] by simp_all

text \<open>What a search between two ascending lists finds.\<close>

lemma bsearch_below:
  assumes "holds d ds" and "asc ds" and "di \<le> length ds" and "below (take di ds) (v # ws)" and "asc (v # ws)"
  obtains k where "bsearch d v di (length ds) = Some k" and "di \<le> k" and "k \<le> length ds" and "below (take k ds) (v # ws)"
    and "\<forall>b \<in> set (drop k ds). v \<le> b"
proof -
  have "sorted ds" using assms(2) by (simp add: strict_sorted_iff)
  from bsearch_spec [OF assms(1) this assms(3) order_refl, of v] obtain k where
    k: "bsearch d v di (length ds) = Some k" "di \<le> k" "k \<le> length ds"
      "\<forall>i. di \<le> i \<and> i < k \<longrightarrow> ds ! i < v" "\<forall>i. k \<le> i \<and> i < length ds \<longrightarrow> v \<le> ds ! i" by blast
  have "a < v" if a: "a \<in> set (take k ds)" for a
  proof -
    obtain i where i: "i < k" "a = ds ! i" using a by (auto simp: in_set_conv_nth)
    show ?thesis
    proof (cases "i < di")
      case True
      then have "a \<in> set (take di ds)" using i assms(3) by (auto simp: in_set_conv_nth intro: exI [of _ i])
      then show ?thesis using assms(4) by (simp add: below_def)
    next
      case False
      then show ?thesis using i k(4) by simp
    qed
  qed
  moreover have "v < w" if "w \<in> set ws" for w using assms(5) that by simp
  ultimately have "below (take k ds) (v # ws)" by (auto simp: below_def intro: less_trans)
  moreover have "\<forall>b \<in> set (drop k ds). v \<le> b" using k(5) by (auto simp: in_set_conv_nth)
  ultimately show ?thesis by (rule that [OF k(1-3)])
qed

text \<open>The state of the loop: what is in front of \<open>di\<close> lies below the source elements still to come.\<close>

definition merge_state :: "int cells \<Rightarrow> int list \<Rightarrow> nat \<Rightarrow> int list \<Rightarrow> nat \<Rightarrow> bool" where
  "merge_state d ds di xs si \<longleftrightarrow> holds d ds \<and> asc ds \<and> si \<le> length xs \<and> di \<le> length ds \<and>
     length ds + (length xs - si) \<le> length d \<and> below (take di ds) (drop si xs)"

lemma merge_skip:
  assumes "merge_state d ds di xs si" and "asc xs" and "si < length xs" and "k < length ds" and "ds ! k = xs ! si"
    and "below (take k ds) (drop si xs)"
  shows "merge_state d ds (k + 1) xs (si + 1)" and "set ds \<union> set (drop si xs) = set ds \<union> set (drop (si + 1) xs)"
proof -
  have v: "drop si xs = xs ! si # drop (si + 1) xs" using assms(3) by (simp add: Cons_nth_drop_Suc)
  have "asc (drop si xs)" by (rule asc_parts(2) [OF assms(2)])
  then have "below (take (k + 1) ds) (drop (si + 1) xs)"
    using assms(4-6) v by (simp add: take_Suc_conv_app_nth below_append) (simp add: below_def)
  then show "merge_state d ds (k + 1) xs (si + 1)" using assms(1,3,4) unfolding merge_state_def by auto
  show "set ds \<union> set (drop si xs) = set ds \<union> set (drop (si + 1) xs)"
    using assms(4,5) v nth_mem [of k ds] by auto
qed

lemma merge_run:
  assumes st: "merge_state d ds di xs si" and "holds e xs" and "asc xs" and k: "k < length ds" "below (take k ds) (drop si xs)"
    and r: "si \<le> r" "r \<le> length xs" "\<forall>i. si \<le> i \<and> i < r \<longrightarrow> xs ! i < ds ! k"
  obtains d1 d2 ds2 where "cells_copy d (k + (r - si)) d k (length ds - k) = Some d1" and "cells_copy d1 k e si (r - si) = Some d2"
    and "merge_state d2 ds2 (k + (r - si)) xs r" and "length d2 = length d" and "length ds2 = length ds + (r - si)"
    and "set ds2 \<union> set (drop r xs) = set ds \<union> set (drop si xs)"
proof -
  let ?m = "r - si"
  define run where "run = take ?m (drop si xs)"
  let ?ds2 = "take k ds @ run @ drop k ds"
  have ds: "holds d ds" "asc ds" "length ds + (length xs - si) \<le> length d" using st unfolding merge_state_def by blast+
  have split: "drop si xs = run @ drop r xs"
    using r(1) by (metis run_def append_take_drop_id drop_drop le_add_diff_inverse2)
  have parts: "below (take k ds) run" "below (take k ds) (drop r xs)" "asc run" "below run (drop r xs)"
    using k(2) asc_parts(2) [OF assms(3), of si] unfolding split by (simp_all add: below_append asc_append)
  have lens: "length (take k ds) = k" "length run = ?m" using k(1) r by (simp_all add: run_def)
  have "a < ds ! k" if a: "a \<in> set run" for a
  proof -
    obtain i where "i < ?m" "a = xs ! (si + i)" using a r(2) by (auto simp: run_def in_set_conv_nth)
    then show ?thesis using r(3) by simp
  qed
  moreover have "drop k ds = ds ! k # drop (k + 1) ds" using k(1) by (simp add: Cons_nth_drop_Suc)
  then have "\<forall>b \<in> set (drop k ds). ds ! k \<le> b" using asc_parts(2) [OF ds(2), of k] by (auto simp: order_le_less)
  ultimately have "below run (drop k ds)" by (auto simp: below_def intro: less_le_trans)
  then have asc2: "asc ?ds2" using parts asc_parts [OF ds(2), of k] by (simp add: asc_append below_append)
  have tk: "take (k + ?m) ?ds2 = take k ds @ run" using lens by (metis append.assoc append_eq_conv_conj length_append)
  have room: "si + ?m \<le> length xs" "length ds + ?m \<le> length d" "k \<le> length ds" using r k(1) ds(3) by simp_all
  from insert_cells [OF ds(1) assms(2) room] obtain d1 d2 where
    d2: "cells_copy d (k + ?m) d k (length ds - k) = Some d1" "cells_copy d1 k e si ?m = Some d2" "holds d2 ?ds2" "length d2 = length d"
    unfolding run_def by metis
  have len: "length ?ds2 = length ds + ?m" using k(1) lens by simp
  have below2: "below (take (k + ?m) ?ds2) (drop r xs)" unfolding tk using parts by (simp add: below_append)
  have cap: "length ?ds2 + (length xs - r) \<le> length d2" "k + ?m \<le> length ?ds2" using len d2(4) ds(3) r k(1) by linarith+
  have state: "merge_state d2 ?ds2 (k + ?m) xs r"
    unfolding merge_state_def using d2(3) asc2 r(2) cap below2 by blast
  have "set ?ds2 \<union> set (drop r xs) = set ds \<union> set (drop si xs)"
  proof -
    have "set ds = set (take k ds) \<union> set (drop k ds)" by (metis append_take_drop_id set_append)
    then show ?thesis unfolding split set_append by blast
  qed
  from that [OF d2(1,2) state d2(4) len this] show ?thesis .
qed

lemma merge_loop_spec:
  assumes "holds e xs" and "asc xs" and "merge_state d ds di xs si"
  shows "\<exists>d' ds' si' di'. merge_loop e (length xs) d (length ds) si di = Some (d', length ds', si', di') \<and>
    length d' = length d \<and> set ds' \<union> set (drop si' xs) = set ds \<union> set (drop si xs) \<and> merge_state d' ds' di' xs si' \<and>
    (si' < length xs \<longrightarrow> di' = length ds')"
  using assms(3)
proof (induction "length xs - si" arbitrary: d ds di si rule: less_induct)
  case less
  have st: "holds d ds" "asc ds" "si \<le> length xs" "di \<le> length ds" "below (take di ds) (drop si xs)"
    using less.prems by (simp_all add: merge_state_def)
  note step = merge_loop.simps [of e "length xs" d "length ds" si di]
  show ?case
  proof (cases "si < length xs \<and> di < length ds")
    case True
    let ?v = "xs ! si"
    have v: "drop si xs = ?v # drop (si + 1) xs" using True by (simp add: Cons_nth_drop_Suc)
    have rv: "cells_read e si = Some ?v" using True holds_read [OF assms(1)] by simp
    obtain k where k: "bsearch d ?v di (length ds) = Some k" "di \<le> k" "k \<le> length ds" "below (take k ds) (drop si xs)"
        "\<forall>b \<in> set (drop k ds). ?v \<le> b"
      using bsearch_below [OF st(1,2,4), of ?v "drop (si + 1) xs"] st(5) asc_parts(2) [OF assms(2), of si] v by metis
    show ?thesis
    proof (cases "k < length ds")
      case False
      then have "merge_loop e (length xs) d (length ds) si di = Some (d, length ds, si, k)"
        using True rv k(1) by (subst step) simp
      moreover have "merge_state d ds k xs si" using less.prems k(3,4) unfolding merge_state_def by blast
      ultimately show ?thesis using False k(3) by (intro exI [of _ d] exI [of _ ds] exI [of _ si] exI [of _ k]) simp
    next
      case kl: True
      have rx: "cells_read d k = Some (ds ! k)" using kl holds_read [OF st(1)] by simp
      show ?thesis
      proof (cases "ds ! k = ?v")
        case eq: True
        have "merge_loop e (length xs) d (length ds) si di = merge_loop e (length xs) d (length ds) (si + 1) (k + 1)"
          using True rv k(1) kl rx eq by (subst step) simp
        moreover have "length xs - (si + 1) < length xs - si" using True by linarith
        ultimately show ?thesis
          using less.hyps merge_skip [OF less.prems assms(2) _ kl eq k(4)] True by metis
      next
        case ne: False
        have "ds ! k \<in> set (drop k ds)" using kl by (metis Cons_nth_drop_Suc list.set_intros(1))
        then have vx: "?v < ds ! k" using k(5) ne by fastforce
        obtain r where r: "run_end e (length xs) (ds ! k) si = Some r" "si \<le> r" "r \<le> length xs"
          "\<forall>i. si \<le> i \<and> i < r \<longrightarrow> xs ! i < ds ! k" using run_end_spec [OF assms(1), of si "ds ! k"] True by auto
        have "si < r" using run_end_first [OF r(1) _ rv vx] True by simp
        then have dec: "length xs - r < length xs - si" using r(3) by linarith
        from merge_run [OF less.prems assms(1,2) kl k(4) r(2-4)] obtain d1 d2 ds2 where
          d2: "cells_copy d (k + (r - si)) d k (length ds - k) = Some d1" "cells_copy d1 k e si (r - si) = Some d2"
            "merge_state d2 ds2 (k + (r - si)) xs r" "length d2 = length d" "length ds2 = length ds + (r - si)"
            "set ds2 \<union> set (drop r xs) = set ds \<union> set (drop si xs)" .
        have "merge_loop e (length xs) d (length ds) si di = merge_loop e (length xs) d2 (length ds2) r (k + (r - si))"
          using True rv k(1) kl rx ne r(1) d2(1,2,5) by (subst step) (simp add: add.commute)
        then show ?thesis using less.hyps [OF dec d2(3)] d2(4,6) by metis
      qed
    qed
  next
    case False
    then have "merge_loop e (length xs) d (length ds) si di = Some (d, length ds, si, di)"
      by (subst step) auto
    then show ?thesis using False less.prems st
      by (intro exI [of _ d] exI [of _ ds] exI [of _ si] exI [of _ di]) auto
  qed
qed

lemma realloc_holds:
  assumes "elems_of s xs" and "length xs \<le> n"
  shows "holds (cells_realloc (ns_elems s) n) xs" and "ns_alloc s \<le> n \<Longrightarrow> length (cells_realloc (ns_elems s) n) = n"
proof -
  show "holds (cells_realloc (ns_elems s) n) xs"
    using assms by (auto simp: elems_of_def cells_realloc_def holds_def Let_def min_def split: option.splits)
      (metis length_map length_take min.absorb_iff2 nat_le_linear take_all_iff)+
  show "ns_alloc s \<le> n \<Longrightarrow> length (cells_realloc (ns_elems s) n) = n"
    using assms by (auto simp: elems_of_def cells_realloc_def Let_def split: option.splits)
qed

lemma merge_elems:
  assumes "elems_of dest ds" and "asc ds" and "elems_of src xs" and "asc xs"
  shows "\<exists>s zs. re_node_set_merge True dest (Some src) = Some (REG_NOERROR, s) \<and> elems_of s zs \<and> asc zs \<and> set zs = set ds \<union> set xs"
proof (cases "xs = []")
  case True
  then show ?thesis using assms by (auto simp: re_node_set_merge_def elems_of_def)
next
  case False
  from elems_of_block [OF assms(3) False] obtain e where e: "ns_elems src = Some e" "holds e xs" "ns_nelem src = length xs" .
  have nd: "ns_nelem dest = length ds" using assms(1) by (simp add: elems_of_def)
  define alloc where "alloc = (if ns_alloc dest < length xs + length ds then 2 * (length xs + ns_alloc dest) else ns_alloc dest)"
  have dsl: "length ds \<le> ns_alloc dest" using assms(1) by (auto simp: elems_of_def dest: holds_length split: option.splits)
  then have big: "length ds + length xs \<le> alloc" "ns_alloc dest \<le> alloc" "length ds \<le> alloc" by (auto simp: alloc_def)
  obtain d where d: "(if ns_alloc dest < length xs + length ds then Some (cells_realloc (ns_elems dest) alloc) else ns_elems dest) = Some d"
    "holds d ds" "length d = alloc"
  proof (cases "ns_alloc dest < length xs + length ds")
    case True
    then show ?thesis using that realloc_holds [OF assms(1) big(3)] big(2) by simp
  next
    case no: False
    then obtain b where "ns_elems dest = Some b" using assms(1) False by (cases "ns_elems dest") (auto simp: elems_of_def)
    then show ?thesis using that no assms(1) by (auto simp: elems_of_def alloc_def)
  qed
  have "merge_state d ds 0 xs 0" using d(2,3) assms(2) big(1) by (simp add: merge_state_def below_def)
  from merge_loop_spec [OF e(2) assms(4) this] obtain d' ds' si di where
    m: "merge_loop e (length xs) d (length ds) 0 0 = Some (d', length ds', si, di)" "length d' = alloc"
      "set ds' \<union> set (drop si xs) = set ds \<union> set xs" "merge_state d' ds' di xs si" "si < length xs \<longrightarrow> di = length ds'"
    using d(3) by auto
  have st: "holds d' ds'" "asc ds'" "si \<le> length xs" "length ds' + (length xs - si) \<le> length d'" "below (take di ds') (drop si xs)"
    using m(4) unfolding merge_state_def by blast+
  have "\<exists>d2. (if si < length xs then do { d \<leftarrow> cells_copy d' di e si (length xs - si); Some (d, length ds' + (length xs - si)) }
      else Some (d', length ds')) = Some (d2, length (ds' @ drop si xs)) \<and> holds d2 (ds' @ drop si xs) \<and> length d2 = alloc"
  proof (cases "si < length xs")
    case True
    have "si + (length xs - si) \<le> length xs" using True by simp
    from append_cells [OF st(1) e(2) this st(4)] obtain d2 where
      "cells_copy d' (length ds') e si (length xs - si) = Some d2" "holds d2 (ds' @ drop si xs)" "length d2 = length d'" by auto
    then show ?thesis using True m(2,5) by simp
  next
    case False
    then show ?thesis using st(1,3) m(2) by simp
  qed
  then obtain d2 where fin: "(if si < length xs then do { d \<leftarrow> cells_copy d' di e si (length xs - si); Some (d, length ds' + (length xs - si)) }
      else Some (d', length ds')) = Some (d2, length (ds' @ drop si xs))" "holds d2 (ds' @ drop si xs)" "length d2 = alloc" by blast
  have "re_node_set_merge True dest (Some src)
      = Some (REG_NOERROR, \<lparr>ns_alloc = alloc, ns_nelem = length (ds' @ drop si xs), ns_elems = Some d2\<rparr>)"
  proof (cases "ns_alloc dest < length xs + length ds")
    case True
    then have al: "alloc = 2 * (length xs + ns_alloc dest)" and "d = cells_realloc (ns_elems dest) alloc" using d(1) by (simp_all add: alloc_def)
    then show ?thesis using True e nd False m(1) fin(1)
      by (cases "si < length xs") (auto simp: re_node_set_merge_def Let_def bind_eq_Some_conv)
  next
    case no: False
    then have "alloc = ns_alloc dest" and "ns_elems dest = Some d" using d(1) by (simp_all add: alloc_def)
    then show ?thesis using no e nd False m(1) fin(1)
      by (cases "si < length xs") (auto simp: re_node_set_merge_def Let_def bind_eq_Some_conv)
  qed
  moreover have "elems_of \<lparr>ns_alloc = alloc, ns_nelem = length (ds' @ drop si xs), ns_elems = Some d2\<rparr> (ds' @ drop si xs)"
    using fin(2,3) by (simp add: elems_of_def)
  moreover have "asc (ds' @ drop si xs)"
  proof (cases "si < length xs")
    case True
    then have "below ds' (drop si xs)" using st(5) m(5) by simp
    then show ?thesis using st(2) asc_parts(2) [OF assms(4), of si] by (simp add: asc_append)
  next
    case False
    then show ?thesis using st(2) by simp
  qed
  moreover have "set (ds' @ drop si xs) = set ds \<union> set xs" using m(3) by simp
  ultimately show ?thesis by blast
qed

section \<open>Adding an intersection\<close>

lemma skip_less_run_end: "skip_less d nd y j = run_end d nd y j"
proof (induction d nd y j rule: run_end.induct)
  case (1 e n x si)
  show ?case
    using 1 by (subst skip_less.simps, subst run_end.simps, cases "cells_read e si") auto
qed

definition common :: "int list \<Rightarrow> int list \<Rightarrow> int set" where
  "common xs ys = set xs \<inter> set ys"

lemma common_skip:
  "asc (y # ys) \<Longrightarrow> asc (x # xs) \<Longrightarrow> y < x \<Longrightarrow> common (x # xs) (y # ys) = common (x # xs) ys"
  "asc (y # ys) \<Longrightarrow> asc (x # xs) \<Longrightarrow> x < y \<Longrightarrow> common (x # xs) (y # ys) = common xs (y # ys)"
  "asc (x # ys) \<Longrightarrow> asc (x # xs) \<Longrightarrow> common (x # xs) (x # ys) = insert x (common xs ys)"
  "asc (x # ys) \<Longrightarrow> asc (x # xs) \<Longrightarrow> common xs (x # ys) = common xs ys"
  by (auto simp: common_def)

text \<open>The state of the loop: the elements in front of \<open>j\<close> lie below what is still in common.\<close>

definition inter_state :: "int cells \<Rightarrow> int list \<Rightarrow> nat \<Rightarrow> int list \<Rightarrow> int list \<Rightarrow> bool" where
  "inter_state d ds j us ws \<longleftrightarrow> holds d ds \<and> asc ds \<and> j \<le> length ds \<and> length ds + length us + length ws \<le> length d \<and>
     (\<forall>u \<in> set (take j ds). \<forall>z \<in> common us ws. u < z)"

lemma skip_to:
  assumes "inter_state d ds j (y # us) (y # ws)" and "asc (y # us)" and "asc (y # ws)"
  obtains k where "skip_less d (length ds) y j = Some k" and "j \<le> k" and "k \<le> length ds" and "\<forall>u \<in> set (take k ds). u < y"
    and "k < length ds \<longrightarrow> y \<le> ds ! k"
proof -
  have st: "holds d ds" "asc ds" "j \<le> length ds" "\<forall>u \<in> set (take j ds). u < y"
    using assms by (auto simp: inter_state_def common_def)
  from run_end_spec [OF st(1,3), of y] obtain k where k: "run_end d (length ds) y j = Some k" "j \<le> k" "k \<le> length ds"
    "\<forall>i. j \<le> i \<and> i < k \<longrightarrow> ds ! i < y" "k < length ds \<longrightarrow> y \<le> ds ! k" by blast
  have "u < y" if "u \<in> set (take k ds)" for u
  proof -
    obtain i where i: "i < k" "i < length ds" "u = ds ! i" using \<open>u \<in> set (take k ds)\<close> by (auto simp: in_set_conv_nth)
    show ?thesis
    proof (cases "i < j")
      case True
      then have "u \<in> set (take j ds)" using i by (auto simp: in_set_conv_nth intro!: exI [of _ i])
      then show ?thesis using st(4) by blast
    qed (use i k(4) in auto)
  qed
  then show ?thesis using that k by (simp add: skip_less_run_end)
qed

lemma inter_found:
  assumes "inter_state d ds j (y # us) (y # ws)" and "asc (y # us)" and "asc (y # ws)"
    and "k < length ds" and "ds ! k = y" and "\<forall>u \<in> set (take k ds). u < y"
  shows "inter_state d ds (k + 1) us (y # ws)" and "set ds \<union> common (y # us) (y # ws) = set ds \<union> common us (y # ws)"
proof -
  have "\<forall>u \<in> set (take (k + 1) ds). \<forall>z \<in> common us (y # ws). u < z"
    using assms(2-6) by (auto simp: common_def take_Suc_conv_app_nth intro: less_trans)
  then show "inter_state d ds (k + 1) us (y # ws)" using assms(1,4) by (simp add: inter_state_def)
  show "set ds \<union> common (y # us) (y # ws) = set ds \<union> common us (y # ws)"
    using assms(4,5) nth_mem [of k ds] by (auto simp: common_def)
qed

lemma inter_insert:
  assumes "inter_state d ds j (y # us) (y # ws)" and "asc (y # us)" and "asc (y # ws)"
    and "k \<le> length ds" and "k < length ds \<longrightarrow> y < ds ! k" and "\<forall>u \<in> set (take k ds). u < y"
  obtains d1 d2 ds2 where "cells_copy d (k + 1) d k (length ds - k) = Some d1" and "cells_write d1 k y = Some d2"
    and "inter_state d2 ds2 (k + 1) us ws" and "length d2 = length d" and "length ds2 = length ds + 1"
    and "set ds2 \<union> common us ws = set ds \<union> common (y # us) (y # ws)"
proof -
  have st: "holds d ds" "asc ds" "length ds + length us + length ws + 2 \<le> length d" using assms(1) by (auto simp: inter_state_def)
  let ?ds2 = "take k ds @ y # drop k ds"
  from insert_cell [OF st(1) _ assms(4), of y] st(3) obtain d1 d2 where
    d2: "cells_copy d (k + 1) d k (length ds - k) = Some d1" "cells_write d1 k y = Some d2" "holds d2 ?ds2" "length d2 = length d" by auto
  have len: "length ?ds2 = length ds + 1" using assms(4) by simp
  have "y < b" if "b \<in> set (drop k ds)" for b
  proof -
    have "drop k ds \<noteq> []" using that by auto
    then have "k < length ds" "drop k ds = ds ! k # drop (k + 1) ds" by (simp_all add: Cons_nth_drop_Suc)
    then show ?thesis using that assms(5) asc_parts(2) [OF st(2), of k] by (auto intro: less_trans)
  qed
  then have asc2: "asc ?ds2" using assms(6) asc_parts [OF st(2), of k] by (auto simp: asc_append below_def)
  have tk: "take (k + 1) ?ds2 = take k ds @ [y]" using assms(4) by (simp add: min_def)
  have "\<forall>u \<in> set (take (k + 1) ?ds2). \<forall>z \<in> common us ws. u < z"
    unfolding tk using assms(2,3,6) by (auto simp: common_def intro: less_trans)
  then have state: "inter_state d2 ?ds2 (k + 1) us ws"
    using d2(3,4) asc2 len st(3) assms(4) unfolding inter_state_def by auto
  have "set ds = set (take k ds) \<union> set (drop k ds)" by (metis append_take_drop_id set_append)
  then have "set ?ds2 \<union> common us ws = set ds \<union> common (y # us) (y # ws)"
    using common_skip(3) [OF assms(3,2)] by auto
  from that [OF d2(1,2) state d2(4) len this] show ?thesis .
qed

lemma intersect_loop_spec:
  assumes "holds e1 xs" and "asc xs" and "holds e2 ys" and "asc ys" and "i1 \<le> length xs" and "i2 \<le> length ys"
    and "inter_state d ds j (drop i1 xs) (drop i2 ys)"
  shows "\<exists>d' ds'. intersect_loop e1 (length xs) e2 (length ys) d (length ds) i1 i2 j = Some (d', length ds') \<and>
    holds d' ds' \<and> asc ds' \<and> length d' = length d \<and> set ds' = set ds \<union> common (drop i1 xs) (drop i2 ys)"
  using assms(5-7)
proof (induction "(length xs - i1) + (length ys - i2)" arbitrary: d ds i1 i2 j rule: less_induct)
  case less
  note step = intersect_loop.simps [of e1 "length xs" e2 "length ys" d "length ds" i1 i2 j]
  show ?case
  proof (cases "i1 < length xs \<and> i2 < length ys")
    case True
    let ?x = "xs ! i1" and ?y = "ys ! i2" and ?us = "drop (i1 + 1) xs" and ?ws = "drop (i2 + 1) ys"
    have dx: "drop i1 xs = ?x # ?us" "drop i2 ys = ?y # ?ws" using True by (simp_all add: Cons_nth_drop_Suc)
    have a: "asc (?x # ?us)" "asc (?y # ?ws)" using asc_parts(2) [OF assms(2), of i1] asc_parts(2) [OF assms(4), of i2] dx by simp_all
    have rd: "cells_read e1 i1 = Some ?x" "cells_read e2 i2 = Some ?y"
      using True holds_read [OF assms(1)] holds_read [OF assms(3)] by simp_all
    have dec: "(length xs - (i1 + 1)) + (length ys - i2) < (length xs - i1) + (length ys - i2)"
      "(length xs - i1) + (length ys - (i2 + 1)) < (length xs - i1) + (length ys - i2)"
      "(length xs - (i1 + 1)) + (length ys - (i2 + 1)) < (length xs - i1) + (length ys - i2)"
      "i1 + 1 \<le> length xs" "i2 + 1 \<le> length ys" using True by linarith+
    consider (gt) "?y < ?x" | (lt) "?x < ?y" | (eq) "?x = ?y" by linarith
    then show ?thesis
    proof cases
      case gt
      have "inter_state d ds j (drop i1 xs) ?ws"
        using less.prems(3) common_skip(1) [OF a(2,1) gt] dx by (auto simp: inter_state_def)
      from less.hyps [OF dec(2) less.prems(1) dec(5) this] show ?thesis
        using True rd gt common_skip(1) [OF a(2,1) gt] dx by (subst step) simp
    next
      case lt
      have "inter_state d ds j ?us (drop i2 ys)"
        using less.prems(3) common_skip(2) [OF a(2,1) lt] dx by (auto simp: inter_state_def)
      from less.hyps [OF dec(1,4) less.prems(2) this] show ?thesis
        using True rd lt common_skip(2) [OF a(2,1) lt] dx by (subst step) simp
    next
      case eq
      have st: "inter_state d ds j (?y # ?us) (?y # ?ws)" using less.prems(3) eq dx by simp
      have ay: "asc (?y # ?us)" using a(1) eq by simp
      have same: "common (drop i1 xs) (drop i2 ys) = common (?y # ?us) (?y # ?ws)" using dx eq by simp
      from skip_to [OF st ay a(2)] obtain k where k: "skip_less d (length ds) ?y j = Some k" "k \<le> length ds"
        "\<forall>u \<in> set (take k ds). u < ?y" "k < length ds \<longrightarrow> ?y \<le> ds ! k" by blast
      have rk: "k < length ds \<Longrightarrow> cells_read d k = Some (ds ! k)" using st by (auto simp: inter_state_def intro: holds_read)
      show ?thesis
      proof (cases "k < length ds \<and> ds ! k = ?y")
        case found: True
        note f = inter_found [OF st ay a(2) _ _ k(3)]
        have "intersect_loop e1 (length xs) e2 (length ys) d (length ds) i1 i2 j
            = intersect_loop e1 (length xs) e2 (length ys) d (length ds) (i1 + 1) i2 (k + 1)"
          using True rd eq k(1) found rk by (subst step) simp
        moreover have "inter_state d ds (k + 1) ?us (drop i2 ys)" "set ds \<union> common (drop i1 xs) (drop i2 ys) = set ds \<union> common ?us (drop i2 ys)"
          using f found dx(2) unfolding same by simp_all
        ultimately show ?thesis using less.hyps [OF dec(1,4) less.prems(2)] by metis
      next
        case no: False
        have "k < length ds \<longrightarrow> ?y < ds ! k" using no k(4) by auto
        from inter_insert [OF st ay a(2) k(2) this k(3)] obtain d1 d2 ds2 where
          d2: "cells_copy d (k + 1) d k (length ds - k) = Some d1" "cells_write d1 k ?y = Some d2"
            "inter_state d2 ds2 (k + 1) ?us ?ws" "length d2 = length d" "length ds2 = length ds + 1"
            "set ds2 \<union> common ?us ?ws = set ds \<union> common (?y # ?us) (?y # ?ws)" .
        have "intersect_loop e1 (length xs) e2 (length ys) d (length ds) i1 i2 j
            = intersect_loop e1 (length xs) e2 (length ys) d2 (length ds2) (i1 + 1) (i2 + 1) (k + 1)"
          using True rd eq k(1) no rk d2(1,2,5) by (subst step) auto
        then show ?thesis using less.hyps [OF dec(3-5) d2(3)] d2(4,6) unfolding same by metis
      qed
    qed
  next
    case False
    then have "intersect_loop e1 (length xs) e2 (length ys) d (length ds) i1 i2 j = Some (d, length ds)"
      by (subst step) auto
    moreover have "common (drop i1 xs) (drop i2 ys) = {}" using False by (auto simp: common_def)
    ultimately show ?thesis using less.prems(3) by (auto simp: inter_state_def)
  qed
qed

end
