(* ===== verification/Node_Set_Laws.thy ===== *)
theory Node_Set_Laws
  imports Node_Set_Props
begin

text \<open>
  The node sets as finite sets of integers: the laws of their operations, the interface that the
  compiler and the matcher of regular expressions use, and what happens at its limits.
\<close>

lemma add_intersect_elems:
  assumes "elems_of dest ds" and "asc ds" and "elems_of s1 xs" and "asc xs" and "elems_of s2 ys" and "asc ys"
  shows "\<exists>s zs. re_node_set_add_intersect True dest s1 s2 = Some (REG_NOERROR, s) \<and> elems_of s zs \<and> asc zs \<and>
    set zs = set ds \<union> (set xs \<inter> set ys)"
proof (cases "xs = [] \<or> ys = []")
  case True
  then show ?thesis using assms by (auto simp: re_node_set_add_intersect_def elems_of_def)
next
  case False
  obtain e1 e2 where e: "ns_elems s1 = Some e1" "holds e1 xs" "ns_nelem s1 = length xs"
    "ns_elems s2 = Some e2" "holds e2 ys" "ns_nelem s2 = length ys"
    using elems_of_block [OF assms(3)] elems_of_block [OF assms(5)] False by metis
  have nd: "ns_nelem dest = length ds" using assms(1) by (simp add: elems_of_def)
  define need where "need = length xs + length ys + length ds"
  have dsl: "length ds \<le> need" by (simp add: need_def)
  obtain d al where d: "(if ns_alloc dest < need then Some (cells_realloc (ns_elems dest) need) else ns_elems dest) = Some d"
    "al = (if ns_alloc dest < need then need else ns_alloc dest)" "holds d ds" "length d = al" "need \<le> al"
  proof (cases "ns_alloc dest < need")
    case True
    then show ?thesis using that [of "cells_realloc (ns_elems dest) need" need] realloc_holds [OF assms(1) dsl] by simp
  next
    case no: False
    then obtain b where "ns_elems dest = Some b" using assms(1) False by (cases "ns_elems dest") (auto simp: elems_of_def need_def)
    then show ?thesis using that [of b "ns_alloc dest"] no assms(1) by (simp add: elems_of_def)
  qed
  have "inter_state d ds 0 (drop 0 xs) (drop 0 ys)"
    using d(3,4,5) assms(2) by (simp add: inter_state_def need_def)
  from intersect_loop_spec [OF e(2) assms(4) e(5) assms(6) le0 le0 this] obtain d' ds' where
    l: "intersect_loop e1 (length xs) e2 (length ys) d (length ds) 0 0 0 = Some (d', length ds')" "holds d' ds'" "asc ds'"
      "length d' = length d" "set ds' = set ds \<union> (set xs \<inter> set ys)"
    by (auto simp: common_def)
  have "re_node_set_add_intersect True dest s1 s2 = Some (REG_NOERROR, \<lparr>ns_alloc = al, ns_nelem = length ds', ns_elems = Some d'\<rparr>)"
    using False e nd l(1) d(1,2)
    by (cases "ns_alloc dest < need") (simp_all add: re_node_set_add_intersect_def Let_def flip: need_def)
  moreover have "elems_of \<lparr>ns_alloc = al, ns_nelem = length ds', ns_elems = Some d'\<rparr> ds'"
    using l(2,4) d(4) by (simp add: elems_of_def)
  ultimately show ?thesis using l(3,5) by blast
qed

section \<open>Sets\<close>

text \<open>A node set represents a finite set of integers.\<close>

definition rep :: "re_node_set \<Rightarrow> int set \<Rightarrow> bool" where
  "rep s A \<longleftrightarrow> finite A \<and> elems_of s (sorted_list_of_set A)"

lemma repI: "elems_of s xs \<Longrightarrow> asc xs \<Longrightarrow> set xs = A \<Longrightarrow> rep s A"
  using asc_sorted_list [of xs] by (auto simp: rep_def)

lemma rep_elems:
  assumes "rep s A"
  obtains xs where "elems_of s xs" and "asc xs" and "sorted xs" and "set xs = A" and "finite A"
  using assms that [of "sorted_list_of_set A"] by (simp add: rep_def strict_sorted_iff)

lemma rep_insert:
  assumes "rep s A" and "e \<notin> A"
  shows "\<exists>s'. re_node_set_insert True s e = Some (1, s') \<and> rep s' (insert e A)"
proof -
  obtain xs where xs: "elems_of s xs" "asc xs" "sorted xs" "set xs = A" by (rule rep_elems [OF assms(1)])
  obtain s' where "re_node_set_insert True s e = Some (1, s')" "elems_of s' (insort e xs)"
    using insert_elems [OF xs(1,3)] by blast
  moreover have "asc (insort e xs)"
    using xs(2,3,4) assms(2) by (simp add: strict_sorted_iff sorted_insort distinct_insort)
  ultimately show ?thesis using repI [of s' "insort e xs" "insert e A"] xs(4) by (auto simp: set_insort_key)
qed

lemma rep_contains:
  assumes "rep s A"
  shows "\<exists>k. re_node_set_contains s e = Some k \<and> (k \<noteq> 0 \<longleftrightarrow> e \<in> A)"
proof -
  obtain xs where xs: "elems_of s xs" "sorted xs" "set xs = A" by (rule rep_elems [OF assms])
  then show ?thesis using contains_elems [OF xs(1,2), of e] by metis
qed

lemma rep_compare: "rep s A \<Longrightarrow> rep t B \<Longrightarrow> re_node_set_compare (Some s) (Some t) = Some (A = B)"
  by (auto simp: rep_def compare_elems) (metis set_sorted_list_of_set)+

lemma rep_copy: "rep s A \<Longrightarrow> \<exists>t. re_node_set_init_copy True s = Some (REG_NOERROR, t) \<and> rep t A"
  using init_copy_elems by (auto simp: rep_def)

lemma asc_without: "asc (us @ e # ws) \<Longrightarrow> asc (us @ ws) \<and> set (us @ ws) = set (us @ e # ws) - {e}"
  by (auto simp: sorted_wrt_append)

lemma rep_remove:
  assumes "rep s A"
  shows "\<exists>s'. re_node_set_remove s e = Some s' \<and> rep s' (A - {e})"
proof -
  obtain xs where xs: "elems_of s xs" "asc xs" "sorted xs" "set xs = A" by (rule rep_elems [OF assms])
  obtain k where k: "re_node_set_contains s e = Some k" "k = 0 \<longleftrightarrow> e \<notin> set xs" "k \<noteq> 0 \<longrightarrow> k \<le> length xs \<and> xs ! (k - 1) = e"
    by (rule contains_elems [OF xs(1,3)])
  show ?thesis
  proof (cases "e \<in> A")
    case True
    then have kl: "k - 1 < length xs" "int k - 1 = int (k - 1)" "xs ! (k - 1) = e" using k xs(4) by auto
    have split: "xs = take (k - 1) xs @ e # drop k xs"
      using kl k(2) True xs(4) by (metis Suc_pred' append_take_drop_id Cons_nth_drop_Suc bot_nat_0.not_eq_extremum)
    obtain s' where s': "re_node_set_remove_at s (int (k - 1)) = Some s'" "elems_of s' (take (k - 1) xs @ drop (k - 1 + 1) xs)"
      using remove_at_elems [OF xs(1) kl(1)] by blast
    have "k - 1 + 1 = k" using k(2) True xs(4) by auto
    then have el: "elems_of s' (take (k - 1) xs @ drop k xs)" using s'(2) by (simp only:)
    have "asc (take (k - 1) xs @ drop k xs) \<and> set (take (k - 1) xs @ drop k xs) = A - {e}"
      using asc_without [of "take (k - 1) xs" e "drop k xs"] xs(2,4) unfolding split [symmetric] by blast
    then have "rep s' (A - {e})" using repI [OF el] by blast
    moreover have "re_node_set_remove s e = re_node_set_remove_at s (int k - 1)" by (simp add: re_node_set_remove_def k(1))
    then have "re_node_set_remove s e = Some s'" by (simp only: kl(2) s'(1))
    ultimately show ?thesis by blast
  next
    case False
    then have "k = 0" using k(2) xs(4) by simp
    then show ?thesis using k(1) assms False by (simp add: re_node_set_remove_def re_node_set_remove_at_def)
  qed
qed

lemma rep_init_1: "rep (snd (re_node_set_init_1 True e)) {e}"
  using init_1_elems [of e "snd (re_node_set_init_1 True e)"] by (intro repI [of _ "[e]"]) (auto simp: re_node_set_init_1_def)

lemma rep_merge:
  assumes "rep s A" and "rep t B"
  shows "\<exists>u. re_node_set_merge True s (Some t) = Some (REG_NOERROR, u) \<and> rep u (A \<union> B)"
proof -
  obtain xs ys where "elems_of s xs" "asc xs" "set xs = A" "elems_of t ys" "asc ys" "set ys = B"
    using rep_elems [OF assms(1)] rep_elems [OF assms(2)] by metis
  then show ?thesis using merge_elems [of s xs t ys] repI by metis
qed

lemma rep_add_intersect:
  assumes "rep d D" and "rep s A" and "rep t B"
  shows "\<exists>u. re_node_set_add_intersect True d s t = Some (REG_NOERROR, u) \<and> rep u (D \<union> A \<inter> B)"
proof -
  obtain ds xs ys where "elems_of d ds" "asc ds" "set ds = D" "elems_of s xs" "asc xs" "set xs = A" "elems_of t ys" "asc ys" "set ys = B"
    using rep_elems [OF assms(1)] rep_elems [OF assms(2)] rep_elems [OF assms(3)] by metis
  then show ?thesis using add_intersect_elems [of d ds s xs t ys] repI by metis
qed

lemma rep_some_elems: "rep s A \<Longrightarrow> some_elems (Some s) \<longleftrightarrow> A \<noteq> {}"
  by (auto simp: rep_def some_elems_def elems_of_def)

lemma rep_init_union:
  assumes "rep s A" and "rep t B"
  shows "\<exists>u. re_node_set_init_union True dest (Some s) (Some t) = Some (REG_NOERROR, u) \<and> rep u (A \<union> B)"
proof -
  note some = rep_some_elems [OF assms(1)] rep_some_elems [OF assms(2)]
  obtain xs ys where e: "elems_of s xs" "asc xs" "set xs = A" "elems_of t ys" "asc ys" "set ys = B"
    using rep_elems [OF assms(1)] rep_elems [OF assms(2)] by metis
  consider (both) "A \<noteq> {}" "B \<noteq> {}" | (first) "B = {}" "A \<noteq> {}" | (second) "A = {}" "B \<noteq> {}" | (none) "A = {}" "B = {}" by blast
  then show ?thesis
  proof cases
    case both
    then have "xs \<noteq> []" "ys \<noteq> []" using e by auto
    from union_sets_elems [OF e(1,4) this] obtain u where u: "union_sets True dest s t = Some (REG_NOERROR, u)" "elems_of u (set_merge xs ys)" by blast
    have "rep u (A \<union> B)" using repI [OF u(2) asc_set_merge [OF e(2,5)]] e(3,6) by (simp add: set_set_merge)
    then show ?thesis using u(1) both some by (simp add: re_node_set_init_union_def)
  next
    case first
    then show ?thesis using some rep_copy [OF assms(1)] by (auto simp: re_node_set_init_union_def)
  next
    case second
    then show ?thesis using some rep_copy [OF assms(2)] by (auto simp: re_node_set_init_union_def)
  next
    case none
    then show ?thesis using some by (simp add: re_node_set_init_union_def rep_def)
  qed
qed

section \<open>The interface of finite sets\<close>

text \<open>
  What the compiler and the matcher of regular expressions need of node sets: membership, equality
  and unions of many sets, as in the closures of epsilon transitions.
\<close>

locale finite_sets =
  fixes repr :: "'s \<Rightarrow> int set \<Rightarrow> bool" and single :: "int \<Rightarrow> 's"
    and member :: "'s \<Rightarrow> int \<Rightarrow> bool option" and same :: "'s \<Rightarrow> 's \<Rightarrow> bool option" and unite :: "'s \<Rightarrow> 's \<Rightarrow> 's option"
  assumes repr_single: "repr (single e) {e}"
    and repr_member: "repr s A \<Longrightarrow> member s e = Some (e \<in> A)"
    and repr_same: "repr s A \<Longrightarrow> repr t B \<Longrightarrow> same s t = Some (A = B)"
    and repr_unite: "repr s A \<Longrightarrow> repr t B \<Longrightarrow> \<exists>u. unite s t = Some u \<and> repr u (A \<union> B)"
begin

fun unite_all :: "'s \<Rightarrow> 's list \<Rightarrow> 's option" where
  "unite_all s [] = Some s"
| "unite_all s (t # ts) = Option.bind (unite s t) (\<lambda>u. unite_all u ts)"

lemma repr_unite_all:
  "repr s A \<Longrightarrow> list_all2 repr ts Bs \<Longrightarrow> \<exists>u. unite_all s ts = Some u \<and> repr u (A \<union> \<Union> (set Bs))"
proof (induction ts arbitrary: s A Bs)
  case (Cons t ts)
  then obtain B Bs' where B: "Bs = B # Bs'" "repr t B" "list_all2 repr ts Bs'" by (auto simp: list_all2_Cons1)
  obtain u where u: "unite s t = Some u" "repr u (A \<union> B)" using repr_unite [OF Cons.prems(1) B(2)] by blast
  from Cons.IH [OF u(2) B(3)] show ?case using u(1) B(1) by (auto simp: Un_assoc)
qed simp

lemma unite_all_order:
  assumes "repr s A" and "list_all2 repr ts Bs" and "list_all2 repr ts' Bs'" and "set Bs = set Bs'"
    and "unite_all s ts = Some u" and "unite_all s ts' = Some u'"
  shows "same u u' = Some True"
  using repr_unite_all [OF assms(1,2)] repr_unite_all [OF assms(1,3)] assms(4-6) repr_same by fastforce

end

interpretation nodes: finite_sets rep "\<lambda>e. snd (re_node_set_init_1 True e)"
  "\<lambda>s e. map_option (\<lambda>k. k \<noteq> 0) (re_node_set_contains s e)"
  "\<lambda>s t. re_node_set_compare (Some s) (Some t)"
  "\<lambda>s t. map_option snd (re_node_set_merge True s (Some t))"
proof
  show "rep (snd (re_node_set_init_1 True e)) {e}" for e by (rule rep_init_1)
  show "map_option (\<lambda>k. k \<noteq> 0) (re_node_set_contains s e) = Some (e \<in> A)" if "rep s A" for s A e
    using rep_contains [OF that, of e] by auto
  show "re_node_set_compare (Some s) (Some t) = Some (A = B)" if "rep s A" "rep t B" for s A t B
    by (rule rep_compare [OF that])
  show "\<exists>u. map_option snd (re_node_set_merge True s (Some t)) = Some u \<and> rep u (A \<union> B)" if "rep s A" "rep t B" for s A t B
    using rep_merge [OF that] by auto
qed

section \<open>Properties\<close>

text \<open>
  C10. The node sets of the regular expression engine, with memory granted, implement finite sets of
  integers. No operation leaves its blocks, and a copy, union, merge, added intersection,
  removal, search or comparison computes what the operation on sets says; inserting an element that
  is not there yet adds it.
\<close>
theorem node_sets_refine_sets:
  assumes "rep s A" and "rep t B" and "rep d D"
  shows "(\<exists>u. re_node_set_init_copy True s = Some (REG_NOERROR, u) \<and> rep u A) \<and>
    (\<exists>u. re_node_set_init_union True d (Some s) (Some t) = Some (REG_NOERROR, u) \<and> rep u (A \<union> B)) \<and>
    (\<exists>u. re_node_set_merge True s (Some t) = Some (REG_NOERROR, u) \<and> rep u (A \<union> B)) \<and>
    (\<exists>u. re_node_set_add_intersect True d s t = Some (REG_NOERROR, u) \<and> rep u (D \<union> A \<inter> B)) \<and>
    (\<exists>u. re_node_set_remove s e = Some u \<and> rep u (A - {e})) \<and>
    (\<exists>k. re_node_set_contains s e = Some k \<and> (k \<noteq> 0 \<longleftrightarrow> e \<in> A)) \<and>
    re_node_set_compare (Some s) (Some t) = Some (A = B) \<and>
    (e \<notin> A \<longrightarrow> (\<exists>u. re_node_set_insert True s e = Some (1, u) \<and> rep u (insert e A)))"
proof (intro conjI impI)
  show "\<exists>u. re_node_set_init_copy True s = Some (REG_NOERROR, u) \<and> rep u A" by (rule rep_copy [OF assms(1)])
  show "\<exists>u. re_node_set_init_union True d (Some s) (Some t) = Some (REG_NOERROR, u) \<and> rep u (A \<union> B)"
    by (rule rep_init_union [OF assms(1,2)])
  show "\<exists>u. re_node_set_merge True s (Some t) = Some (REG_NOERROR, u) \<and> rep u (A \<union> B)" by (rule rep_merge [OF assms(1,2)])
  show "\<exists>u. re_node_set_add_intersect True d s t = Some (REG_NOERROR, u) \<and> rep u (D \<union> A \<inter> B)"
    by (rule rep_add_intersect [OF assms(3,1,2)])
  show "\<exists>u. re_node_set_remove s e = Some u \<and> rep u (A - {e})" by (rule rep_remove [OF assms(1)])
  show "\<exists>k. re_node_set_contains s e = Some k \<and> (k \<noteq> 0 \<longleftrightarrow> e \<in> A)" by (rule rep_contains [OF assms(1)])
  show "re_node_set_compare (Some s) (Some t) = Some (A = B)" by (rule rep_compare [OF assms(1,2)])
  show "e \<notin> A \<Longrightarrow> \<exists>u. re_node_set_insert True s e = Some (1, u) \<and> rep u (insert e A)" by (rule rep_insert [OF assms(1)])
qed

lemma node_sets_refine_sets_witness:
  "\<exists>u. re_node_set_add_intersect True (snd (re_node_set_init_1 True 3)) (snd (re_node_set_init_1 True 5)) (snd (re_node_set_init_1 True 5))
      = Some (REG_NOERROR, u) \<and> rep u {3, 5}"
  using node_sets_refine_sets [OF rep_init_1 [of 5] rep_init_1 [of 5] rep_init_1 [of 3]] by (auto simp: insert_commute)

text \<open>
  Merging sets one after the other gives equal sets in whatever order they come, so the closures
  the compiler builds do not depend on the order in which it visits the nodes.
\<close>
theorem merge_order_irrelevant:
  assumes "rep s A" and "rep t B" and "rep u C"
  shows "\<exists>st su x y. re_node_set_merge True s (Some t) = Some (REG_NOERROR, st) \<and> re_node_set_merge True st (Some u) = Some (REG_NOERROR, x) \<and>
    re_node_set_merge True s (Some u) = Some (REG_NOERROR, su) \<and> re_node_set_merge True su (Some t) = Some (REG_NOERROR, y) \<and>
    re_node_set_compare (Some x) (Some y) = Some True"
proof -
  obtain st where st: "re_node_set_merge True s (Some t) = Some (REG_NOERROR, st)" "rep st (A \<union> B)"
    using rep_merge [OF assms(1,2)] by blast
  obtain su where su: "re_node_set_merge True s (Some u) = Some (REG_NOERROR, su)" "rep su (A \<union> C)"
    using rep_merge [OF assms(1,3)] by blast
  obtain x where x: "re_node_set_merge True st (Some u) = Some (REG_NOERROR, x)" using rep_merge [OF st(2) assms(3)] by blast
  obtain y where y: "re_node_set_merge True su (Some t) = Some (REG_NOERROR, y)" using rep_merge [OF su(2) assms(2)] by blast
  have "nodes.unite_all s [t, u] = Some x" "nodes.unite_all s [u, t] = Some y" using st(1) su(1) x y by simp_all
  then have "re_node_set_compare (Some x) (Some y) = Some True"
    using nodes.unite_all_order [OF assms(1), of "[t, u]" "[B, C]" "[u, t]" "[C, B]"] assms(2,3) by auto
  then show ?thesis using st(1) su(1) x y by blast
qed

lemma merge_order_irrelevant_witness:
  "\<exists>st su x y. re_node_set_merge True (snd (re_node_set_init_1 True 7)) (Some (snd (re_node_set_init_1 True 2))) = Some (REG_NOERROR, st) \<and>
    re_node_set_merge True st (Some (snd (re_node_set_init_1 True 4))) = Some (REG_NOERROR, x) \<and>
    re_node_set_merge True (snd (re_node_set_init_1 True 7)) (Some (snd (re_node_set_init_1 True 4))) = Some (REG_NOERROR, su) \<and>
    re_node_set_merge True su (Some (snd (re_node_set_init_1 True 2))) = Some (REG_NOERROR, y) \<and>
    re_node_set_compare (Some x) (Some y) = Some True"
  by (rule merge_order_irrelevant [OF rep_init_1 rep_init_1 rep_init_1])

text \<open>
  C39. Inserting an element a set has already does not return 0 as the comment in front of
  \<^verbatim>\<open>re_node_set_insert\<close> says: it stores the element a second time, returns 1, and the set no
  longer compares equal to what it was.
\<close>
theorem insert_keeps_duplicates:
  assumes "rep s A" and "e \<in> A"
  shows "\<exists>u. re_node_set_insert True s e = Some (1, u) \<and> ns_nelem u = ns_nelem s + 1 \<and>
    re_node_set_compare (Some s) (Some u) = Some False"
proof -
  obtain xs where xs: "elems_of s xs" "sorted xs" by (rule rep_elems [OF assms(1)])
  obtain u where u: "re_node_set_insert True s e = Some (1, u)" "elems_of u (insort e xs)" using insert_elems [OF xs] by blast
  have "xs \<noteq> insort e xs" by (metis length_insort n_not_Suc_n)
  then show ?thesis using u compare_elems [OF xs(1) u(2)] xs(1) by (simp add: elems_of_def)
qed

lemma insert_keeps_duplicates_witness:
  "\<exists>u. re_node_set_insert True (snd (re_node_set_init_1 True 5)) 5 = Some (1, u) \<and>
    ns_nelem u = ns_nelem (snd (re_node_set_init_1 True 5)) + 1 \<and>
    re_node_set_compare (Some (snd (re_node_set_init_1 True 5))) (Some u) = Some False"
  by (rule insert_keeps_duplicates [OF rep_init_1]) simp

text \<open>
  A set whose growth was refused records the larger size all the same: the next insertion takes
  the block to be large enough and writes past its end.
\<close>
theorem insert_after_refusal:
  assumes "rep s A" and "A \<noteq> {}" and "ns_alloc s = ns_nelem s"
  shows "\<exists>u. re_node_set_insert False s e = Some (- 1, u) \<and> re_node_set_insert ok u e' = None"
proof -
  obtain xs where xs: "elems_of s xs" "sorted xs" "set xs = A" by (rule rep_elems [OF assms(1)])
  then obtain b where b: "ns_elems s = Some b" "holds b xs" "length b = ns_alloc s" "ns_nelem s = length xs"
    using elems_of_block [OF xs(1)] assms(2) by auto
  have pos: "0 < length xs" using xs(3) assms(2) by auto
  have search: "\<exists>k. bsearch b v 0 (length xs) = Some k \<and> k \<le> length xs" for v
    using bsearch_spec [OF b(2) xs(2), of 0 "length xs" v] by auto
  obtain k where k: "bsearch b e 0 (length xs) = Some k" using search by blast
  obtain k' where k': "bsearch b e' 0 (length xs) = Some k'" "k' \<le> length xs" using search by blast
  let ?u = "s\<lparr>ns_alloc := ns_alloc s * 2\<rparr>"
  have "re_node_set_insert False s e = Some (- 1, ?u)"
    using b assms(3) pos k by (simp add: re_node_set_insert_def)
  moreover have "cells_copy b (k' + 1) b k' (length xs - k') = None"
    using b(3,4) assms(3) k'(2) by (simp add: cells_copy_def)
  then have "re_node_set_insert ok ?u e' = None"
    using b assms(3) pos k'(1) by (simp add: re_node_set_insert_def)
  ultimately show ?thesis by blast
qed

lemma insert_after_refusal_witness:
  "\<exists>u. re_node_set_insert False (snd (re_node_set_init_1 True 5)) 6 = Some (- 1, u) \<and> re_node_set_insert True u 7 = None"
  by (rule insert_after_refusal [OF rep_init_1]) (simp_all add: re_node_set_init_1_def)

end
