(* ===== verification/Dfa_State.thy ===== *)
theory Dfa_State
  imports Node_Set_Laws "HOL-Library.Word"
begin

text \<open>
  The states of the automaton in \<^verbatim>\<open>src/sv_regex/regex_internal.c\<close>: nodes of the compiled expression are
  tokens, a state is a set of node numbers, and a hash table finds the state that a set has already.
  A pointer to a state is its index in \<open>dfa_heap\<close>, where a freed state is \<open>None\<close>; the outcome \<open>None\<close> of an
  operation is an access outside a block, to a freed one or to a member of a union that is not the one
  stored. The engine is the one with characters of several bytes (\<^verbatim>\<open>RE_ENABLE_I18N\<close>). Of the automaton, the
  record has the nodes, their edges and the table; the transition tables of a state, which the matcher
  fills, are left out. Lemmas: a well-formed table stays so and only grows, and what a new state stands for.
\<close>

unbundle bit_operations_syntax

section \<open>Tokens\<close>

datatype re_token_type_t =
    NON_TYPE
  | OP_OPEN_BRACKET | OP_CLOSE_BRACKET | OP_CHARSET_RANGE | OP_OPEN_DUP_NUM | OP_CLOSE_DUP_NUM
  | OP_NON_MATCH_LIST | OP_OPEN_COLL_ELEM | OP_CLOSE_COLL_ELEM | OP_OPEN_EQUIV_CLASS | OP_CLOSE_EQUIV_CLASS
  | OP_OPEN_CHAR_CLASS | OP_CLOSE_CHAR_CLASS | OP_WORD | OP_NOTWORD | BACK_SLASH
  | CONCAT | ALT | SUBEXP | SIMPLE_BRACKET | COMPLEX_BRACKET
  | OP_OPEN_SUBEXP | OP_CLOSE_SUBEXP | OP_PERIOD | CHARACTER | END_OF_RE | OP_ALT | OP_DUP_ASTERISK
  | OP_DUP_PLUS | OP_DUP_QUESTION | OP_BACK_REF | ANCHOR
  | END_OF_RE_TOKEN_T

text \<open>The union \<^verbatim>\<open>opr\<close>; the character set of a multibyte bracket is a number.\<close>

datatype token_opr =
    OprChar "8 word"
  | OprBitset "32 word list"
  | OprCharset nat
  | OprIndex int
  | OprContext "32 word"

record re_token_t =
  tok_opr :: token_opr
  tok_type :: re_token_type_t
  tok_constraint :: "10 word"
  tok_duplicated :: bool
  tok_mb_partial :: bool

definition opr_ctx_type :: "re_token_t \<Rightarrow> 32 word option" where
  "opr_ctx_type t = (case tok_opr t of OprContext c \<Rightarrow> Some c | _ \<Rightarrow> None)"

text \<open>Constraints of a node on the context in front of it, and contexts.\<close>

definition PREV_WORD_CONSTRAINT :: "32 word" where "PREV_WORD_CONSTRAINT = 0x0001"
definition PREV_NOTWORD_CONSTRAINT :: "32 word" where "PREV_NOTWORD_CONSTRAINT = 0x0002"
definition PREV_NEWLINE_CONSTRAINT :: "32 word" where "PREV_NEWLINE_CONSTRAINT = 0x0010"
definition PREV_BEGBUF_CONSTRAINT :: "32 word" where "PREV_BEGBUF_CONSTRAINT = 0x0040"

definition CONTEXT_WORD :: "32 word" where "CONTEXT_WORD = 1"
definition CONTEXT_NEWLINE :: "32 word" where "CONTEXT_NEWLINE = push_bit 1 CONTEXT_WORD"
definition CONTEXT_BEGBUF :: "32 word" where "CONTEXT_BEGBUF = push_bit 1 CONTEXT_NEWLINE"
definition CONTEXT_ENDBUF :: "32 word" where "CONTEXT_ENDBUF = push_bit 1 CONTEXT_BEGBUF"

definition NOT_SATISFY_PREV_CONSTRAINT :: "32 word \<Rightarrow> 32 word \<Rightarrow> bool" where
  "NOT_SATISFY_PREV_CONSTRAINT constraint ctx \<longleftrightarrow>
     (constraint AND PREV_WORD_CONSTRAINT \<noteq> 0 \<and> ctx AND CONTEXT_WORD = 0) \<or>
     (constraint AND PREV_NOTWORD_CONSTRAINT \<noteq> 0 \<and> ctx AND CONTEXT_WORD \<noteq> 0) \<or>
     (constraint AND PREV_NEWLINE_CONSTRAINT \<noteq> 0 \<and> ctx AND CONTEXT_NEWLINE = 0) \<or>
     (constraint AND PREV_BEGBUF_CONSTRAINT \<noteq> 0 \<and> ctx AND CONTEXT_BEGBUF = 0)"

section \<open>The automaton\<close>

text \<open>
  A state; \<open>st_entrance\<close> is \<open>None\<close> where \<^verbatim>\<open>entrance_nodes\<close> points to \<^verbatim>\<open>nodes\<close> of the state itself. The context is
  a field of two bits.
\<close>

record re_dfastate_t =
  st_hash :: "32 word"
  st_nodes :: re_node_set
  st_entrance :: "re_node_set option"
  st_context :: "2 word"
  st_halt :: bool
  st_accept_mb :: bool
  st_has_backref :: bool
  st_has_constraint :: bool

definition entrance_nodes :: "re_dfastate_t \<Rightarrow> re_node_set" where
  "entrance_nodes st = (case st_entrance st of None \<Rightarrow> st_nodes st | Some s \<Rightarrow> s)"

record re_state_table_entry =
  te_num :: nat
  te_alloc :: nat
  te_array :: "nat cells option"

text \<open>An array of the automaton: \<^verbatim>\<open>NULL\<close>, a pointer to a block that was moved away, or a block.\<close>

datatype 'a arr = Null | Gone | Arr "'a cells"

record re_dfa_t =
  dfa_nodes_alloc :: nat
  dfa_nodes_len :: nat
  dfa_nodes :: "re_token_t arr"
  dfa_nexts :: "int arr"
  dfa_org_indices :: "int arr"
  dfa_edests :: "re_node_set arr"
  dfa_eclosures :: "re_node_set arr"
  dfa_inveclosures :: "re_node_set arr"
  dfa_state_table :: "re_state_table_entry list"
  dfa_state_hash_mask :: "32 word"
  dfa_heap :: "re_dfastate_t option list"

section \<open>Adding a node\<close>

text \<open>\<^verbatim>\<open>realloc\<close>: what it returns (\<open>None\<close> for \<^verbatim>\<open>NULL\<close>) and what the old pointer is worth afterwards.\<close>

definition arr_realloc :: "bool \<Rightarrow> 'a arr \<Rightarrow> nat \<Rightarrow> ('a cells option \<times> 'a arr) option" where
  "arr_realloc ok p n =
     (case p of
        Gone \<Rightarrow> None
      | Null \<Rightarrow> Some (if ok then Some (replicate n None) else None, Null)
      | Arr b \<Rightarrow> Some (if ok then (Some (cells_realloc (Some b) n), Gone) else (None, Arr b)))"

definition arr_write :: "'a arr \<Rightarrow> nat \<Rightarrow> 'a \<Rightarrow> 'a arr option" where
  "arr_write p i v = (case p of Arr b \<Rightarrow> map_option Arr (cells_write b i v) | _ \<Rightarrow> None)"

definition arr_read :: "'a arr \<Rightarrow> nat \<Rightarrow> 'a option" where
  "arr_read p i = (case p of Arr b \<Rightarrow> cells_read b i | _ \<Rightarrow> None)"

text \<open>The answers of the allocator for the six arrays.\<close>

record node_allocs =
  na_nodes :: bool
  na_nexts :: bool
  na_indices :: bool
  na_edests :: bool
  na_eclosures :: bool
  na_inveclosures :: bool

text \<open>The five arrays that grow with \<^verbatim>\<open>mode\<close>; they are assigned only when all have been granted.\<close>

definition grow_edges :: "node_allocs \<Rightarrow> re_dfa_t \<Rightarrow> (bool \<times> re_dfa_t) option" where
  "grow_edges al dfa =
     do {
       let n = dfa_nodes_alloc dfa;
       (nexts, old_nexts) \<leftarrow> arr_realloc (na_nexts al) (dfa_nexts dfa) n;
       (indices, old_indices) \<leftarrow> arr_realloc (na_indices al) (dfa_org_indices dfa) n;
       (edests, old_edests) \<leftarrow> arr_realloc (na_edests al) (dfa_edests dfa) n;
       (eclosures, old_eclosures) \<leftarrow> arr_realloc (na_eclosures al) (dfa_eclosures dfa) n;
       (inveclosures, old_inveclosures) \<leftarrow> arr_realloc (na_inveclosures al) (dfa_inveclosures dfa) n;
       Some (case (nexts, indices, edests, eclosures, inveclosures) of
           (Some a, Some b, Some c, Some d, Some e) \<Rightarrow>
             (True, dfa\<lparr>dfa_nexts := Arr a, dfa_org_indices := Arr b, dfa_edests := Arr c, dfa_eclosures := Arr d,
                dfa_inveclosures := Arr e\<rparr>)
         | _ \<Rightarrow>
             (False, dfa\<lparr>dfa_nexts := old_nexts, dfa_org_indices := old_indices, dfa_edests := old_edests,
                dfa_eclosures := old_eclosures, dfa_inveclosures := old_inveclosures\<rparr>))
     }"

definition re_dfa_add_node :: "node_allocs \<Rightarrow> re_dfa_t \<Rightarrow> re_token_t \<Rightarrow> bool \<Rightarrow> (int \<times> re_dfa_t) option" where
  "re_dfa_add_node al dfa tok mode =
     do {
       (ok, dfa) \<leftarrow>
         (if dfa_nodes_len dfa \<ge> dfa_nodes_alloc dfa
          then do {
            let dfa = dfa\<lparr>dfa_nodes_alloc := dfa_nodes_alloc dfa * 2\<rparr>;
            (new_array, old) \<leftarrow> arr_realloc (na_nodes al) (dfa_nodes dfa) (dfa_nodes_alloc dfa);
            (case new_array of
               None \<Rightarrow> Some (False, dfa\<lparr>dfa_nodes := old\<rparr>)
             | Some b \<Rightarrow> (let dfa = dfa\<lparr>dfa_nodes := Arr b\<rparr> in if mode then grow_edges al dfa else Some (True, dfa)))
          }
          else Some (True, dfa));
       (if \<not> ok then Some (- 1, dfa)
        else do {
          nodes \<leftarrow> arr_write (dfa_nodes dfa) (dfa_nodes_len dfa) (tok\<lparr>tok_duplicated := False, tok_constraint := 0\<rparr>);
          Some (int (dfa_nodes_len dfa), dfa\<lparr>dfa_nodes := nodes, dfa_nodes_len := dfa_nodes_len dfa + 1\<rparr>)
        })
     }"

section \<open>The hash table of states\<close>

fun hash_loop :: "int cells \<Rightarrow> nat \<Rightarrow> nat \<Rightarrow> 32 word \<Rightarrow> 32 word option" where
  "hash_loop b i 0 h = Some h"
| "hash_loop b i (Suc n) h = do { x \<leftarrow> cells_read b i; hash_loop b (i + 1) n (h + word_of_int x) }"

definition calc_state_hash :: "re_node_set \<Rightarrow> 32 word \<Rightarrow> 32 word option" where
  "calc_state_hash nodes ctx =
     (let h = of_nat (ns_nelem nodes) + ctx
      in if ns_nelem nodes = 0 then Some h else do { b \<leftarrow> ns_elems nodes; hash_loop b 0 (ns_nelem nodes) h })"

definition spot_of :: "re_dfa_t \<Rightarrow> 32 word \<Rightarrow> nat" where
  "spot_of dfa hash = unat (hash AND dfa_state_hash_mask dfa)"

definition spot_at :: "re_dfa_t \<Rightarrow> 32 word \<Rightarrow> re_state_table_entry option" where
  "spot_at dfa hash =
     (if spot_of dfa hash < length (dfa_state_table dfa) then Some (dfa_state_table dfa ! spot_of dfa hash) else None)"

definition state_at :: "re_dfa_t \<Rightarrow> nat \<Rightarrow> re_dfastate_t option" where
  "state_at dfa p = (if p < length (dfa_heap dfa) then dfa_heap dfa ! p else None)"

text \<open>The loop over the states of a spot, with the test of the function that searches.\<close>

fun find_state :: "re_dfa_t \<Rightarrow> 32 word \<Rightarrow> (re_dfastate_t \<Rightarrow> bool option) \<Rightarrow> nat cells \<Rightarrow> nat \<Rightarrow> nat \<Rightarrow> nat option option" where
  "find_state dfa hash same b i 0 = Some None"
| "find_state dfa hash same b i (Suc n) =
     do {
       p \<leftarrow> cells_read b i;
       st \<leftarrow> state_at dfa p;
       hit \<leftarrow> (if hash \<noteq> st_hash st then Some False else same st);
       (if hit then Some (Some p) else find_state dfa hash same b (i + 1) n)
     }"

definition search_spot :: "re_dfa_t \<Rightarrow> 32 word \<Rightarrow> (re_dfastate_t \<Rightarrow> bool option) \<Rightarrow> nat option option" where
  "search_spot dfa hash same =
     do {
       spot \<leftarrow> spot_at dfa hash;
       (if te_num spot = 0 then Some None
        else do { b \<leftarrow> te_array spot; find_state dfa hash same b 0 (te_num spot) })
     }"

text \<open>The answers of the allocator for a new state.\<close>

record state_allocs =
  sa_state :: bool
  sa_nodes :: bool
  sa_entrance :: bool
  sa_entrance_nodes :: bool
  sa_table :: bool

definition create_newstate_common :: "state_allocs \<Rightarrow> re_node_set \<Rightarrow> 32 word \<Rightarrow> re_dfastate_t option option" where
  "create_newstate_common al nodes hash =
     (if \<not> sa_state al then Some None
      else do {
        (err, s) \<leftarrow> re_node_set_init_copy (sa_nodes al) nodes;
        Some (if err \<noteq> REG_NOERROR then None
          else Some \<lparr>st_hash = hash, st_nodes = s, st_entrance = None, st_context = 0, st_halt = False,
            st_accept_mb = False, st_has_backref = False, st_has_constraint = False\<rparr>)
      })"

text \<open>The result of \<^verbatim>\<open>register_state\<close>, for a state at the pointer \<open>p\<close>.\<close>

definition register_state :: "bool \<Rightarrow> re_dfa_t \<Rightarrow> nat \<Rightarrow> 32 word \<Rightarrow> (int \<times> re_dfa_t) option" where
  "register_state ok dfa p hash =
     do {
       spot \<leftarrow> spot_at dfa hash;
       let grow = te_alloc spot \<le> te_num spot;
       let spot = (if grow then spot\<lparr>te_alloc := 2 * te_num spot + 2\<rparr> else spot);
       let put = (\<lambda>spot. dfa\<lparr>dfa_state_table := (dfa_state_table dfa)[spot_of dfa hash := spot]\<rparr>);
       (if grow \<and> \<not> ok then Some (REG_ESPACE, put spot)
        else do {
          b \<leftarrow> (if grow then Some (cells_realloc (te_array spot) (te_alloc spot)) else te_array spot);
          b \<leftarrow> cells_write b (te_num spot) p;
          Some (REG_NOERROR, put (spot\<lparr>te_num := te_num spot + 1, te_array := Some b\<rparr>))
        })
     }"

text \<open>The blocks \<^verbatim>\<open>free_state\<close> frees.\<close>

definition free_state :: "re_dfastate_t \<Rightarrow> re_node_set list" where
  "free_state st = (case st_entrance st of None \<Rightarrow> [] | Some s \<Rightarrow> [s]) @ [st_nodes st]"

text \<open>The end of both functions that make a state: a state that cannot be registered is freed.\<close>

definition add_state :: "bool \<Rightarrow> re_dfa_t \<Rightarrow> re_dfastate_t \<Rightarrow> 32 word \<Rightarrow> (nat option \<times> re_dfa_t) option" where
  "add_state ok dfa st hash =
     do {
       let p = length (dfa_heap dfa);
       (err, dfa) \<leftarrow> register_state ok dfa p hash;
       Some (if err \<noteq> REG_NOERROR then (None, dfa\<lparr>dfa_heap := dfa_heap dfa @ [None]\<rparr>)
             else (Some p, dfa\<lparr>dfa_heap := dfa_heap dfa @ [Some st]\<rparr>))
     }"

section \<open>Making states\<close>

text \<open>What both functions note of a node; \<open>mb\<close> says that characters may have several bytes.\<close>

definition note_node :: "bool \<Rightarrow> re_token_type_t \<Rightarrow> re_dfastate_t \<Rightarrow> re_dfastate_t" where
  "note_node mb ty st =
     (if ty = END_OF_RE then st\<lparr>st_halt := True\<rparr>
      else if ty = COMPLEX_BRACKET \<or> ty = OP_PERIOD \<and> mb then st\<lparr>st_accept_mb := True\<rparr>
      else if ty = OP_BACK_REF then st\<lparr>st_has_backref := True\<rparr>
      else st)"

definition noted :: "bool \<Rightarrow> re_token_type_t \<Rightarrow> bool" where
  "noted mb ty \<longleftrightarrow> ty = END_OF_RE \<or> ty = COMPLEX_BRACKET \<or> ty = OP_PERIOD \<and> mb \<or> ty = OP_BACK_REF"

fun ci_loop :: "bool \<Rightarrow> re_dfa_t \<Rightarrow> re_node_set \<Rightarrow> nat \<Rightarrow> nat \<Rightarrow> re_dfastate_t \<Rightarrow> re_dfastate_t option" where
  "ci_loop mb dfa nodes i 0 st = Some st"
| "ci_loop mb dfa nodes i (Suc n) st =
     do {
       b \<leftarrow> ns_elems nodes;
       e \<leftarrow> cells_read b i;
       node \<leftarrow> arr_read (dfa_nodes dfa) (nat e);
       let ty = tok_type node;
       let st = (if ty = CHARACTER \<and> tok_constraint node = 0 then st
                 else if noted mb ty then note_node mb ty st
                 else if ty = ANCHOR \<or> tok_constraint node \<noteq> 0 then st\<lparr>st_has_constraint := True\<rparr>
                 else st);
       ci_loop mb dfa nodes (i + 1) n st
     }"

definition create_ci_newstate ::
  "state_allocs \<Rightarrow> bool \<Rightarrow> re_dfa_t \<Rightarrow> re_node_set \<Rightarrow> 32 word \<Rightarrow> (nat option \<times> re_dfa_t) option" where
  "create_ci_newstate al mb dfa nodes hash =
     do {
       newstate \<leftarrow> create_newstate_common al nodes hash;
       (case newstate of
          None \<Rightarrow> Some (None, dfa)
        | Some st \<Rightarrow> do { st \<leftarrow> ci_loop mb dfa nodes 0 (ns_nelem nodes) st; add_state (sa_table al) dfa st hash })
     }"

text \<open>
  The loop of \<^verbatim>\<open>create_cd_newstate\<close>. When no memory is left for \<^verbatim>\<open>entrance_nodes\<close>, the state is freed with that
  \<^verbatim>\<open>NULL\<close>, which \<^verbatim>\<open>free_state\<close> follows; whether their copy succeeds is not looked at.
\<close>

fun cd_loop ::
  "state_allocs \<Rightarrow> bool \<Rightarrow> re_dfa_t \<Rightarrow> re_node_set \<Rightarrow> 32 word \<Rightarrow> nat \<Rightarrow> nat \<Rightarrow> nat \<Rightarrow> re_dfastate_t \<Rightarrow> re_dfastate_t option" where
  "cd_loop al mb dfa nodes ctx i 0 nctx_nodes st = Some st"
| "cd_loop al mb dfa nodes ctx i (Suc n) nctx_nodes st =
     do {
       b \<leftarrow> ns_elems nodes;
       e \<leftarrow> cells_read b i;
       node \<leftarrow> arr_read (dfa_nodes dfa) (nat e);
       let ty = tok_type node;
       (if ty = CHARACTER \<and> tok_constraint node = 0 then cd_loop al mb dfa nodes ctx (i + 1) n nctx_nodes st
        else do {
          let st = note_node mb ty st;
          constraint \<leftarrow> (if ty = ANCHOR then opr_ctx_type node else Some (ucast (tok_constraint node)));
          (if constraint = 0 then cd_loop al mb dfa nodes ctx (i + 1) n nctx_nodes st
           else if st_entrance st = None \<and> \<not> sa_entrance al then None
           else do {
             (st, nctx_nodes) \<leftarrow>
               (if st_entrance st = None
                then do {
                  (_, s) \<leftarrow> re_node_set_init_copy (sa_entrance_nodes al) nodes;
                  Some (st\<lparr>st_entrance := Some s, st_has_constraint := True\<rparr>, 0)
                }
                else Some (st, nctx_nodes));
             (if NOT_SATISFY_PREV_CONSTRAINT constraint ctx
              then do {
                s \<leftarrow> re_node_set_remove_at (st_nodes st) (int i - int nctx_nodes);
                cd_loop al mb dfa nodes ctx (i + 1) n (nctx_nodes + 1) (st\<lparr>st_nodes := s\<rparr>)
              }
              else cd_loop al mb dfa nodes ctx (i + 1) n nctx_nodes st)
           })
        })
     }"

definition create_cd_newstate ::
  "state_allocs \<Rightarrow> bool \<Rightarrow> re_dfa_t \<Rightarrow> re_node_set \<Rightarrow> 32 word \<Rightarrow> 32 word \<Rightarrow> (nat option \<times> re_dfa_t) option" where
  "create_cd_newstate al mb dfa nodes ctx hash =
     do {
       newstate \<leftarrow> create_newstate_common al nodes hash;
       (case newstate of
          None \<Rightarrow> Some (None, dfa)
        | Some st \<Rightarrow>
            do {
              st \<leftarrow> cd_loop al mb dfa nodes ctx 0 (ns_nelem nodes) 0 (st\<lparr>st_context := ucast ctx\<rparr>);
              add_state (sa_table al) dfa st hash
            })
     }"

section \<open>Acquiring states\<close>

text \<open>The result: the error code \<^verbatim>\<open>*err\<close>, where it is set, and the pointer.\<close>

definition re_acquire_state ::
  "state_allocs \<Rightarrow> bool \<Rightarrow> re_dfa_t \<Rightarrow> re_node_set \<Rightarrow> ((int option \<times> nat option) \<times> re_dfa_t) option" where
  "re_acquire_state al mb dfa nodes =
     (if ns_nelem nodes = 0 then Some ((Some REG_NOERROR, None), dfa)
      else do {
        hash \<leftarrow> calc_state_hash nodes 0;
        found \<leftarrow> search_spot dfa hash (\<lambda>st. re_node_set_compare (Some (st_nodes st)) (Some nodes));
        (case found of
           Some p \<Rightarrow> Some ((None, Some p), dfa)
         | None \<Rightarrow>
             do {
               (new, dfa) \<leftarrow> create_ci_newstate al mb dfa nodes hash;
               Some ((if new = None then Some REG_ESPACE else None, new), dfa)
             })
      })"

definition re_acquire_state_context ::
  "state_allocs \<Rightarrow> bool \<Rightarrow> re_dfa_t \<Rightarrow> re_node_set \<Rightarrow> 32 word \<Rightarrow> ((int option \<times> nat option) \<times> re_dfa_t) option" where
  "re_acquire_state_context al mb dfa nodes ctx =
     (if ns_nelem nodes = 0 then Some ((Some REG_NOERROR, None), dfa)
      else do {
        hash \<leftarrow> calc_state_hash nodes ctx;
        found \<leftarrow> search_spot dfa hash (\<lambda>st.
          map_option (\<lambda>b. b \<and> ucast (st_context st) = ctx)
            (re_node_set_compare (Some (entrance_nodes st)) (Some nodes)));
        (case found of
           Some p \<Rightarrow> Some ((None, Some p), dfa)
         | None \<Rightarrow>
             do {
               (new, dfa) \<leftarrow> create_cd_newstate al mb dfa nodes ctx hash;
               Some ((if new = None then Some REG_ESPACE else None, new), dfa)
             })
      })"

section \<open>What a state stands for\<close>

text \<open>The token of a node, and the constraint that the node puts on the context in front of it.\<close>

definition node_token :: "re_dfa_t \<Rightarrow> int \<Rightarrow> re_token_t option" where
  "node_token dfa e = arr_read (dfa_nodes dfa) (nat e)"

definition token_constraint :: "re_token_t \<Rightarrow> 32 word option" where
  "token_constraint t =
     (if tok_type t = CHARACTER \<and> tok_constraint t = 0 then Some 0
      else if tok_type t = ANCHOR then opr_ctx_type t else Some (ucast (tok_constraint t)))"

definition nodes_known :: "re_dfa_t \<Rightarrow> int set \<Rightarrow> bool" where
  "nodes_known dfa A \<longleftrightarrow> (\<forall>e \<in> A. \<exists>t c. node_token dfa e = Some t \<and> token_constraint t = Some c)"

definition constraint_of :: "re_dfa_t \<Rightarrow> int \<Rightarrow> 32 word" where
  "constraint_of dfa e = the (token_constraint (the (node_token dfa e)))"

definition type_of :: "re_dfa_t \<Rightarrow> int \<Rightarrow> re_token_type_t" where
  "type_of dfa e = tok_type (the (node_token dfa e))"

text \<open>The nodes that remain in the context, among those the loop has seen.\<close>

definition remaining :: "re_dfa_t \<Rightarrow> 32 word \<Rightarrow> int set \<Rightarrow> int set" where
  "remaining dfa ctx A = {e \<in> A. \<not> NOT_SATISFY_PREV_CONSTRAINT (constraint_of dfa e) ctx}"

definition flags_noted :: "re_dfa_t \<Rightarrow> bool \<Rightarrow> int set \<Rightarrow> re_dfastate_t \<Rightarrow> bool" where
  "flags_noted dfa mb A st \<longleftrightarrow>
     (st_halt st \<longleftrightarrow> END_OF_RE \<in> type_of dfa ` A) \<and>
     (st_accept_mb st \<longleftrightarrow> COMPLEX_BRACKET \<in> type_of dfa ` A \<or> mb \<and> OP_PERIOD \<in> type_of dfa ` A) \<and>
     (st_has_backref st \<longleftrightarrow> OP_BACK_REF \<in> type_of dfa ` A)"

definition stands_for :: "re_dfa_t \<Rightarrow> bool \<Rightarrow> 32 word \<Rightarrow> int set \<Rightarrow> re_dfastate_t \<Rightarrow> bool" where
  "stands_for dfa mb ctx A st \<longleftrightarrow>
     rep (st_nodes st) (remaining dfa ctx A) \<and> rep (entrance_nodes st) A \<and>
     st_context st = ucast ctx \<and>
     flags_noted dfa mb A st \<and>
     (st_has_constraint st \<longleftrightarrow> (\<exists>e \<in> A. constraint_of dfa e \<noteq> 0))"

lemma no_constraint: "\<not> NOT_SATISFY_PREV_CONSTRAINT 0 ctx"
  by (simp add: NOT_SATISFY_PREV_CONSTRAINT_def)

text \<open>
  The invariant of the loop: of the elements \<open>xs @ ys\<close> the first have been looked at; what is left of them
  is in front of the others.
\<close>

definition cd_inv :: "re_dfa_t \<Rightarrow> bool \<Rightarrow> 32 word \<Rightarrow> int list \<Rightarrow> int list \<Rightarrow> nat \<Rightarrow> re_dfastate_t \<Rightarrow> bool" where
  "cd_inv dfa mb ctx xs ys k st \<longleftrightarrow>
     (let left = filter (\<lambda>e. \<not> NOT_SATISFY_PREV_CONSTRAINT (constraint_of dfa e) ctx) xs in
      elems_of (st_nodes st) (left @ ys) \<and> k = length xs - length left \<and>
      (case st_entrance st of None \<Rightarrow> \<forall>e \<in> set xs. constraint_of dfa e = 0 | Some s \<Rightarrow> elems_of s (xs @ ys)) \<and>
      (st_has_constraint st \<longleftrightarrow> st_entrance st \<noteq> None) \<and>
      (st_has_constraint st \<longleftrightarrow> (\<exists>e \<in> set xs. constraint_of dfa e \<noteq> 0)) \<and>
      st_context st = ucast ctx \<and> flags_noted dfa mb (set xs) st)"

lemma note_node_fields [simp]:
  "st_nodes (note_node mb ty st) = st_nodes st" "st_entrance (note_node mb ty st) = st_entrance st"
  "st_context (note_node mb ty st) = st_context st" "st_hash (note_node mb ty st) = st_hash st"
  "st_has_constraint (note_node mb ty st) = st_has_constraint st"
  "st_halt (note_node mb ty st) \<longleftrightarrow> st_halt st \<or> ty = END_OF_RE"
  "st_accept_mb (note_node mb ty st) \<longleftrightarrow> st_accept_mb st \<or> ty = COMPLEX_BRACKET \<or> mb \<and> ty = OP_PERIOD"
  "st_has_backref (note_node mb ty st) \<longleftrightarrow> st_has_backref st \<or> ty = OP_BACK_REF"
  by (auto simp: note_node_def)

lemma flags_noted_step:
  "flags_noted dfa mb A st \<Longrightarrow> flags_noted dfa mb (insert y A) (note_node mb (type_of dfa y) st)"
  by (auto simp: flags_noted_def)

lemma flags_noted_update [simp]:
  "flags_noted dfa mb A (st\<lparr>st_entrance := x\<rparr>) = flags_noted dfa mb A st"
  "flags_noted dfa mb A (st\<lparr>st_has_constraint := b\<rparr>) = flags_noted dfa mb A st"
  "flags_noted dfa mb A (st\<lparr>st_nodes := s\<rparr>) = flags_noted dfa mb A st"
  by (simp_all add: flags_noted_def)

lemma cd_inv_free:
  assumes "cd_inv dfa mb ctx xs (y # ys) k st" and "constraint_of dfa y = 0"
  shows "cd_inv dfa mb ctx (xs @ [y]) ys k (note_node mb (type_of dfa y) st)"
  using assms no_constraint [of ctx] flags_noted_step [of dfa mb "set xs" st y]
  by (auto simp: cd_inv_def Let_def split: option.splits)

lemma cd_inv_entrance:
  assumes "cd_inv dfa mb ctx xs (y # ys) k st" and "st_entrance st = None" and "elems_of s (xs @ y # ys)"
  shows "filter (\<lambda>e. \<not> NOT_SATISFY_PREV_CONSTRAINT (constraint_of dfa e) ctx) xs = xs" and "k = 0"
proof -
  show f: "filter (\<lambda>e. \<not> NOT_SATISFY_PREV_CONSTRAINT (constraint_of dfa e) ctx) xs = xs"
    using assms(1,2) no_constraint [of ctx] by (auto simp: cd_inv_def Let_def filter_id_conv)
  show "k = 0" using assms(1) f by (simp add: cd_inv_def Let_def)
qed

text \<open>A node with a constraint, once \<^verbatim>\<open>entrance_nodes\<close> is a set of its own.\<close>

definition entered :: "nat \<Rightarrow> re_node_set \<Rightarrow> re_dfastate_t \<Rightarrow> re_dfastate_t \<times> nat" where
  "entered k s st = (if st_entrance st = None then (st\<lparr>st_entrance := Some s, st_has_constraint := True\<rparr>, 0) else (st, k))"

lemma cd_inv_constraint:
  assumes "cd_inv dfa mb ctx xs (y # ys) k st" and "constraint_of dfa y \<noteq> 0" and "elems_of s (xs @ y # ys)"
    and "entered k s (note_node mb (type_of dfa y) st) = (st1, k1)"
  shows "\<not> NOT_SATISFY_PREV_CONSTRAINT (constraint_of dfa y) ctx \<Longrightarrow> cd_inv dfa mb ctx (xs @ [y]) ys k1 st1"
    and "\<exists>s'. re_node_set_remove_at (st_nodes st1) (int (length xs) - int k1) = Some s' \<and>
      (NOT_SATISFY_PREV_CONSTRAINT (constraint_of dfa y) ctx \<longrightarrow>
         cd_inv dfa mb ctx (xs @ [y]) ys (k1 + 1) (st1\<lparr>st_nodes := s'\<rparr>))"
proof -
  let ?left = "filter (\<lambda>e. \<not> NOT_SATISFY_PREV_CONSTRAINT (constraint_of dfa e) ctx) xs"
  have len: "length ?left \<le> length xs" by simp
  have k1: "k1 = length xs - length ?left" and el: "elems_of (st_nodes st1) (?left @ y # ys)"
    using assms(1,4) cd_inv_entrance [OF assms(1) _ assms(3)] by (auto simp: cd_inv_def Let_def entered_def split: if_splits)
  have rest: "st_has_constraint st1" "st_context st1 = ucast ctx"
    "case st_entrance st1 of None \<Rightarrow> False | Some s \<Rightarrow> elems_of s ((xs @ [y]) @ ys)"
    "flags_noted dfa mb (set (xs @ [y])) st1"
    using assms(1,3,4) flags_noted_step [of dfa mb "set xs" st y] by (auto simp: cd_inv_def Let_def entered_def split: if_splits option.splits)
  show "cd_inv dfa mb ctx (xs @ [y]) ys k1 st1" if "\<not> NOT_SATISFY_PREV_CONSTRAINT (constraint_of dfa y) ctx"
    using that k1 el rest assms(2) len by (auto simp: cd_inv_def Let_def Suc_diff_le split: option.splits)
  have "int (length xs) - int k1 = int (length ?left)" using k1 len by simp
  moreover obtain s' where "re_node_set_remove_at (st_nodes st1) (int (length ?left)) = Some s'" "elems_of s' (?left @ ys)"
    using remove_at_elems [OF el, of "length ?left"] by auto
  moreover have "cd_inv dfa mb ctx (xs @ [y]) ys (k1 + 1) (st1\<lparr>st_nodes := s'\<rparr>)"
    if "NOT_SATISFY_PREV_CONSTRAINT (constraint_of dfa y) ctx" "elems_of s' (?left @ ys)" for s'
    using that k1 rest assms(2) len by (auto simp: cd_inv_def Let_def Suc_diff_le split: option.splits)
  ultimately show "\<exists>s'. re_node_set_remove_at (st_nodes st1) (int (length xs) - int k1) = Some s' \<and>
      (NOT_SATISFY_PREV_CONSTRAINT (constraint_of dfa y) ctx \<longrightarrow>
         cd_inv dfa mb ctx (xs @ [y]) ys (k1 + 1) (st1\<lparr>st_nodes := s'\<rparr>))" by auto
qed

text \<open>With memory granted the loop runs to the end.\<close>

definition granted :: state_allocs where
  "granted = \<lparr>sa_state = True, sa_nodes = True, sa_entrance = True, sa_entrance_nodes = True, sa_table = True\<rparr>"

lemma granted_simps [simp]: "sa_state granted" "sa_nodes granted" "sa_entrance granted" "sa_entrance_nodes granted" "sa_table granted"
  by (simp_all add: granted_def)

lemma cd_loop_meaning:
  assumes "elems_of nodes zs" and "nodes_known dfa (set zs)"
  shows "zs = xs @ ys \<Longrightarrow> cd_inv dfa mb ctx xs ys k st \<Longrightarrow>
    \<exists>st' k'. cd_loop granted mb dfa nodes ctx (length xs) (length ys) k st = Some st' \<and>
      cd_inv dfa mb ctx zs [] k' st' \<and> st_hash st' = st_hash st"
proof (induction ys arbitrary: xs k st)
  case (Cons y ys)
  obtain b where b: "ns_elems nodes = Some b" "holds b zs"
    using elems_of_block [OF assms(1)] Cons.prems(1) by auto
  have y: "cells_read b (length xs) = Some y" using holds_read [OF b(2), of "length xs"] Cons.prems(1) by simp
  obtain t c where t: "arr_read (dfa_nodes dfa) (nat y) = Some t" "token_constraint t = Some c"
    using assms(2) Cons.prems(1) by (auto simp: nodes_known_def node_token_def)
  then have tc: "type_of dfa y = tok_type t" "constraint_of dfa y = c" by (simp_all add: type_of_def constraint_of_def node_token_def)
  let ?st = "note_node mb (tok_type t) st"
  have IH: "cd_inv dfa mb ctx (xs @ [y]) ys k' st' \<Longrightarrow> st_hash st' = st_hash st \<Longrightarrow>
      \<exists>st'' k''. cd_loop granted mb dfa nodes ctx (length xs + 1) (length ys) k' st' = Some st'' \<and>
        cd_inv dfa mb ctx zs [] k'' st'' \<and> st_hash st'' = st_hash st" for k' st'
    using Cons.IH [of "xs @ [y]" k' st'] Cons.prems(1) by auto
  show ?case
  proof (cases "c = 0")
    case True
    then have inv: "cd_inv dfa mb ctx (xs @ [y]) ys k ?st" using cd_inv_free [OF Cons.prems(2)] tc by simp
    have "cd_loop granted mb dfa nodes ctx (length xs) (length (y # ys)) k st
        = cd_loop granted mb dfa nodes ctx (length xs + 1) (length ys) k ?st"
      using t(2) True by (auto simp: b y t(1) token_constraint_def note_node_def Let_def)
    then show ?thesis using IH [OF inv] by simp
  next
    case False
    obtain s where s: "re_node_set_init_copy True nodes = Some (REG_NOERROR, s)" "elems_of s (xs @ y # ys)"
      using init_copy_elems [OF assms(1)] Cons.prems(1) by auto
    obtain st1 k1 where e: "entered k s ?st = (st1, k1)" by fastforce
    have ne: "constraint_of dfa y \<noteq> 0" using False tc by simp
    note inv = cd_inv_constraint [OF Cons.prems(2) ne s(2), unfolded tc, OF e]
    obtain s' where s': "re_node_set_remove_at (st_nodes st1) (int (length xs) - int k1) = Some s'"
      "NOT_SATISFY_PREV_CONSTRAINT c ctx \<Longrightarrow> cd_inv dfa mb ctx (xs @ [y]) ys (k1 + 1) (st1\<lparr>st_nodes := s'\<rparr>)"
      using inv(2) by blast
    have h: "st_hash st1 = st_hash st" using e by (auto simp: entered_def split: if_splits)
    have "cd_loop granted mb dfa nodes ctx (length xs) (length (y # ys)) k st
        = (if NOT_SATISFY_PREV_CONSTRAINT c ctx
           then cd_loop granted mb dfa nodes ctx (length xs + 1) (length ys) (k1 + 1) (st1\<lparr>st_nodes := s'\<rparr>)
           else cd_loop granted mb dfa nodes ctx (length xs + 1) (length ys) k1 st1)"
      using t(2) False e s(1) s'(1)
      by (cases "st_entrance st") (auto simp: b y t(1) token_constraint_def Let_def entered_def split: if_splits)
    then show ?thesis
      using IH [OF inv(1)] IH [OF s'(2)] h by auto
  qed
qed auto

section \<open>The table\<close>

text \<open>The states registered in a spot, and a well-formed table.\<close>

definition spot_states :: "re_state_table_entry \<Rightarrow> nat list \<Rightarrow> bool" where
  "spot_states spot ps \<longleftrightarrow> te_num spot = length ps \<and>
     (case te_array spot of None \<Rightarrow> ps = [] \<and> te_alloc spot = 0 | Some b \<Rightarrow> holds b ps \<and> length b = te_alloc spot)"

definition dfa_ok :: "re_dfa_t \<Rightarrow> bool" where
  "dfa_ok dfa \<longleftrightarrow> unat (dfa_state_hash_mask dfa) < length (dfa_state_table dfa) \<and>
     (\<forall>spot \<in> set (dfa_state_table dfa). \<exists>ps. spot_states spot ps \<and>
        (\<forall>p \<in> set ps. \<exists>st A. state_at dfa p = Some st \<and> rep (entrance_nodes st) A))"

definition extends :: "re_dfa_t \<Rightarrow> re_dfa_t \<Rightarrow> bool" where
  "extends dfa dfa' \<longleftrightarrow> dfa_state_hash_mask dfa' = dfa_state_hash_mask dfa \<and> dfa_nodes dfa' = dfa_nodes dfa \<and>
     length (dfa_state_table dfa') = length (dfa_state_table dfa) \<and>
     (\<forall>p st. state_at dfa p = Some st \<longrightarrow> state_at dfa' p = Some st) \<and>
     (\<forall>k ps. k < length (dfa_state_table dfa) \<longrightarrow> spot_states (dfa_state_table dfa ! k) ps \<longrightarrow>
        (\<exists>qs. spot_states (dfa_state_table dfa' ! k) (ps @ qs)))"

lemma extends_refl: "extends dfa dfa"
  by (auto simp: extends_def intro: exI [of _ "[]"])

lemma extends_trans: "extends a b \<Longrightarrow> extends b c \<Longrightarrow> extends a c"
  unfolding extends_def by (metis append.assoc)

lemma spot_states_unique: "spot_states spot ps \<Longrightarrow> spot_states spot qs \<Longrightarrow> ps = qs"
  by (auto simp: spot_states_def holds_def split: option.splits)

lemma spot_in_table: "dfa_ok dfa \<Longrightarrow> spot_of dfa h < length (dfa_state_table dfa)"
  using word_and_le1 [of h "dfa_state_hash_mask dfa"] by (simp add: dfa_ok_def spot_of_def word_le_nat_alt)

lemma spot_lists:
  assumes "dfa_ok dfa"
  obtains spot ps where "spot_at dfa h = Some spot" and "spot_states spot ps" and "spot = dfa_state_table dfa ! spot_of dfa h"
    and "\<And>p. p \<in> set ps \<Longrightarrow> \<exists>st A. state_at dfa p = Some st \<and> rep (entrance_nodes st) A"
proof -
  have k: "spot_of dfa h < length (dfa_state_table dfa)" by (rule spot_in_table [OF assms])
  then have "dfa_state_table dfa ! spot_of dfa h \<in> set (dfa_state_table dfa)" by simp
  then show ?thesis using assms that k by (fastforce simp: dfa_ok_def spot_at_def)
qed

lemma find_state_meaning:
  assumes "holds b ps" and "\<And>p. p \<in> set ps \<Longrightarrow> state_at dfa p = Some (S p) \<and> same (S p) = Some (Q (S p))"
  shows "i + n = length ps \<Longrightarrow>
    find_state dfa h same b i n = Some (find (\<lambda>p. st_hash (S p) = h \<and> Q (S p)) (drop i ps))"
proof (induction n arbitrary: i)
  case (Suc n)
  have i: "i < length ps" using Suc.prems by simp
  note d = Cons_nth_drop_Suc [OF i]
  show ?case
    using Suc.IH [of "i + 1"] Suc.prems holds_read [OF assms(1) i] assms(2) [OF nth_mem [OF i]]
    by (auto simp flip: d)
qed simp

lemma search_spot_meaning:
  assumes "spot_at dfa h = Some spot" and "spot_states spot ps"
    and "\<And>p. p \<in> set ps \<Longrightarrow> state_at dfa p = Some (S p) \<and> same (S p) = Some (Q (S p))"
  shows "search_spot dfa h same = Some (find (\<lambda>p. st_hash (S p) = h \<and> Q (S p)) ps)"
proof (cases "ps = []")
  case True
  then show ?thesis using assms(1,2) by (simp add: search_spot_def spot_states_def)
next
  case False
  then obtain b where b: "te_array spot = Some b" "holds b ps" "te_num spot = length ps"
    using assms(2) by (auto simp: spot_states_def split: option.splits)
  then show ?thesis using find_state_meaning [OF b(2) assms(3), of 0 "length ps" h] False assms(1)
    by (simp add: search_spot_def)
qed

text \<open>The hash of a set depends on its elements only.\<close>

lemma hash_loop_total: "holds b xs \<Longrightarrow> i + n = length xs \<Longrightarrow>
  hash_loop b i n h = Some (h + sum_list (map word_of_int (drop i xs)))"
proof (induction n arbitrary: i h)
  case (Suc n)
  have i: "i < length xs" using Suc.prems by simp
  show ?case
    using Suc.IH [of "i + 1" "h + word_of_int (xs ! i)"] Suc.prems holds_read [OF Suc.prems(1) i]
    by (simp add: ac_simps flip: Cons_nth_drop_Suc [OF i])
qed simp

definition set_hash :: "int set \<Rightarrow> 32 word \<Rightarrow> 32 word" where
  "set_hash A ctx = of_nat (card A) + ctx + sum_list (map word_of_int (sorted_list_of_set A))"

lemma calc_hash: "rep s A \<Longrightarrow> calc_state_hash s ctx = Some (set_hash A ctx)"
proof -
  assume "rep s A"
  then have el: "elems_of s (sorted_list_of_set A)" "finite A" by (simp_all add: rep_def)
  show ?thesis
  proof (cases "sorted_list_of_set A = []")
    case True
    then show ?thesis using el by (simp add: calc_state_hash_def set_hash_def elems_of_def Let_def)
  next
    case False
    from elems_of_block [OF el(1) False] obtain b where b: "ns_elems s = Some b" "holds b (sorted_list_of_set A)"
      "ns_nelem s = length (sorted_list_of_set A)" .
    then show ?thesis
      using hash_loop_total [OF b(2), of 0 "card A"] el(2) False
      by (simp add: calc_state_hash_def set_hash_def Let_def)
  qed
qed

lemma write_behind:
  assumes "holds b ps" and "length ps < length b"
  obtains b' where "cells_write b (length ps) p = Some b'" and "holds b' (ps @ [p])" and "length b' = length b"
proof -
  have "take (Suc (length ps)) (b[length ps := Some p]) = map Some (ps @ [p])"
    using assms by (simp add: take_Suc_conv_app_nth holds_def)
  then show ?thesis using that assms(2) by (simp add: cells_write_def holds_def)
qed

text \<open>Registering a state puts it behind the others of its spot.\<close>

lemma register_lists:
  assumes "dfa_ok dfa" and "spot_at dfa h = Some spot" and "spot_states spot ps"
  obtains spot' where "register_state True dfa p h
      = Some (REG_NOERROR, dfa\<lparr>dfa_state_table := (dfa_state_table dfa)[spot_of dfa h := spot']\<rparr>)"
    and "spot_states spot' (ps @ [p])"
proof -
  have num: "te_num spot = length ps" using assms(3) by (simp add: spot_states_def)
  have fits: "length ps \<le> te_alloc spot"
    using assms(3) by (auto simp: spot_states_def dest: holds_length split: option.splits)
  show ?thesis
  proof (cases "te_alloc spot \<le> te_num spot")
    case True
    let ?n = "2 * length ps + 2" and ?b = "cells_realloc (te_array spot) (2 * length ps + 2)"
    have b: "holds ?b ps" "length ?b = ?n"
      using assms(3) fits by (auto simp: spot_states_def cells_realloc_def Let_def holds_def min_def split: option.splits)
    obtain b' where b': "cells_write ?b (length ps) p = Some b'" "holds b' (ps @ [p])" "length b' = ?n"
      using write_behind [OF b(1), of p] b(2) by auto
    show ?thesis
      by (rule that [of "spot\<lparr>te_alloc := ?n, te_num := length ps + 1, te_array := Some b'\<rparr>"])
        (use True num b' assms(2) in \<open>simp_all add: register_state_def spot_states_def Let_def\<close>)
  next
    case False
    then obtain b where b: "te_array spot = Some b" "holds b ps" "length b = te_alloc spot"
      using assms(3) by (auto simp: spot_states_def split: option.splits)
    obtain b' where b': "cells_write b (length ps) p = Some b'" "holds b' (ps @ [p])" "length b' = length b"
      using write_behind [OF b(2), of p] False b(3) num by auto
    show ?thesis
      by (rule that [of "spot\<lparr>te_num := length ps + 1, te_array := Some b'\<rparr>"])
        (use False num b b' assms(2) in \<open>simp_all add: register_state_def spot_states_def Let_def\<close>)
  qed
qed

lemma add_state_lists:
  assumes "dfa_ok dfa" and "spot_at dfa h = Some spot" and "spot_states spot ps" and "rep (entrance_nodes st) A"
  obtains dfa' where "add_state True dfa st h = Some (Some (length (dfa_heap dfa)), dfa')" and "dfa_ok dfa'"
    and "extends dfa dfa'" and "state_at dfa' (length (dfa_heap dfa)) = Some st"
    and "spot_states (dfa_state_table dfa' ! spot_of dfa h) (ps @ [length (dfa_heap dfa)])"
    and "length (dfa_heap dfa') = length (dfa_heap dfa) + 1"
proof -
  let ?p = "length (dfa_heap dfa)"
  obtain spot' where spot': "register_state True dfa ?p h
      = Some (REG_NOERROR, dfa\<lparr>dfa_state_table := (dfa_state_table dfa)[spot_of dfa h := spot']\<rparr>)" "spot_states spot' (ps @ [?p])"
    using register_lists [OF assms(1-3)] by blast
  let ?dfa = "dfa\<lparr>dfa_state_table := (dfa_state_table dfa)[spot_of dfa h := spot'], dfa_heap := dfa_heap dfa @ [Some st]\<rparr>"
  have k: "spot_of dfa h < length (dfa_state_table dfa)" by (rule spot_in_table [OF assms(1)])
  have spot: "dfa_state_table dfa ! spot_of dfa h = spot" using assms(2) k by (simp add: spot_at_def)
  have old: "state_at ?dfa q = Some x" if "state_at dfa q = Some x" for q x
    using that by (auto simp: state_at_def nth_append split: if_splits)
  have new: "state_at ?dfa ?p = Some st" by (simp add: state_at_def)
  have ok: "\<exists>qs. spot_states s qs \<and> (\<forall>q \<in> set qs. \<exists>st A. state_at ?dfa q = Some st \<and> rep (entrance_nodes st) A)"
    if s: "s \<in> set (dfa_state_table ?dfa)" for s
  proof -
    have table: "\<forall>s \<in> set (dfa_state_table dfa). \<exists>qs. spot_states s qs \<and>
        (\<forall>q \<in> set qs. \<exists>st A. state_at dfa q = Some st \<and> rep (entrance_nodes st) A)" using assms(1) by (simp add: dfa_ok_def)
    show ?thesis
    proof (cases "s = spot'")
      case True
      obtain qs where "spot_states spot qs" "\<forall>q \<in> set qs. \<exists>st A. state_at dfa q = Some st \<and> rep (entrance_nodes st) A"
        using table k spot by (metis nth_mem)
      moreover from this(1) have "qs = ps" by (rule spot_states_unique [OF _ assms(3)])
      ultimately have each: "\<exists>st A. state_at dfa q = Some st \<and> rep (entrance_nodes st) A" if "q \<in> set ps" for q
        using that by simp
      have "\<exists>st A. state_at ?dfa q = Some st \<and> rep (entrance_nodes st) A" if "q \<in> set (ps @ [?p])" for q
      proof (cases "q = ?p")
        case True
        then show ?thesis using new assms(4) by blast
      next
        case False
        then show ?thesis using each [of q] old that by auto
      qed
      then show ?thesis using True spot'(2) by blast
    next
      case False
      then have "s \<in> set (dfa_state_table dfa)" 
        using s set_update_subset_insert [of "dfa_state_table dfa" "spot_of dfa h" spot'] by auto
      then obtain qs where qs: "spot_states s qs" "\<forall>q \<in> set qs. \<exists>st A. state_at dfa q = Some st \<and> rep (entrance_nodes st) A"
        using table by blast
      have "\<exists>st A. state_at ?dfa q = Some st \<and> rep (entrance_nodes st) A" if "q \<in> set qs" for q
        using qs(2) that old [of q] by fastforce
      then show ?thesis using qs(1) by blast
    qed
  qed
  have ext: "extends dfa ?dfa"
    unfolding extends_def
  proof (intro conjI allI impI)
    fix j qs assume j: "j < length (dfa_state_table dfa)" "spot_states (dfa_state_table dfa ! j) qs"
    show "\<exists>rs. spot_states (dfa_state_table ?dfa ! j) (qs @ rs)"
    proof (cases "j = spot_of dfa h")
      case True
      then have "qs = ps" using j(2) spot assms(3) spot_states_unique by auto
      then show ?thesis using True k spot'(2) by auto
    next
      case False
      then show ?thesis using j by (auto intro: exI [of _ "[]"])
    qed
  qed (use old in auto)
  show ?thesis
    by (rule that [of ?dfa])
      (use spot' ok ext new k assms(1) in \<open>auto simp: add_state_def dfa_ok_def Let_def\<close>)
qed

text \<open>A new state stands for its set in its context.\<close>

lemma cd_state_stands:
  assumes "rep nodes A" and "A \<noteq> {}" and "nodes_known dfa A"
  obtains st where "create_newstate_common granted nodes h = Some (Some st)"
    and "\<exists>st'. cd_loop granted mb dfa nodes ctx 0 (ns_nelem nodes) 0 (st\<lparr>st_context := ucast ctx\<rparr>) = Some st' \<and>
      stands_for dfa mb ctx A st' \<and> st_hash st' = h"
proof -
  let ?xs = "sorted_list_of_set A"
  have el: "elems_of nodes ?xs" "finite A" using assms(1) by (simp_all add: rep_def)
  obtain s where s: "re_node_set_init_copy True nodes = Some (REG_NOERROR, s)" "elems_of s ?xs"
    using init_copy_elems [OF el(1)] by blast
  let ?st = "\<lparr>st_hash = h, st_nodes = s, st_entrance = None, st_context = 0, st_halt = False,
            st_accept_mb = False, st_has_backref = False, st_has_constraint = False\<rparr>"
  let ?st0 = "?st\<lparr>st_context := ucast ctx\<rparr>"
  have known: "nodes_known dfa (set ?xs)" using assms(3) el(2) by simp
  have "cd_inv dfa mb ctx [] ?xs 0 ?st0" using s(2) by (simp add: cd_inv_def flags_noted_def)
  from cd_loop_meaning [OF el(1) known _ this] obtain st' k where
    run: "cd_loop granted mb dfa nodes ctx 0 (ns_nelem nodes) 0 ?st0 = Some st'" "st_hash st' = h"
    and inv: "cd_inv dfa mb ctx ?xs [] k st'"
    using el(1) by (auto simp: elems_of_def)
  let ?left = "filter (\<lambda>e. \<not> NOT_SATISFY_PREV_CONSTRAINT (constraint_of dfa e) ctx) ?xs"
  have "asc ?left" by (intro sorted_wrt_filter) (simp add: strict_sorted_iff)
  moreover have "set ?left = remaining dfa ctx A" using el(2) by (auto simp: remaining_def)
  ultimately have nodes: "rep (st_nodes st') (remaining dfa ctx A)"
    using inv repI [of "st_nodes st'" ?left] by (simp add: cd_inv_def Let_def)
  have entrance: "rep (entrance_nodes st') A"
  proof (cases "st_entrance st'")
    case None
    then have "remaining dfa ctx A = A" using inv el(2) no_constraint [of ctx] by (auto simp: cd_inv_def Let_def remaining_def)
    then show ?thesis using nodes None by (simp add: entrance_nodes_def)
  next
    case (Some e)
    then show ?thesis using inv el(2) by (simp add: cd_inv_def Let_def entrance_nodes_def rep_def)
  qed
  have "stands_for dfa mb ctx A st'"
    using nodes entrance inv el(2) by (auto simp: stands_for_def cd_inv_def Let_def)
  then have "\<exists>st'. cd_loop granted mb dfa nodes ctx 0 (ns_nelem nodes) 0 ?st0 = Some st' \<and>
      stands_for dfa mb ctx A st' \<and> st_hash st' = h" using run by blast
  then show ?thesis by (rule that [rotated]) (simp add: s(1) create_newstate_common_def)
qed

section \<open>Finding a state again\<close>

definition matches_set :: "re_dfa_t \<Rightarrow> int set \<Rightarrow> 32 word \<Rightarrow> nat \<Rightarrow> bool" where
  "matches_set dfa A ctx p = (case state_at dfa p of None \<Rightarrow> False
     | Some st \<Rightarrow> st_hash st = set_hash A ctx \<and> rep (entrance_nodes st) A \<and> ucast (st_context st) = ctx)"

definition registered :: "re_dfa_t \<Rightarrow> int set \<Rightarrow> 32 word \<Rightarrow> nat option \<Rightarrow> bool" where
  "registered dfa A ctx r \<longleftrightarrow>
     (\<exists>ps. spot_states (dfa_state_table dfa ! spot_of dfa (set_hash A ctx)) ps \<and> find (matches_set dfa A ctx) ps = r)"

lemma rep_unique: "rep s A \<Longrightarrow> rep s B \<Longrightarrow> A = B"
  using rep_compare [of s A s A] rep_compare [of s A s B] by simp

lemma rep_nonempty: "rep s A \<Longrightarrow> A \<noteq> {} \<Longrightarrow> ns_nelem s \<noteq> 0"
  by (auto simp: rep_def elems_of_def)

lemma search_registered:
  assumes "dfa_ok dfa" and "rep nodes A"
  obtains r where "search_spot dfa (set_hash A ctx) (\<lambda>st. map_option (\<lambda>b. b \<and> ucast (st_context st) = ctx)
      (re_node_set_compare (Some (entrance_nodes st)) (Some nodes))) = Some r"
    and "registered dfa A ctx r"
proof -
  obtain spot ps where spot: "spot_at dfa (set_hash A ctx) = Some spot" "spot_states spot ps"
    "spot = dfa_state_table dfa ! spot_of dfa (set_hash A ctx)"
    "\<And>p. p \<in> set ps \<Longrightarrow> \<exists>st A. state_at dfa p = Some st \<and> rep (entrance_nodes st) A"
    using spot_lists [OF assms(1), of "set_hash A ctx"] by metis
  let ?S = "\<lambda>p. the (state_at dfa p)" and ?Q = "\<lambda>st. rep (entrance_nodes st) A \<and> ucast (st_context st) = ctx"
  have each: "state_at dfa p = Some (?S p) \<and> map_option (\<lambda>b. b \<and> ucast (st_context (?S p)) = ctx)
      (re_node_set_compare (Some (entrance_nodes (?S p))) (Some nodes)) = Some (?Q (?S p))" if "p \<in> set ps" for p
  proof -
    obtain st B where st: "state_at dfa p = Some st" "rep (entrance_nodes st) B" using spot(4) [OF \<open>p \<in> set ps\<close>] by blast
    have "rep (entrance_nodes st) A \<longleftrightarrow> B = A" using rep_unique [OF st(2), of A] st(2) by blast
    then show ?thesis using rep_compare [OF st(2) assms(2)] st(1) by simp
  qed
  have "find (\<lambda>p. st_hash (?S p) = set_hash A ctx \<and> ?Q (?S p)) ps = find (matches_set dfa A ctx) ps"
  proof (rule find_cong [OF refl])
    fix p assume "p \<in> set ps"
    then obtain st where "state_at dfa p = Some st" using spot(4) by blast
    then show "(st_hash (?S p) = set_hash A ctx \<and> ?Q (?S p)) = matches_set dfa A ctx p"
      by (simp add: matches_set_def)
  qed
  then show ?thesis
    using search_spot_meaning [OF spot(1,2) each] spot(2,3) that by (auto simp: registered_def)
qed

lemma registered_unique: "registered dfa A ctx r \<Longrightarrow> registered dfa A ctx r' \<Longrightarrow> r = r'"
  unfolding registered_def using spot_states_unique by blast

lemma registered_acquire:
  assumes "dfa_ok dfa" and "rep nodes A" and "A \<noteq> {}" and "registered dfa A ctx (Some p)"
  shows "re_acquire_state_context al mb dfa nodes ctx = Some ((None, Some p), dfa)"
proof -
  obtain r where r: "search_spot dfa (set_hash A ctx) (\<lambda>st. map_option (\<lambda>b. b \<and> ucast (st_context st) = ctx)
      (re_node_set_compare (Some (entrance_nodes st)) (Some nodes))) = Some r" "registered dfa A ctx r"
    using search_registered [OF assms(1,2)] .
  then have "r = Some p" using registered_unique [OF assms(4)] by blast
  then show ?thesis
    using r(1) rep_nonempty [OF assms(2,3)] calc_hash [OF assms(2)] by (simp add: re_acquire_state_context_def)
qed

lemma registered_extends:
  assumes "extends dfa dfa'" and "dfa_ok dfa" and "registered dfa A ctx (Some p)"
  shows "registered dfa' A ctx (Some p)"
proof -
  let ?k = "spot_of dfa (set_hash A ctx)"
  obtain ps where ps: "spot_states (dfa_state_table dfa ! ?k) ps" "find (matches_set dfa A ctx) ps = Some p"
    using assms(3) by (auto simp: registered_def)
  have k: "?k < length (dfa_state_table dfa)" by (rule spot_in_table [OF assms(2)])
  then obtain qs where qs: "spot_states (dfa_state_table dfa' ! ?k) (ps @ qs)" using assms(1) ps(1) unfolding extends_def by blast
  obtain spot rs where "spot_states (dfa_state_table dfa ! ?k) rs"
    "\<And>q. q \<in> set rs \<Longrightarrow> \<exists>st A. state_at dfa q = Some st \<and> rep (entrance_nodes st) A"
    using spot_lists [OF assms(2), of "set_hash A ctx"] by metis
  then have each: "\<exists>st. state_at dfa q = Some st" if "q \<in> set ps" for q using spot_states_unique [OF ps(1)] that by blast
  have same: "matches_set dfa' A ctx q = matches_set dfa A ctx q" if "q \<in> set ps" for q
    using each [OF that] assms(1) by (auto simp: matches_set_def extends_def)
  have "find (matches_set dfa' A ctx) (ps @ qs) = Some p"
    using ps(2) same by (induction ps) (auto split: if_splits)
  moreover have "spot_of dfa' h = spot_of dfa h" for h using assms(1) by (simp add: spot_of_def extends_def)
  ultimately show ?thesis using qs by (auto simp: registered_def)
qed

text \<open>A new state is registered under its set, if its context fits in two bits.\<close>

lemma two_bit_context: "ucast (ucast ctx :: 2 word) = ctx \<longleftrightarrow> ctx < 4" for ctx :: "32 word"
proof -
  have "ucast (ucast ctx :: 2 word) = take_bit 2 ctx" by transfer simp
  moreover have "take_bit 2 ctx = ctx \<longleftrightarrow> unat ctx < 4"
  proof -
    have "unat (take_bit 2 ctx) = take_bit 2 (unat ctx)" by (rule unsigned_take_bit_eq)
    then have "unat (take_bit 2 ctx) = unat ctx mod 4" by (simp only: take_bit_eq_mod) simp
    then have "take_bit 2 ctx = ctx \<longleftrightarrow> unat ctx mod 4 = unat ctx" by (metis unsigned_word_eqI)
    then show ?thesis by (simp add: mod_eq_self_iff_div_eq_0 div_eq_0_iff)
  qed
  ultimately show ?thesis by (simp add: word_less_nat_alt)
qed

lemma acquire_new:
  assumes "dfa_ok dfa" and "rep nodes A" and "A \<noteq> {}" and "nodes_known dfa A" and "registered dfa A ctx None"
  obtains dfa' st where "re_acquire_state_context granted mb dfa nodes ctx = Some ((None, Some (length (dfa_heap dfa))), dfa')"
    and "dfa_ok dfa'" and "extends dfa dfa'" and "state_at dfa' (length (dfa_heap dfa)) = Some st"
    and "stands_for dfa mb ctx A st" and "length (dfa_heap dfa') = length (dfa_heap dfa) + 1"
    and "registered dfa' A ctx (if ctx < 4 then Some (length (dfa_heap dfa)) else None)"
proof -
  let ?h = "set_hash A ctx" and ?p = "length (dfa_heap dfa)"
  obtain spot ps where spot: "spot_at dfa ?h = Some spot" "spot_states spot ps" "spot = dfa_state_table dfa ! spot_of dfa ?h"
    "\<And>p. p \<in> set ps \<Longrightarrow> \<exists>st A. state_at dfa p = Some st \<and> rep (entrance_nodes st) A"
    using spot_lists [OF assms(1), of ?h] by metis
  have none: "find (matches_set dfa A ctx) ps = None"
    using assms(5) spot(2,3) spot_states_unique by (auto simp: registered_def)
  obtain st0 st where st: "create_newstate_common granted nodes ?h = Some (Some st0)"
    "cd_loop granted mb dfa nodes ctx 0 (ns_nelem nodes) 0 (st0\<lparr>st_context := ucast ctx\<rparr>) = Some st"
    "stands_for dfa mb ctx A st" "st_hash st = ?h"
    using cd_state_stands [OF assms(2,3,4), of ?h] by metis
  have r: "rep (entrance_nodes st) A" using st(3) by (simp add: stands_for_def)
  from add_state_lists [OF assms(1) spot(1,2) r] obtain dfa' where
    dfa': "add_state True dfa st ?h = Some (Some ?p, dfa')" "dfa_ok dfa'" "extends dfa dfa'" "state_at dfa' ?p = Some st"
      "spot_states (dfa_state_table dfa' ! spot_of dfa ?h) (ps @ [?p])" "length (dfa_heap dfa') = ?p + 1" .
  obtain x where "search_spot dfa ?h (\<lambda>st. map_option (\<lambda>b. b \<and> ucast (st_context st) = ctx)
      (re_node_set_compare (Some (entrance_nodes st)) (Some nodes))) = Some x" "registered dfa A ctx x"
    using search_registered [OF assms(1,2)] .
  moreover from this(2) have "x = None" using registered_unique [OF assms(5)] by blast
  ultimately have run: "re_acquire_state_context granted mb dfa nodes ctx = Some ((None, Some ?p), dfa')"
    using rep_nonempty [OF assms(2,3)] calc_hash [OF assms(2)] st(1,2) dfa'(1)
    by (simp add: re_acquire_state_context_def create_cd_newstate_def)
  have new: "matches_set dfa' A ctx ?p \<longleftrightarrow> ctx < 4"
    using dfa'(4) st(3,4) r two_bit_context [of ctx] by (simp add: matches_set_def stands_for_def)
  have "matches_set dfa' A ctx q = matches_set dfa A ctx q" if "q \<in> set ps" for q
    using spot(4) [OF that] dfa'(3) by (auto simp: matches_set_def extends_def)
  then have "find (matches_set dfa' A ctx) (ps @ [?p]) = (if ctx < 4 then Some ?p else None)"
    using none new by (induction ps) (auto split: if_splits)
  moreover have "spot_of dfa' ?h = spot_of dfa ?h" using dfa'(3) by (simp add: spot_of_def extends_def)
  ultimately have "registered dfa' A ctx (if ctx < 4 then Some ?p else None)" using dfa'(5) by (auto simp: registered_def)
  then show ?thesis using that run dfa' st(3) by blast
qed

section \<open>Sharing of states\<close>

text \<open>Any further acquisitions.\<close>

fun acquire_all :: "bool \<Rightarrow> re_dfa_t \<Rightarrow> (re_node_set \<times> 32 word) list \<Rightarrow> re_dfa_t option" where
  "acquire_all mb dfa [] = Some dfa"
| "acquire_all mb dfa ((s, ctx) # qs) =
     do { (_, dfa) \<leftarrow> re_acquire_state_context granted mb dfa s ctx; acquire_all mb dfa qs }"

lemma acquire_known:
  assumes "dfa_ok dfa" and "rep nodes A" and "nodes_known dfa A"
  shows "\<exists>r dfa'. re_acquire_state_context granted mb dfa nodes ctx = Some (r, dfa') \<and> dfa_ok dfa' \<and> extends dfa dfa'"
proof (cases "A = {}")
  case True
  then have "ns_nelem nodes = 0" using assms(2) by (simp add: rep_def elems_of_def)
  then show ?thesis using assms(1) extends_refl by (auto simp: re_acquire_state_context_def)
next
  case False
  obtain r where r: "registered dfa A ctx r" using search_registered [OF assms(1,2)] .
  show ?thesis
  proof (cases r)
    case None
    then show ?thesis using acquire_new [OF assms(1,2) False assms(3)] r by metis
  next
    case (Some p)
    then show ?thesis using registered_acquire [OF assms(1,2) False] r assms(1) extends_refl by blast
  qed
qed

lemma nodes_known_extends: "extends dfa dfa' \<Longrightarrow> nodes_known dfa' B = nodes_known dfa B"
  by (simp add: extends_def nodes_known_def node_token_def)

lemma acquire_all_extends:
  "dfa_ok dfa \<Longrightarrow> \<forall>(s, ctx) \<in> set qs. \<exists>B. rep s B \<and> nodes_known dfa B \<Longrightarrow>
   \<exists>dfa'. acquire_all mb dfa qs = Some dfa' \<and> dfa_ok dfa' \<and> extends dfa dfa'"
proof (induction qs arbitrary: dfa)
  case Nil
  then show ?case using extends_refl by auto
next
  case (Cons q qs)
  obtain s ctx where q: "q = (s, ctx)" by (cases q)
  obtain B where "rep s B" "nodes_known dfa B" using Cons.prems(2) by (auto simp: q)
  from acquire_known [OF Cons.prems(1) this, of mb ctx] obtain r dfa1 where
    d: "re_acquire_state_context granted mb dfa s ctx = Some (r, dfa1)" "dfa_ok dfa1" "extends dfa dfa1" by blast
  have "\<forall>(s, ctx) \<in> set qs. \<exists>B. rep s B \<and> nodes_known dfa1 B"
    using Cons.prems(2) nodes_known_extends [OF d(3)] by auto
  from Cons.IH [OF d(2) this] show ?case using d extends_trans by (auto simp: q)
qed

text \<open>
  C11. The states of the automaton are shared: in a well-formed table, with memory granted, a set of known
  nodes in a context of at most two bits is given a state whose entrance nodes are the set, and after
  any further acquisitions the same set in the same context, however its block looks, is given that state again, with no
  allocation and no change. A state that is new holds the nodes whose constraint the context satisfies,
  and its flags say whether the set has an end, a node of several bytes, a back reference or a constraint.
\<close>
theorem states_shared:
  assumes "dfa_ok dfa" and "rep nodes A" and "A \<noteq> {}" and "nodes_known dfa A" and "ctx < 4"
    and "\<forall>(s, c) \<in> set qs. \<exists>B. rep s B \<and> nodes_known dfa B"
  shows "\<exists>p st dfa1 dfa2. re_acquire_state_context granted mb dfa nodes ctx = Some ((None, Some p), dfa1) \<and>
    state_at dfa1 p = Some st \<and> rep (entrance_nodes st) A \<and>
    (p = length (dfa_heap dfa) \<longrightarrow> stands_for dfa mb ctx A st) \<and>
    acquire_all mb dfa1 qs = Some dfa2 \<and> dfa_ok dfa2 \<and> state_at dfa2 p = Some st \<and>
    (\<forall>nodes' al. rep nodes' A \<longrightarrow> re_acquire_state_context al mb dfa2 nodes' ctx = Some ((None, Some p), dfa2))"
proof -
  obtain r where r: "registered dfa A ctx r" using search_registered [OF assms(1,2)] .
  obtain p st dfa1 where p: "re_acquire_state_context granted mb dfa nodes ctx = Some ((None, Some p), dfa1)"
    "registered dfa1 A ctx (Some p)" "dfa_ok dfa1" "extends dfa dfa1" "state_at dfa1 p = Some st" "rep (entrance_nodes st) A"
    "p = length (dfa_heap dfa) \<longrightarrow> stands_for dfa mb ctx A st"
  proof (cases r)
    case None
    then obtain dfa1 st where d: "re_acquire_state_context granted mb dfa nodes ctx = Some ((None, Some (length (dfa_heap dfa))), dfa1)"
      "dfa_ok dfa1" "extends dfa dfa1" "state_at dfa1 (length (dfa_heap dfa)) = Some st" "stands_for dfa mb ctx A st"
      "registered dfa1 A ctx (if ctx < 4 then Some (length (dfa_heap dfa)) else None)"
      using acquire_new [OF assms(1-4)] r by metis
    then have "registered dfa1 A ctx (Some (length (dfa_heap dfa)))" "rep (entrance_nodes st) A"
      using assms(5) by (simp_all add: stands_for_def)
    then show ?thesis using that d by blast
  next
    case (Some p)
    then have "registered dfa A ctx (Some p)" using r by simp
    moreover from this obtain st where "state_at dfa p = Some st" "rep (entrance_nodes st) A"
      by (auto simp: registered_def matches_set_def find_Some_iff split: option.splits)
    moreover from this have "p < length (dfa_heap dfa)" by (simp add: state_at_def split: if_splits)
    ultimately show ?thesis using that registered_acquire [OF assms(1-3)] assms(1) extends_refl by blast
  qed
  have "\<forall>(s, c) \<in> set qs. \<exists>B. rep s B \<and> nodes_known dfa1 B"
    using assms(6) nodes_known_extends [OF p(4)] by auto
  from acquire_all_extends [OF p(3) this] obtain dfa2 where
    q: "acquire_all mb dfa1 qs = Some dfa2" "dfa_ok dfa2" "extends dfa1 dfa2" by blast
  have "registered dfa2 A ctx (Some p)" by (rule registered_extends [OF q(3) p(3,2)])
  then have "\<forall>nodes' al. rep nodes' A \<longrightarrow> re_acquire_state_context al mb dfa2 nodes' ctx = Some ((None, Some p), dfa2)"
    using registered_acquire [OF q(2) _ assms(3)] by blast
  moreover have "state_at dfa2 p = Some st" using q(3) p(5) by (simp add: extends_def)
  ultimately show ?thesis using p q by blast
qed

text \<open>An automaton of one node and an empty table of one spot.\<close>

definition tiny_dfa :: re_dfa_t where
  "tiny_dfa = \<lparr>dfa_nodes_alloc = 1, dfa_nodes_len = 1,
     dfa_nodes = Arr [Some \<lparr>tok_opr = OprContext PREV_NEWLINE_CONSTRAINT, tok_type = ANCHOR, tok_constraint = 0,
       tok_duplicated = False, tok_mb_partial = False\<rparr>],
     dfa_nexts = Null, dfa_org_indices = Null, dfa_edests = Null, dfa_eclosures = Null, dfa_inveclosures = Null,
     dfa_state_table = [\<lparr>te_num = 0, te_alloc = 0, te_array = None\<rparr>], dfa_state_hash_mask = 0, dfa_heap = []\<rparr>"

lemma tiny_dfa_ok: "dfa_ok tiny_dfa" "nodes_known tiny_dfa {0}"
  by (simp_all add: dfa_ok_def tiny_dfa_def spot_states_def nodes_known_def node_token_def arr_read_def cells_read_def
      token_constraint_def opr_ctx_type_def)

lemma states_shared_witness:
  "\<exists>p dfa1 dfa2. re_acquire_state_context granted False tiny_dfa (snd (re_node_set_init_1 True 0)) CONTEXT_WORD
      = Some ((None, Some p), dfa1) \<and>
    acquire_all False dfa1 [(snd (re_node_set_init_1 True 0), CONTEXT_NEWLINE)] = Some dfa2 \<and>
    re_acquire_state_context granted False dfa2 (snd (re_node_set_init_1 True 0)) CONTEXT_WORD = Some ((None, Some p), dfa2)"
proof -
  have ctx: "CONTEXT_WORD < 4" by (simp add: CONTEXT_WORD_def)
  have qs: "\<forall>(s, c) \<in> set [(snd (re_node_set_init_1 True 0), CONTEXT_NEWLINE)]. \<exists>B. rep s B \<and> nodes_known tiny_dfa B"
    using rep_init_1 tiny_dfa_ok(2) by auto
  from states_shared [OF tiny_dfa_ok(1) rep_init_1 _ tiny_dfa_ok(2) ctx qs, of False] show ?thesis
    using rep_init_1 by blast
qed

text \<open>
  C38. The context of a state is kept in a field of two bits, too small for the contexts at the begin
  and at the end of the text: a state made for a set in such a context is never found again, so that
  every acquisition makes another one, also where the compiler asks for the state at the begin of the
  text.
\<close>
theorem wide_context_lost:
  assumes "dfa_ok dfa" and "rep nodes A" and "A \<noteq> {}" and "nodes_known dfa A" and "4 \<le> ctx"
  shows "\<exists>p st st' dfa1 dfa2. re_acquire_state_context granted mb dfa nodes ctx = Some ((None, Some p), dfa1) \<and>
    re_acquire_state_context granted mb dfa1 nodes ctx = Some ((None, Some (p + 1)), dfa2) \<and>
    length (dfa_heap dfa2) = length (dfa_heap dfa) + 2 \<and>
    state_at dfa2 p = Some st \<and> state_at dfa2 (p + 1) = Some st' \<and>
    stands_for dfa mb ctx A st \<and> stands_for dfa mb ctx A st'"
proof -
  obtain r where r: "registered dfa A ctx r" using search_registered [OF assms(1,2)] .
  have "r = None"
  proof (rule ccontr)
    assume "r \<noteq> None"
    then obtain p where "registered dfa A ctx (Some p)" using r by auto
    then have "matches_set dfa A ctx p" by (auto simp: registered_def find_Some_iff)
    then have "\<exists>st :: re_dfastate_t. ucast (st_context st) = ctx"
      by (cases "state_at dfa p") (auto simp: matches_set_def)
    then obtain st :: re_dfastate_t where "ctx = ucast (st_context st)" by auto
    then have "unat ctx = take_bit 32 (unat (st_context st))" by (simp add: unsigned_ucast_eq)
    also have "\<dots> \<le> unat (st_context st)" by (rule take_bit_nat_less_eq_self)
    also have "\<dots> < 4" using unsigned_less [of "st_context st"] by simp
    finally show False using assms(5) by (simp add: word_le_nat_alt)
  qed
  then have none: "registered dfa A ctx None" using r by simp
  obtain dfa1 st where d: "re_acquire_state_context granted mb dfa nodes ctx = Some ((None, Some (length (dfa_heap dfa))), dfa1)"
    "dfa_ok dfa1" "extends dfa dfa1" "state_at dfa1 (length (dfa_heap dfa)) = Some st" "stands_for dfa mb ctx A st"
    "length (dfa_heap dfa1) = length (dfa_heap dfa) + 1"
    "registered dfa1 A ctx (if ctx < 4 then Some (length (dfa_heap dfa)) else None)"
    using acquire_new [OF assms(1-4) none, of mb] .
  have d7: "registered dfa1 A ctx None" using d(7) assms(5) by (simp add: not_less [symmetric])
  have "nodes_known dfa1 A" using nodes_known_extends [OF d(3)] assms(4) by simp
  from acquire_new [OF d(2) assms(2,3) this d7] obtain dfa2 st' where
    e: "re_acquire_state_context granted mb dfa1 nodes ctx = Some ((None, Some (length (dfa_heap dfa1))), dfa2)"
      "extends dfa1 dfa2" "state_at dfa2 (length (dfa_heap dfa1)) = Some st'" "stands_for dfa1 mb ctx A st'"
      "length (dfa_heap dfa2) = length (dfa_heap dfa1) + 1" by metis
  have "stands_for dfa mb ctx A st'"
    using e(4) d(3) by (simp add: stands_for_def remaining_def flags_noted_def constraint_of_def type_of_def node_token_def extends_def)
  then show ?thesis using d e by (intro exI [of _ "length (dfa_heap dfa)"]) (auto simp: extends_def)
qed

lemma wide_context_lost_witness:
  "\<exists>p dfa1 dfa2. re_acquire_state_context granted False tiny_dfa (snd (re_node_set_init_1 True 0)) (CONTEXT_NEWLINE OR CONTEXT_BEGBUF)
      = Some ((None, Some p), dfa1) \<and>
    re_acquire_state_context granted False dfa1 (snd (re_node_set_init_1 True 0)) (CONTEXT_NEWLINE OR CONTEXT_BEGBUF)
      = Some ((None, Some (p + 1)), dfa2) \<and> length (dfa_heap dfa2) = 2"
proof -
  have ctx: "4 \<le> CONTEXT_NEWLINE OR CONTEXT_BEGBUF"
    by (simp add: CONTEXT_NEWLINE_def CONTEXT_BEGBUF_def CONTEXT_WORD_def)
  have "length (dfa_heap tiny_dfa) = 0" by (simp add: tiny_dfa_def)
  then show ?thesis
    using wide_context_lost [OF tiny_dfa_ok(1) rep_init_1 _ tiny_dfa_ok(2) ctx, of False] by fastforce
qed

end
