(* ===== verification/Comparator.thy ===== *)
theory Comparator
  imports Util
begin

unbundle bit_operations_syntax

text \<open>
  The comparators of \<^verbatim>\<open>src/sv_parser/comparator.c\<close> and the table that finds one by the name of
  a collation and a match type. \<^verbatim>\<open>comparator_t\<close> is a pointer to one of a fixed set of functions,
  here the datatype \<open>comparator\<close> with its interpretation \<open>run_comparator\<close>.

  The match types are token numbers of \<^verbatim>\<open>sieve.y\<close>: yacc numbers the tokens from 258 in the order
  of their \<^verbatim>\<open>%token\<close> declarations. The regular expression engine \<^verbatim>\<open>libsieve_regexec\<close> is an
  argument of the definitions that reach it; a compiled expression is the pair of the pattern and the
  flags it was compiled with.
\<close>

section \<open>Tokens used as tags\<close>

definition tokens :: "string list" where
  "tokens = [''NUMBER'', ''STRING'', ''IF'', ''ELSIF'', ''ELSE'',
     ''REJCT'', ''FILEINTO'', ''REDIRECT'', ''KEEP'', ''STOP'', ''DISCARD'', ''VACATION'', ''REQUIRE'',
     ''SETFLAG'', ''ADDFLAG'', ''REMOVEFLAG'', ''MARK'', ''UNMARK'', ''FLAGS'', ''HASFLAG'',
     ''NOTIFY'', ''VALIDNOTIF'',
     ''ANYOF'', ''ALLOF'', ''EXISTS'', ''SFALSE'', ''STRUE'', ''HEADER'', ''NOT'', ''SIZE'', ''ADDRESS'', ''ENVELOPE'',
     ''COMPARATOR'', ''IS'', ''CONTAINS'', ''MATCHES'', ''REGEX'', ''OVER'', ''UNDER'', ''COUNT'', ''VALUE'',
     ''ALL'', ''LOCALPART'', ''DOMAIN'', ''USER'', ''DETAIL'',
     ''DAYS'', ''ADDRESSES'', ''SUBJECT'', ''MIME'', ''FROM'', ''HANDLE'',
     ''METHOD'', ''ID'', ''OPTIONS'', ''LOW'', ''NORMAL'', ''HIGH'', ''MESSAGE'']"

fun position :: "string \<Rightarrow> string list \<Rightarrow> int" where
  "position x [] = 0"
| "position x (y # ys) = (if x = y then 0 else 1 + position x ys)"

definition token :: "string \<Rightarrow> int" where
  "token name = 258 + position name tokens"

definition tok_IS :: int where [codes]: "tok_IS = 291"
definition tok_CONTAINS :: int where [codes]: "tok_CONTAINS = 292"
definition tok_MATCHES :: int where [codes]: "tok_MATCHES = 293"
definition tok_REGEX :: int where [codes]: "tok_REGEX = 294"
definition tok_OVER :: int where [codes]: "tok_OVER = 295"
definition tok_UNDER :: int where [codes]: "tok_UNDER = 296"
definition tok_COUNT :: int where [codes]: "tok_COUNT = 297"
definition tok_VALUE :: int where [codes]: "tok_VALUE = 298"
definition tok_ALL :: int where [codes]: "tok_ALL = 299"
definition tok_LOCALPART :: int where [codes]: "tok_LOCALPART = 300"
definition tok_DOMAIN :: int where [codes]: "tok_DOMAIN = 301"
definition tok_USER :: int where [codes]: "tok_USER = 302"
definition tok_DETAIL :: int where [codes]: "tok_DETAIL = 303"
definition tok_MIME :: int where [codes]: "tok_MIME = 307"

lemma token_numbers:
  "token ''IS'' = tok_IS" "token ''CONTAINS'' = tok_CONTAINS" "token ''MATCHES'' = tok_MATCHES"
  "token ''REGEX'' = tok_REGEX" "token ''OVER'' = tok_OVER" "token ''UNDER'' = tok_UNDER"
  "token ''COUNT'' = tok_COUNT" "token ''VALUE'' = tok_VALUE" "token ''ALL'' = tok_ALL"
  "token ''LOCALPART'' = tok_LOCALPART" "token ''DOMAIN'' = tok_DOMAIN" "token ''USER'' = tok_USER"
  "token ''DETAIL'' = tok_DETAIL" "token ''MIME'' = tok_MIME"
  by (simp_all add: token_def tokens_def codes)

section \<open>i;octet\<close>

definition octet_is :: "string \<Rightarrow> string \<Rightarrow> bool" where
  "octet_is pat hay = (let sl = length pat in sl = length hay \<and> take sl pat = take sl hay)"

definition octet_contains :: "string \<Rightarrow> string \<Rightarrow> bool" where
  "octet_contains pat hay = strstr hay pat"

text \<open>The inner loop that coalesces wildcards: \<open>None\<close> where it runs out of text.\<close>

fun coalesce :: "string \<Rightarrow> string \<Rightarrow> (string \<times> string) option" where
  "coalesce (c # p) t =
     (if c = CHR ''?'' then (case t of [] \<Rightarrow> None | _ # t \<Rightarrow> coalesce p t)
      else if c = CHR ''*'' then coalesce p t
      else Some (c # p, t))"
| "coalesce [] t = Some ([], t)"

lemma coalesce_shorter:
  "coalesce p t = Some (p', t') \<Longrightarrow> length p' \<le> length p \<and> length t' \<le> length t"
  by (induction p t rule: coalesce.induct) (fastforce split: if_splits list.splits)+

text \<open>
  \<^verbatim>\<open>octet_matches_\<close> and the loop of its star, which tries the rest of the pattern at every
  position of the text. The result is \<open>None\<close> where the code reads past the end of the pattern: a
  backslash as the last character moves the pattern pointer behind the NUL. When the loop of the
  star ends, control falls into the backslash case and compares the star with the NUL of the text.
\<close>

function octet_matches_rec :: "string \<Rightarrow> string \<Rightarrow> bool \<Rightarrow> bool option"
  and octet_star :: "string \<Rightarrow> string \<Rightarrow> bool \<Rightarrow> bool option" where
  "octet_matches_rec [] t casemap = Some (t = [])"
| "octet_matches_rec (c # p) t casemap =
     (if c = CHR ''?'' then (case t of [] \<Rightarrow> Some False | _ # t \<Rightarrow> octet_matches_rec p t casemap)
      else if c = CHR ''*'' then
        (case coalesce p t of
           None \<Rightarrow> Some False
         | Some (p, t) \<Rightarrow> if p = [] then Some True else octet_star p t casemap)
      else
        (case t of
           [] \<Rightarrow> Some False
         | d # t \<Rightarrow>
             (if casemap \<and> c_toupper c = c_toupper d \<or> \<not> casemap \<and> c = d
              then (if c = CHR 0x5C
                    then (case p of [] \<Rightarrow> None | _ # p \<Rightarrow> octet_matches_rec p t casemap)
                    else octet_matches_rec p t casemap)
              else Some False)))"
| "octet_star p [] casemap = Some False"
| "octet_star p (d # t) casemap =
     (case octet_matches_rec p (d # t) casemap of
        None \<Rightarrow> None
      | Some True \<Rightarrow> Some True
      | Some False \<Rightarrow> octet_star p t casemap)"
  by pat_completeness auto
termination
  by (relation "measure (case_sum (\<lambda>(p, t, _). 2 * (length p + length t))
       (\<lambda>(p, t, _). 2 * (length p + length t) + 1))")
    (auto dest: coalesce_shorter)

definition octet_matches :: "string \<Rightarrow> string \<Rightarrow> bool option" where
  "octet_matches pat hay = octet_matches_rec pat hay False"

type_synonym regex_t = "string \<times> int"

definition octet_regex :: "(regex_t \<Rightarrow> string \<Rightarrow> int) \<Rightarrow> regex_t \<Rightarrow> string \<Rightarrow> bool" where
  "octet_regex regexec pat hay = (regexec pat hay = 0)"

section \<open>i;ascii-casemap\<close>

text \<open>The search loop over the indices \<open>i\<close> of the text and \<open>j\<close> of the pattern.\<close>

function casemap_search :: "string \<Rightarrow> string \<Rightarrow> nat \<Rightarrow> nat \<Rightarrow> bool" where
  "casemap_search pat hay i j =
     (if j < length pat \<and> i < length hay then
        (if c_toupper (hay ! i) = c_toupper (pat ! j) then casemap_search pat hay (i + 1) (j + 1)
         else casemap_search pat hay (i - j + 1) 0)
      else j = length pat)"
  by pat_completeness auto
termination
  by (relation "measures [\<lambda>(pat, hay, i, j). length hay + j - i, \<lambda>(pat, hay, i, j). length hay - i]")
    auto


definition ascii_casemap_contains :: "string \<Rightarrow> string \<Rightarrow> bool" where
  "ascii_casemap_contains pat hay = casemap_search pat hay 0 0"

definition ascii_casemap_matches :: "string \<Rightarrow> string \<Rightarrow> bool option" where
  "ascii_casemap_matches pat hay = octet_matches_rec pat hay True"

section \<open>Relations\<close>

datatype num = Gt | Ge | Lt | Le | Eq | Ne

fun num_code :: "num \<Rightarrow> int" where
  "num_code Gt = 1"
| "num_code Ge = 2"
| "num_code Lt = 3"
| "num_code Le = 4"
| "num_code Eq = 5"
| "num_code Ne = 6"

definition num_of_code :: "int \<Rightarrow> num option" where
  "num_of_code k =
     (if k = 1 then Some Gt else if k = 2 then Some Ge else if k = 3 then Some Lt
      else if k = 4 then Some Le else if k = 5 then Some Eq else if k = 6 then Some Ne else None)"

text \<open>
  \<^verbatim>\<open>ascii_numeric\<close>: the pattern is the right-hand side of the relation, so the inequalities of
  the code are turned round.
\<close>

definition starts_digit :: "string \<Rightarrow> bool" where
  "starts_digit s = (case s of [] \<Rightarrow> False | c # _ \<Rightarrow> c_isdigit c)"

definition ascii_numeric :: "num \<Rightarrow> string \<Rightarrow> string \<Rightarrow> bool" where
  "ascii_numeric num pat hay =
     (if starts_digit pat then
        (if starts_digit hay then
           (case num of
              Gt \<Rightarrow> atoi pat < atoi hay
            | Ge \<Rightarrow> atoi pat \<le> atoi hay
            | Lt \<Rightarrow> atoi pat > atoi hay
            | Le \<Rightarrow> atoi pat \<ge> atoi hay
            | Eq \<Rightarrow> atoi pat = atoi hay
            | Ne \<Rightarrow> atoi pat \<noteq> atoi hay)
         else False)
      else if starts_digit hay then False
      else True)"

definition ascii_casemap :: "num \<Rightarrow> string \<Rightarrow> string \<Rightarrow> bool" where
  "ascii_casemap num pat hay =
     (case num of
        Gt \<Rightarrow> strcasecmp pat hay < 0
      | Ge \<Rightarrow> strcasecmp pat hay \<le> 0
      | Lt \<Rightarrow> strcasecmp pat hay > 0
      | Le \<Rightarrow> strcasecmp pat hay \<ge> 0
      | Eq \<Rightarrow> strcasecmp pat hay = 0
      | Ne \<Rightarrow> strcasecmp pat hay \<noteq> 0)"

definition libsieve_relational_lookup :: "string option \<Rightarrow> int" where
  "libsieve_relational_lookup rel =
     (case rel of
        None \<Rightarrow> 0
      | Some r \<Rightarrow>
          if r = ''gt'' then push_bit 10 (num_code Gt)
          else if r = ''ge'' then push_bit 10 (num_code Ge)
          else if r = ''lt'' then push_bit 10 (num_code Lt)
          else if r = ''le'' then push_bit 10 (num_code Le)
          else if r = ''eq'' then push_bit 10 (num_code Eq)
          else if r = ''ne'' then push_bit 10 (num_code Ne)
          else 0)"

section \<open>The table of comparators\<close>

datatype comparator =
    Octet_is | Octet_contains | Octet_matches | Octet_regex
  | Casemap_contains | Casemap_matches | Casemap_unknown | Casemap num
  | Numeric_unknown | Numeric num

text \<open>What the pointer of a pattern list points to: a string, or a compiled expression.\<close>

datatype pattern = PatStr string | PatRe regex_t

fun run_comparator ::
  "(regex_t \<Rightarrow> string \<Rightarrow> int) \<Rightarrow> comparator \<Rightarrow> pattern \<Rightarrow> string \<Rightarrow> bool option" where
  "run_comparator rx Octet_regex (PatRe r) hay = Some (octet_regex rx r hay)"
| "run_comparator rx Octet_regex (PatStr s) hay = None"
| "run_comparator rx Casemap_unknown p hay = Some False"
| "run_comparator rx Numeric_unknown p hay = Some False"
| "run_comparator rx c (PatRe r) hay = None"
| "run_comparator rx Octet_is (PatStr s) hay = Some (octet_is s hay)"
| "run_comparator rx Octet_contains (PatStr s) hay = Some (octet_contains s hay)"
| "run_comparator rx Octet_matches (PatStr s) hay = octet_matches s hay"
| "run_comparator rx Casemap_contains (PatStr s) hay = Some (ascii_casemap_contains s hay)"
| "run_comparator rx Casemap_matches (PatStr s) hay = ascii_casemap_matches s hay"
| "run_comparator rx (Casemap n) (PatStr s) hay = Some (ascii_casemap n s hay)"
| "run_comparator rx (Numeric n) (PatStr s) hay = Some (ascii_numeric n s hay)"

definition libsieve_comparator_lookup :: "string \<Rightarrow> int \<Rightarrow> comparator option" where
  "libsieve_comparator_lookup coll mode =
     (if coll = ''i;octet'' then
        (if mode = tok_IS then Some Octet_is
         else if mode = tok_CONTAINS then Some Octet_contains
         else if mode = tok_MATCHES then Some Octet_matches
         else if mode = tok_REGEX then Some Octet_regex
         else None)
      else if coll = ''i;ascii-casemap'' then
        (if mode = tok_IS then Some (Casemap Eq)
         else if mode = tok_CONTAINS then Some Casemap_contains
         else if mode = tok_MATCHES then Some Casemap_matches
         else if mode = tok_REGEX then Some Octet_regex
         else (case num_of_code (drop_bit 10 mode) of
                 Some n \<Rightarrow> Some (Casemap n) | None \<Rightarrow> Some Casemap_unknown))
      else if coll = ''i;ascii-numeric'' then
        (if mode = tok_IS then Some (Numeric Eq)
         else (case num_of_code (drop_bit 10 mode) of
                 Some n \<Rightarrow> Some (Numeric n) | None \<Rightarrow> Some Numeric_unknown))
      else None)"

definition libsieve_relational_count :: "int \<Rightarrow> bool" where
  "libsieve_relational_count mode = (mode AND tok_COUNT = tok_COUNT)"

section \<open>What the wildcard matcher computes\<close>

datatype glob = One | Any | Lit char

text \<open>The reading of a pattern by the code: a backslash stands for itself and hides the next character.\<close>

fun glob_tokens :: "string \<Rightarrow> glob list option" where
  "glob_tokens [] = Some []"
| "glob_tokens (c # p) =
     (if c = CHR ''?'' then map_option (Cons One) (glob_tokens p)
      else if c = CHR ''*'' then map_option (Cons Any) (glob_tokens p)
      else if c = CHR 0x5C then
        (case p of [] \<Rightarrow> None | _ # p \<Rightarrow> map_option (Cons (Lit c)) (glob_tokens p))
      else map_option (Cons (Lit c)) (glob_tokens p))"

text \<open>The reading of RFC 3028: a backslash makes the next character literal.\<close>

fun rfc_tokens :: "string \<Rightarrow> glob list" where
  "rfc_tokens [] = []"
| "rfc_tokens (c # p) =
     (if c = CHR ''?'' then One # rfc_tokens p
      else if c = CHR ''*'' then Any # rfc_tokens p
      else if c = CHR 0x5C then (case p of [] \<Rightarrow> [Lit c] | d # p \<Rightarrow> Lit d # rfc_tokens p)
      else Lit c # rfc_tokens p)"

fun glob_match :: "(char \<Rightarrow> char \<Rightarrow> bool) \<Rightarrow> glob list \<Rightarrow> string \<Rightarrow> bool" where
  "glob_match eq [] t = (t = [])"
| "glob_match eq (One # g) [] = False"
| "glob_match eq (One # g) (_ # t) = glob_match eq g t"
| "glob_match eq (Any # g) [] = glob_match eq g []"
| "glob_match eq (Any # g) (d # t) = (glob_match eq g (d # t) \<or> glob_match eq (Any # g) t)"
| "glob_match eq (Lit c # g) [] = False"
| "glob_match eq (Lit c # g) (d # t) = (eq c d \<and> glob_match eq g t)"

definition char_eq :: "bool \<Rightarrow> char \<Rightarrow> char \<Rightarrow> bool" where
  "char_eq casemap c d = (if casemap then c_toupper c = c_toupper d else c = d)"

lemmas glob_Any_step = glob_match.simps(4,5)

lemma glob_Any_end: "glob_match eq [Any] t"
  by (induction t) auto

lemma glob_Any_Any: "glob_match eq (Any # Any # g) t = glob_match eq (Any # g) t"
  by (induction t) auto

lemma glob_Any_One_Nil: "\<not> glob_match eq (Any # One # g) []"
  by simp

lemma glob_Any_One_Cons: "glob_match eq (Any # One # g) (d # t) = glob_match eq (Any # g) t"
  by (induction t arbitrary: d) auto

text \<open>With these the star of the reference is never opened by the simplifier.\<close>

declare glob_match.simps(4,5) [simp del]

lemmas glob_Any = glob_Any_end glob_Any_Any glob_Any_One_Nil glob_Any_One_Cons

lemma coalesce_None:
  "coalesce p t = None \<Longrightarrow> glob_tokens p = Some g \<Longrightarrow> \<not> glob_match eq (Any # g) t"
  by (induction p t arbitrary: g rule: coalesce.induct)
    (auto simp: glob_Any split: if_splits list.splits)

lemma coalesce_Some:
  "coalesce p t = Some (p', t') \<Longrightarrow> glob_tokens p = Some g \<Longrightarrow>
   \<exists>g'. glob_tokens p' = Some g' \<and> glob_match eq (Any # g) t = glob_match eq (Any # g') t'
     \<and> (p' = [] \<or> (\<exists>c g''. g' = Lit c # g''))"
  by (induction p t arbitrary: g rule: coalesce.induct)
    (auto simp: glob_Any split: if_splits list.splits)

lemma octet_matches_glob:
  "glob_tokens p = Some g \<Longrightarrow> octet_matches_rec p t cm = Some (glob_match (char_eq cm) g t)"
  "glob_tokens p = Some (Lit c # g') \<Longrightarrow>
   octet_star p t cm = Some (glob_match (char_eq cm) (Any # Lit c # g') t)"
proof (induction p t cm and p t cm arbitrary: g and c g' rule: octet_matches_rec_octet_star.induct)
  case (1 t cm)
  then show ?case by simp
next
  case (2 c p t cm)
  show ?case
  proof (cases "c = CHR ''*''")
    case True
    then obtain h where h: "glob_tokens p = Some h" "g = Any # h" using "2.prems" by auto
    show ?thesis
    proof (cases "coalesce p t")
      case None
      then show ?thesis using True h coalesce_None [OF None h(1)] by simp
    next
      case (Some r)
      obtain p' t' where r: "r = (p', t')" by (cases r)
      obtain g' where g': "glob_tokens p' = Some g'"
        "glob_match (char_eq cm) (Any # h) t = glob_match (char_eq cm) (Any # g') t'"
        "p' = [] \<or> (\<exists>c g''. g' = Lit c # g'')"
        using coalesce_Some [OF Some [unfolded r] h(1)] by blast
      show ?thesis
      proof (cases "p' = []")
        case True
        then show ?thesis using \<open>c = _\<close> Some r h g' by (simp add: glob_Any)
      next
        case False
        then obtain d g'' where d: "g' = Lit d # g''" using g'(3) by blast
        show ?thesis
          using "2.IH"(2) [OF _ True Some r [symmetric] False] \<open>c = _\<close> Some r h g' False d by simp
      qed
    qed
  next
    case False
    show ?thesis
    proof (cases "c = CHR ''?''")
      case True
      then show ?thesis using "2.IH"(1) "2.prems" by (auto split: list.splits)
    next
      case nq: False
      then show ?thesis
      proof (cases t)
        case Nil
        then show ?thesis using False nq "2.prems" by (auto split: if_splits list.splits)
      next
        case (Cons d t')
        let ?eq = "cm \<and> c_toupper c = c_toupper d \<or> \<not> cm \<and> c = d"
        have eq: "char_eq cm c d = ?eq" by (simp add: char_eq_def)
        show ?thesis
        proof (cases "c = CHR 0x5C")
          case bs: True
          then obtain x p' h where h: "p = x # p'" "glob_tokens p' = Some h" "g = Lit c # h"
            using "2.prems" by (auto split: list.splits)
          show ?thesis
            using "2.IH"(3) [OF nq False Cons _ bs h(1) h(2)] eq h Cons bs by simp
        next
          case nbs: False
          then obtain h where h: "glob_tokens p = Some h" "g = Lit c # h"
            using "2.prems" False nq by auto
          show ?thesis
            using "2.IH"(4) [OF nq False Cons _ nbs h(1)] eq h Cons False nq nbs by simp
        qed
      qed
    qed
  qed
next
  case (3 p cm)
  then show ?case by (simp add: glob_Any_step)
next
  case (4 p d t cm)
  then show ?case by (auto simp: glob_Any_step split: option.splits bool.splits)
qed

section \<open>What the case-insensitive search computes\<close>

declare casemap_search.simps [simp del]

lemma casemap_search_iff:
  defines "up \<equiv> map c_toupper"
  assumes "j \<le> length pat" and "j \<le> i" and "i \<le> length hay"
    and "take j (drop (i - j) (up hay)) = take j (up pat)"
  shows "casemap_search pat hay i j \<longleftrightarrow> (\<exists>k \<ge> i - j. prefix (up pat) (drop k (up hay)))"
  using assms(2-5)
proof (induction pat hay i j rule: casemap_search.induct)
  case (1 pat hay i j)
  let ?P = "up pat" and ?H = "up hay" and ?k = "i - j"
  have len: "length ?P = length pat" "length ?H = length hay" by (simp_all add: up_def)
  show ?case
  proof (cases "j < length pat \<and> i < length hay")
    case in_range: True
    have nth: "?H ! i = c_toupper (hay ! i)" "?P ! j = c_toupper (pat ! j)"
      using in_range by (simp_all add: up_def)
    have at: "drop ?k ?H ! j = ?H ! i" using in_range "1.prems"(2) len by auto
    show ?thesis
    proof (cases "c_toupper (hay ! i) = c_toupper (pat ! j)")
      case True
      have "take (j + 1) (drop ?k ?H) = take (j + 1) ?P"
        using "1.prems"(2,4) in_range len at nth True by (auto simp: take_Suc_conv_app_nth)
      then show ?thesis
        using "1.IH"(1) in_range True "1.prems"(2) by (simp add: casemap_search.simps [of pat hay i j])
    next
      case False
      have "\<not> prefix ?P (drop ?k ?H)"
      proof
        assume "prefix ?P (drop ?k ?H)"
        then have "drop ?k ?H ! j = ?P ! j"
          using in_range len by (metis nth_append prefixE)
        with at nth False show False by simp
      qed
      then have "(\<exists>k \<ge> ?k. prefix ?P (drop k ?H)) \<longleftrightarrow> (\<exists>k \<ge> ?k + 1. prefix ?P (drop k ?H))"
        by (metis Suc_eq_plus1 Suc_leD le_antisym not_less_eq_eq)
      moreover have "Suc ?k \<le> length hay" using in_range by auto
      ultimately show ?thesis
        using "1.IH"(2) in_range False by (simp add: casemap_search.simps [of pat hay i j])
    qed
  next
    case False
    show ?thesis
    proof (cases "j = length pat")
      case True
      then have "prefix ?P (drop ?k ?H)"
        using "1.prems"(4) len by (metis take_all_iff le_refl take_is_prefix)
      moreover have "casemap_search pat hay i j"
        using True by (subst casemap_search.simps) simp
      ultimately show ?thesis by blast
    next
      case short: False
      then have i: "i = length hay" and j: "j < length pat" using False "1.prems" by auto
      have "\<not> prefix ?P (drop k ?H)" if "?k \<le> k" for k
      proof
        assume "prefix ?P (drop k ?H)"
        then have "length ?P \<le> length (drop k ?H)" by (rule prefix_length_le)
        then show False using that i j len "1.prems"(2) by simp
      qed
      moreover have "\<not> casemap_search pat hay i j"
        using short i by (subst casemap_search.simps) simp
      ultimately show ?thesis by blast
    qed
  qed
qed

lemma sublist_iff_prefix_drop: "sublist xs ys \<longleftrightarrow> (\<exists>k. prefix xs (drop k ys))"
proof
  assume "sublist xs ys"
  then obtain ps ss where "ys = ps @ xs @ ss" by (auto simp: sublist_def)
  then have "prefix xs (drop (length ps) ys)" by simp
  then show "\<exists>k. prefix xs (drop k ys)" ..
next
  assume "\<exists>k. prefix xs (drop k ys)"
  then obtain k zs where "drop k ys = xs @ zs" by (auto simp: prefix_def)
  then have "ys = take k ys @ xs @ zs" by (metis append_take_drop_id)
  then show "sublist xs ys" by (auto simp: sublist_def)
qed

lemma ascii_casemap_contains_iff:
  "ascii_casemap_contains pat hay \<longleftrightarrow> sublist (map c_toupper pat) (map c_toupper hay)"
  using casemap_search_iff [of 0 pat 0 hay]
  by (simp add: ascii_casemap_contains_def sublist_iff_prefix_drop)

lemma octet_is_iff: "octet_is pat hay \<longleftrightarrow> pat = hay"
  by (auto simp: octet_is_def Let_def)

section \<open>Properties\<close>

text \<open>
  C9. The wildcard matcher of \<^verbatim>\<open>:matches\<close>, with its coalescing of wildcards and its recursion,
  decides the reference relation of glob patterns for every pattern that does not end inside an
  escape: it never reads outside the pattern, and it agrees with the reference in both letter-case
  modes.
\<close>

theorem octet_matches_decides_glob:
  assumes "glob_tokens p = Some g"
  shows "octet_matches_rec p t cm = Some (glob_match (char_eq cm) g t)"
  using assms by (rule octet_matches_glob(1))

lemma octet_matches_decides_glob_witness:
  "octet_matches_rec ''*b?'' ''abc'' False = Some True"
  using octet_matches_decides_glob [of "''*b?''" "[Any, Lit (CHR ''b''), One]" "''abc''" False]
  by (simp add: char_eq_def glob_Any_step)

text \<open>
  Escapes are not implemented: for every character other than the backslash itself, the
  escaped character, which RFC 3028 makes a literal, does not match itself but matches a backslash;
  and a pattern that ends in a backslash is read past its end as soon as the text has one there.
\<close>

lemma octet_matches_escape_broken:
  assumes "c \<noteq> CHR 0x5C"
  shows "octet_matches [CHR 0x5C, c] [c] = Some False
    \<and> glob_match (=) (rfc_tokens [CHR 0x5C, c]) [c]
    \<and> octet_matches [CHR 0x5C, c] [CHR 0x5C] = Some True
    \<and> octet_matches [CHR 0x5C] [CHR 0x5C] = None"
  using assms by (auto simp: octet_matches_def)

lemma octet_matches_escape_broken_witness: "octet_matches [CHR 0x5C, CHR ''*''] ''*'' = Some False"
  using octet_matches_escape_broken [of "CHR ''*''"] by simp

text \<open>
  C27. The index loop of \<^verbatim>\<open>ascii_casemap_contains\<close> finds a match exactly when the pattern is a
  substring of the text up to letter case; \<^verbatim>\<open>octet_contains\<close> and \<^verbatim>\<open>octet_is\<close> are the
  case-sensitive substring and equality.
\<close>

theorem contains_is_substring:
  "(ascii_casemap_contains pat hay \<longleftrightarrow> sublist (map c_toupper pat) (map c_toupper hay))
   \<and> (octet_contains pat hay \<longleftrightarrow> sublist pat hay) \<and> (octet_is pat hay \<longleftrightarrow> pat = hay)"
  by (simp add: ascii_casemap_contains_iff octet_contains_def strstr_iff_sublist octet_is_iff)

definition num_name :: "num \<Rightarrow> string" where
  "num_name n = (case n of Gt \<Rightarrow> ''gt'' | Ge \<Rightarrow> ''ge'' | Lt \<Rightarrow> ''lt'' | Le \<Rightarrow> ''le''
     | Eq \<Rightarrow> ''eq'' | Ne \<Rightarrow> ''ne'')"

text \<open>
  The match type of a relational test survives its encoding in one integer: for each of the six
  relation names, with \<^verbatim>\<open>:value\<close> and with \<^verbatim>\<open>:count\<close>, the table returns the comparator of that
  relation for both collations that have one, and \<^verbatim>\<open>libsieve_relational_count\<close> tells the two match
  types apart and rejects the four plain ones.
\<close>
theorem relational_encoding_roundtrip:
  "libsieve_comparator_lookup ''i;ascii-numeric'' (tok_VALUE OR libsieve_relational_lookup (Some (num_name n)))
     = Some (Numeric n)
   \<and> libsieve_comparator_lookup ''i;ascii-numeric'' (tok_COUNT OR libsieve_relational_lookup (Some (num_name n)))
     = Some (Numeric n)
   \<and> libsieve_comparator_lookup ''i;ascii-casemap'' (tok_VALUE OR libsieve_relational_lookup (Some (num_name n)))
     = Some (Casemap n)
   \<and> libsieve_comparator_lookup ''i;ascii-casemap'' (tok_COUNT OR libsieve_relational_lookup (Some (num_name n)))
     = Some (Casemap n)
   \<and> libsieve_relational_count (tok_COUNT OR libsieve_relational_lookup (Some (num_name n)))
   \<and> \<not> libsieve_relational_count (tok_VALUE OR libsieve_relational_lookup (Some (num_name n)))
   \<and> \<not> (\<exists>m \<in> {tok_IS, tok_CONTAINS, tok_MATCHES, tok_REGEX}. libsieve_relational_count m)"
  by (cases n) (simp_all add: num_name_def libsieve_relational_lookup_def libsieve_comparator_lookup_def
      libsieve_relational_count_def codes num_of_code_def drop_bit_eq_div push_bit_eq_mult)

definition num_rel :: "num \<Rightarrow> int \<Rightarrow> int \<Rightarrow> bool" where
  "num_rel n x y = (case n of Gt \<Rightarrow> x > y | Ge \<Rightarrow> x \<ge> y | Lt \<Rightarrow> x < y | Le \<Rightarrow> x \<le> y
     | Eq \<Rightarrow> x = y | Ne \<Rightarrow> x \<noteq> y)"

lemma starts_digit_dec_string: "starts_digit (dec_string n)"
proof (cases "dec_string n")
  case (Cons c cs)
  then show ?thesis using dec_string_digits [of n] by (simp add: starts_digit_def)
qed simp

text \<open>
  C28. The numeric comparator on two decimal numbers, both less than 2147483648, compares their values as the
  relation says, the text on the left and the pattern on the right. On two strings that both start with no digit it
  answers yes to every relation, \<^verbatim>\<open>gt\<close>, \<^verbatim>\<open>lt\<close> and \<^verbatim>\<open>ne\<close> included.
\<close>
theorem ascii_numeric_meaning:
  assumes "x < 2 ^ 31" and "y < 2 ^ 31" and "\<not> starts_digit s" and "\<not> starts_digit t"
  shows "ascii_numeric n (dec_string x) (dec_string y) = num_rel n (int y) (int x)
    \<and> ascii_numeric n s t"
  using assms
  by (cases n) (auto simp: ascii_numeric_def starts_digit_dec_string atoi_dec_string num_rel_def)

lemma ascii_numeric_meaning_witness:
  "ascii_numeric Gt (dec_string 5) (dec_string 12) \<and> ascii_numeric Ne ''x'' ''x''"
  using ascii_numeric_meaning [of 5 12 "''x''" "''x''" Gt]
    ascii_numeric_meaning [of 5 12 "''x''" "''x''" Ne]
  by (simp add: num_rel_def starts_digit_def c_isdigit_def)

end
