(* ===== verification/Ast.thy ===== *)
theory Ast
  imports Comparator "HOL-Library.Multiset"
begin

text \<open>
  The abstract syntax tree of \<^verbatim>\<open>src/sv_interface/tree.h\<close> and the operations of
  \<^verbatim>\<open>tree.c\<close>. A linked list is a list and \<^verbatim>\<open>NULL\<close> is its empty list; the tagged
  unions \<^verbatim>\<open>struct Test\<close> and \<^verbatim>\<open>struct Commandlist\<close> are datatypes with one constructor per
  tag (a commandlist is a list of commands). A test is \<^verbatim>\<open>NULL\<close> where the grammar recovered from
  an error. The freeing functions return the blocks they free, in the order they free them.
\<close>

section \<open>The tree\<close>

datatype test =
    Anyof "test option list"
  | Allof "test option list"
  | Exists "string list"
  | Sfalse
  | Strue
  | Header int comparator "string list" "pattern list"
  | Hasflag "(int \<times> comparator option) option" "string list"
  | Address int comparator "string list" "pattern list" int
  | Envelope int comparator "string list" "pattern list" int
  | Tnot "test option"
  | Tsize int int

record vacation =
  v_subject :: "string option"
  v_days :: int
  v_addresses :: "string list"
  v_message :: string
  v_mime :: int
  v_from :: "string option"
  v_handle :: "string option"

record notification =
  n_method :: "string option"
  n_id :: "string option"
  n_options :: "string list"
  n_priority :: string
  n_message :: string

datatype command =
    Cond "test option" "command list" "command list"
  | Rejct string
  | Fileinto string "string list"
  | Keep "string list"
  | Redirect string
  | Vacation vacation
  | Stop
  | Discard
  | Setflag "string list"
  | Addflag "string list"
  | Removeflag "string list"
  | Notify notification
  | Validnotif

definition libsieve_new_sl :: "string \<Rightarrow> string list \<Rightarrow> string list" where
  "libsieve_new_sl s n = s # n"

definition libsieve_new_pl :: "regex_t \<Rightarrow> pattern list \<Rightarrow> pattern list" where
  "libsieve_new_pl pat n = PatRe pat # n"

definition libsieve_new_testlist :: "test option \<Rightarrow> test option list \<Rightarrow> test option list" where
  "libsieve_new_testlist t n = t # n"

definition libsieve_new_if :: "test option \<Rightarrow> command list \<Rightarrow> command list \<Rightarrow> command list" where
  "libsieve_new_if t y n = [Cond t y n]"

section \<open>Freeing\<close>

datatype heap_block =
    BStr string | BSl | BPat pattern | BRegexInner regex_t | BPl | BTl | BTest | BCmd

definition libsieve_free_sl :: "string list \<Rightarrow> heap_block list" where
  "libsieve_free_sl sl = concat (map (\<lambda>s. [BStr s, BSl]) sl)"

definition libsieve_free_sl_only :: "string list \<Rightarrow> heap_block list" where
  "libsieve_free_sl_only sl = map (\<lambda>_. BSl) sl"

definition libsieve_free_pl :: "pattern list \<Rightarrow> int \<Rightarrow> heap_block list" where
  "libsieve_free_pl pl comptag =
     concat (map (\<lambda>p. (case p of PatRe r \<Rightarrow> if comptag = tok_REGEX then [BRegexInner r] else []
                              | PatStr _ \<Rightarrow> []) @ [BPat p, BPl]) pl)"

fun libsieve_free_test :: "test option \<Rightarrow> heap_block list"
  and free_test_node :: "test \<Rightarrow> heap_block list"
  and libsieve_free_tl :: "test option list \<Rightarrow> heap_block list" where
  "libsieve_free_test None = []"
| "libsieve_free_test (Some t) = free_test_node t"
| "free_test_node (Anyof ts) = libsieve_free_tl ts @ [BTest]"
| "free_test_node (Allof ts) = libsieve_free_tl ts @ [BTest]"
| "free_test_node (Exists sl) = libsieve_free_sl sl @ [BTest]"
| "free_test_node (Tsize _ _) = [BTest]"
| "free_test_node Sfalse = [BTest]"
| "free_test_node Strue = [BTest]"
| "free_test_node (Hasflag _ sl) = libsieve_free_sl sl @ [BTest]"
| "free_test_node (Header comptag _ sl pl) = libsieve_free_sl sl @ libsieve_free_pl pl comptag @ [BTest]"
| "free_test_node (Address comptag _ sl pl _) = libsieve_free_sl sl @ libsieve_free_pl pl comptag @ [BTest]"
| "free_test_node (Envelope comptag _ sl pl _) = libsieve_free_sl sl @ libsieve_free_pl pl comptag @ [BTest]"
| "free_test_node (Tnot t) = libsieve_free_test t @ [BTest]"
| "libsieve_free_tl [] = []"
| "libsieve_free_tl (t # ts) = libsieve_free_test t @ [BTl] @ libsieve_free_tl ts"

abbreviation free_opt :: "string option \<Rightarrow> heap_block list" where
  "free_opt p \<equiv> (case p of None \<Rightarrow> [] | Some s \<Rightarrow> [BStr s])"

fun libsieve_free_tree :: "command list \<Rightarrow> heap_block list"
  and free_command :: "command \<Rightarrow> heap_block list" where
  "libsieve_free_tree [] = []"
| "libsieve_free_tree (c # cl) = free_command c @ [BCmd] @ libsieve_free_tree cl"
| "free_command (Cond t y n) = libsieve_free_test t @ libsieve_free_tree y @ libsieve_free_tree n"
| "free_command (Fileinto mailbox flags) = [BStr mailbox] @ libsieve_free_sl flags"
| "free_command (Keep flags) = libsieve_free_sl flags"
| "free_command (Redirect s) = [BStr s]"
| "free_command (Rejct s) = [BStr s]"
| "free_command (Vacation v) =
     free_opt (v_from v) @ free_opt (v_handle v) @ free_opt (v_subject v)
     @ libsieve_free_sl (v_addresses v) @ [BStr (v_message v)]"
| "free_command (Setflag sl) = libsieve_free_sl sl"
| "free_command (Addflag sl) = libsieve_free_sl sl"
| "free_command (Removeflag sl) = libsieve_free_sl sl"
| "free_command Stop = []"
| "free_command Discard = []"
| "free_command (Notify n) =
     free_opt (n_method n) @ free_opt (n_id n) @ libsieve_free_sl (n_options n) @ [BStr (n_message n)]"
| "free_command Validnotif = []"

section \<open>A string list as an array\<close>

text \<open>
  \<^verbatim>\<open>libsieve_stringlist_to_chararray\<close>. A cell of the array is indeterminate, \<^verbatim>\<open>NULL\<close> or
  a string; \<open>oks\<close> are the outcomes of the calls of \<^verbatim>\<open>realloc\<close>. The result is \<open>None\<close> for an
  access outside the array, and \<open>Some None\<close> for \<^verbatim>\<open>NULL\<close>.
\<close>

datatype cell = Indet | Nul | Ptr string

definition cell_write :: "cell list \<Rightarrow> nat \<Rightarrow> cell \<Rightarrow> cell list option" where
  "cell_write a i c = (if i < length a then Some (a[i := c]) else None)"

fun chararray_loop ::
  "bool list \<Rightarrow> string list \<Rightarrow> nat \<Rightarrow> nat \<Rightarrow> cell list option \<Rightarrow> cell list option option" where
  "chararray_loop oks [] space n ret = Some ret"
| "chararray_loop oks (s # sl) space n ret =
     (if n + 1 < space then
        do {
          a \<leftarrow> ret;
          a \<leftarrow> cell_write a n (Ptr s);
          a \<leftarrow> cell_write a (n + 1) Nul;
          chararray_loop oks sl space (n + 1) (Some a)
        }
      else
        (case oks of
           [] \<Rightarrow> None
         | False # _ \<Rightarrow> Some None
         | True # oks \<Rightarrow>
             (let space = space + 4;
                  old = (case ret of None \<Rightarrow> [] | Some a \<Rightarrow> a);
                  a = old @ replicate (space - length old) Indet
              in do {
                a \<leftarrow> cell_write a n (Ptr s);
                a \<leftarrow> cell_write a (n + 1) Nul;
                chararray_loop oks sl space (n + 1) (Some a)
              })))"

declare chararray_loop.simps(2) [simp del]

definition libsieve_stringlist_to_chararray :: "bool list \<Rightarrow> string list \<Rightarrow> cell list option option" where
  "libsieve_stringlist_to_chararray oks list = chararray_loop oks list 0 0 None"

text \<open>Reading the array as the callbacks do, up to the \<^verbatim>\<open>NULL\<close>.\<close>

fun read_chararray :: "cell list \<Rightarrow> string list option" where
  "read_chararray (Nul # _) = Some []"
| "read_chararray (Ptr s # a) = map_option (Cons s) (read_chararray a)"
| "read_chararray _ = None"

section \<open>Arrays of strings\<close>

definition chararray_inv :: "string list \<Rightarrow> nat \<Rightarrow> nat \<Rightarrow> cell list option \<Rightarrow> bool" where
  "chararray_inv seen space n ret =
     (n = length seen \<and> space = (if n = 0 then 0 else 4 * (1 + n div 4)) \<and>
      (case ret of None \<Rightarrow> n = 0
       | Some a \<Rightarrow> 0 < n \<and> length a = space \<and> take n a = map Ptr seen \<and> a ! n = Nul))"

lemma read_chararray_prefix:
  "n < length a \<Longrightarrow> take n a = map Ptr xs \<Longrightarrow> a ! n = Nul \<Longrightarrow> read_chararray a = Some xs"
proof (induction n arbitrary: a xs)
  case 0
  then show ?case by (cases a) auto
next
  case (Suc n)
  then obtain c a' x xs' where "a = c # a'" "xs = x # xs'" by (cases a; cases xs) auto
  with Suc show ?case by auto
qed

definition reallocs :: "nat \<Rightarrow> nat \<Rightarrow> nat" where
  "reallocs n m = (if m = 0 then 0 else if n = 0 then 1 + m div 4 else (n + m) div 4 - n div 4)"

lemma chararray_inv_push:
  assumes "length a = 4 * (1 + Suc (length seen) div 4)" and "take (length seen) a = map Ptr seen"
  shows "\<exists>a'. cell_write a (length seen) (Ptr s) \<bind> (\<lambda>a. cell_write a (length seen + 1) Nul) = Some a' \<and>
     chararray_inv (seen @ [s]) (length a) (length seen + 1) (Some a')"
proof -
  have "Suc (length seen) < length a" using assms(1) by presburger
  then show ?thesis using assms
    by (simp add: cell_write_def chararray_inv_def take_Suc_conv_app_nth)
qed

lemma chararray_loop_result:
  "chararray_inv seen space n ret \<Longrightarrow> reallocs n (length sl) \<le> length oks \<Longrightarrow>
   (if False \<in> set (take (reallocs n (length sl)) oks) then chararray_loop oks sl space n ret = Some None
    else \<exists>r sp. chararray_loop oks sl space n ret = Some r \<and> chararray_inv (seen @ sl) sp (n + length sl) r)"
proof (induction sl arbitrary: oks seen space n ret)
  case Nil
  then show ?case by (auto simp: reallocs_def)
next
  case (Cons s sl)
  show ?case
  proof (cases "n + 1 < space")
    case True
    then obtain a where a: "ret = Some a" "length a = space" "take n a = map Ptr seen" "n = length seen"
      "space = 4 * (1 + n div 4)" "0 < n"
      using Cons.prems(1) by (auto simp: chararray_inv_def split: option.splits if_splits)
    then have "Suc n div 4 = n div 4" using True by presburger
    then have "length a = 4 * (1 + Suc (length seen) div 4)" using a by simp
    from chararray_inv_push [OF this, of s] a obtain a' where
      a': "cell_write a n (Ptr s) \<bind> (\<lambda>a. cell_write a (n + 1) Nul) = Some a'"
      "chararray_inv (seen @ [s]) space (n + 1) (Some a')" by auto
    have "reallocs (n + 1) (length sl) = reallocs n (length (s # sl))"
      using \<open>Suc n div 4 = n div 4\<close> a by (auto simp: reallocs_def)
    moreover have "chararray_loop oks (s # sl) space n ret = chararray_loop oks sl space (n + 1) (Some a')"
      using True a(1) by (simp add: chararray_loop.simps bind_bind_Some [OF a'(1)] del: One_nat_def add_Suc_right)
    ultimately show ?thesis
      using Cons.IH [OF a'(2), of oks] Cons.prems(2) by (simp split: if_splits)
  next
    case False
    have n: "n = length seen" "space = (if n = 0 then 0 else 4 * (1 + n div 4))"
      using Cons.prems(1) by (auto simp: chararray_inv_def)
    have step: "Suc n div 4 = (if n = 0 then 0 else Suc (n div 4))"
    proof (cases "n = 0")
      case pos: False
      have "4 * (1 + n div 4) \<le> n + 1" using False n(2) pos by simp
      then have "n mod 4 = 3" by presburger
      then have "Suc n div 4 = Suc (n div 4)" by presburger
      then show ?thesis using pos by simp
    qed simp
    have r: "reallocs n (length (s # sl)) = Suc (reallocs (n + 1) (length sl))"
    proof -
      have "Suc n div 4 \<le> (Suc n + length sl) div 4" by (rule div_le_mono) simp
      then show ?thesis using step
        by (cases "n = 0") (simp_all add: reallocs_def flip: Suc_diff_le)
    qed
    obtain b oks' where oks: "oks = b # oks'" using r Cons.prems(2) by (cases oks) auto
    show ?thesis
    proof (cases b)
      case True
      define old where "old = (case ret of None \<Rightarrow> [] | Some a \<Rightarrow> a)"
      define a where "a = old @ replicate (space + 4 - length old) Indet"
      have "take (length seen) a = map Ptr seen" "length a = 4 * (1 + Suc (length seen) div 4)" "length a = space + 4"
        using Cons.prems(1) False step
        by (auto simp: chararray_inv_def a_def old_def split: option.splits if_splits)
      from chararray_inv_push [OF this(2,1), of s] this(3) n obtain a' where
        a': "cell_write a n (Ptr s) \<bind> (\<lambda>a. cell_write a (n + 1) Nul) = Some a'"
        "chararray_inv (seen @ [s]) (space + 4) (n + 1) (Some a')" by auto
      have "chararray_loop oks (s # sl) space n ret = chararray_loop oks' sl (space + 4) (n + 1) (Some a')"
        using False a'(1) oks True
        by (simp add: chararray_loop.simps Let_def bind_bind_Some [OF a'(1)] flip: old_def a_def del: One_nat_def add_Suc_right)
      then show ?thesis
        using Cons.IH [OF a'(2), of oks'] Cons.prems(2) r oks True by (simp split: if_splits)
    next
      case False
      then show ?thesis using \<open>\<not> n + 1 < space\<close> r oks by (simp add: chararray_loop.simps)
    qed
  qed
qed

text \<open>
  C25. \<^verbatim>\<open>libsieve_stringlist_to_chararray\<close> never writes outside its array, which grows by four
  cells at a time; it asks for memory once and again at every fourth string. The empty list gives
  \<^verbatim>\<open>NULL\<close>, as does any list when one of those requests fails; otherwise the array holds exactly
  the strings of the list, in order, and the terminating \<^verbatim>\<open>NULL\<close>.
\<close>
theorem chararray_result:
  assumes "1 + length list div 4 \<le> length oks"
  shows "if list = [] \<or> False \<in> set (take (1 + length list div 4) oks)
     then libsieve_stringlist_to_chararray oks list = Some None
     else \<exists>a. libsieve_stringlist_to_chararray oks list = Some (Some a) \<and> read_chararray a = Some list"
proof (cases "list = []")
  case True
  then show ?thesis by (simp add: libsieve_stringlist_to_chararray_def)
next
  case False
  then have "reallocs 0 (length list) = 1 + length list div 4" by (simp add: reallocs_def)
  moreover have "chararray_inv [] 0 0 None" by (simp add: chararray_inv_def)
  ultimately have loop: "if False \<in> set (take (1 + length list div 4) oks) then chararray_loop oks list 0 0 None = Some None
    else \<exists>r sp. chararray_loop oks list 0 0 None = Some r \<and> chararray_inv list sp (length list) r"
    using chararray_loop_result [of "[]" 0 0 None list oks] assms by (simp split: if_splits)
  have "\<exists>a. r = Some a \<and> read_chararray a = Some list" if "chararray_inv list sp (length list) r" for sp r
    using that False
    by (auto simp: chararray_inv_def read_chararray_prefix [of "length list"] split: option.splits)
  then show ?thesis using loop False
    by (auto simp: libsieve_stringlist_to_chararray_def split: if_splits)
qed

lemma chararray_result_witness:
  "\<exists>a. libsieve_stringlist_to_chararray [True, True] [''a'', ''b'', ''c'', ''d''] = Some (Some a) \<and>
     read_chararray a = Some [''a'', ''b'', ''c'', ''d'']"
  using chararray_result [of "[''a'', ''b'', ''c'', ''d'']" "[True, True]"] by simp

end
