(* ===== verification/Header_Hash.thy ===== *)
theory Header_Hash
  imports Util
begin

text \<open>
  The message headers: the list that the actions of the grammar \<^verbatim>\<open>src/sv_parser/header.y\<close>
  build, and the open-addressing hash table of \<^verbatim>\<open>src/sv_interface/message2.c\<close> that
  \<^verbatim>\<open>libsieve_message2_parseheader\<close> fills from it and \<^verbatim>\<open>getheader\<close> reads. The tokens of
  the header lexer are the input; the grammar, which is regular, is run here as a state machine.
\<close>

section \<open>The header list\<close>

text \<open>
  \<^verbatim>\<open>struct header\<close>: \<open>h_name\<close> is \<open>None\<close> until it is set (the struct comes from
  \<^verbatim>\<open>malloc\<close>), \<open>h_contents\<close> is the array of bodies, of which the first \<open>h_count\<close> are used and
  the next one is \<^verbatim>\<open>NULL\<close>; its allocated length is one more than \<open>h_space\<close>.
\<close>

datatype body_cell = BodyIndet | BodyNull | Body string

record header =
  h_name :: "string option"
  h_count :: nat
  h_space :: nat
  h_contents :: "body_cell list"

definition libsieve_headerappend :: "header list \<Rightarrow> header list" where
  "libsieve_headerappend hl =
     \<lparr>h_name = None, h_count = 0, h_space = 1, h_contents = [BodyNull, BodyNull]\<rparr> # hl"

definition libsieve_headerentry :: "header list \<Rightarrow> string \<Rightarrow> string \<Rightarrow> header list option" where
  "libsieve_headerentry hl name body =
     (case hl of
        [] \<Rightarrow> None
      | h # hl \<Rightarrow>
          Some (h\<lparr>h_name := Some (libsieve_strtolower name (length name)),
                  h_contents := (h_contents h)[0 := Body body], h_count := 1\<rparr> # hl))"

section \<open>The grammar\<close>

datatype htoken = NAME string | COLON | TEXT string | WRAP string

text \<open>
  The states between two tokens: at the start of a header, after its name, after its colon, and
  in its body. An empty body has no action: bison copies \<^verbatim>\<open>$1\<close> of an empty right-hand side, an
  indeterminate slot of its stack, which the header then holds as its body; such an input makes
  the parse undefined (\<open>None\<close>). A syntax error is \<open>Some None\<close>.
\<close>

datatype hstate = HStart | HName string | HColon string | HBody string string

fun headerparse :: "hstate \<Rightarrow> header list \<Rightarrow> htoken list \<Rightarrow> header list option option" where
  "headerparse HStart hl (NAME n # ts) = headerparse (HName n) hl ts"
| "headerparse HStart hl _ = Some None"
| "headerparse (HName n) hl (COLON # ts) = headerparse (HColon n) hl ts"
| "headerparse (HName n) hl _ = Some None"
| "headerparse (HColon n) hl (TEXT t # ts) = headerparse (HBody n t) hl ts"
| "headerparse (HColon n) hl _ = None"
| "headerparse (HBody n b) hl (WRAP w # ts) =
     do { b \<leftarrow> strconcat_str [b, w]; headerparse (HBody n b) hl ts }"
| "headerparse (HBody n b) hl (NAME m # ts) =
     do {
       hl \<leftarrow> libsieve_headerentry hl n b;
       headerparse (HName m) (libsieve_headerappend hl) ts
     }"
| "headerparse (HBody n b) hl [] =
     do {
       hl \<leftarrow> libsieve_headerentry hl n b;
       Some (Some (libsieve_headerappend hl))
     }"
| "headerparse (HBody n b) hl _ = Some None"

text \<open>\<^verbatim>\<open>libsieve_header_parse_buffer\<close>: the struct on top of the list is dropped.\<close>

definition libsieve_header_parse_buffer :: "htoken list \<Rightarrow> header list option option" where
  "libsieve_header_parse_buffer ts =
     do {
       r \<leftarrow> headerparse HStart (libsieve_headerappend []) ts;
       (case r of
          None \<Rightarrow> Some None
        | Some hl \<Rightarrow> (case hl of [] \<Rightarrow> None | _ # newdata \<Rightarrow> Some (Some newdata)))
     }"

section \<open>The hash table\<close>

definition HEADERHASHSIZE :: nat where "HEADERHASHSIZE = 1019"

record message =
  m_hashsize :: nat
  m_hashfull :: bool
  m_header :: "string option"
  m_hash :: "header option list"

text \<open>
  \<^verbatim>\<open>hashheader\<close>: characters are signed, and the remainder has the sign of the dividend, so
  the hash of a name with an 8-bit character can be negative.
\<close>

fun hashheader_loop :: "int \<Rightarrow> nat \<Rightarrow> string \<Rightarrow> int" where
  "hashheader_loop x hashsize [] = x"
| "hashheader_loop x hashsize (c # s) =
     (if \<not> c_iscntrl c \<and> c \<noteq> CHR '' '' \<and> c \<noteq> CHR '':''
      then hashheader_loop (c_rem (x * 256 + schar c) (int hashsize)) hashsize s
      else x)"

definition hashheader :: "string \<Rightarrow> nat \<Rightarrow> int" where
  "hashheader header hashsize = hashheader_loop 0 hashsize header"

definition libsieve_message2_alloc :: "bool \<Rightarrow> bool \<Rightarrow> int \<times> message option" where
  "libsieve_message2_alloc ok1 ok2 =
     (if \<not> ok1 then (SIEVE2_ERROR_NOMEM, None)
      else if \<not> ok2 then (SIEVE2_ERROR_NOMEM, None)
      else (SIEVE2_OK,
            Some \<lparr>m_hashsize = HEADERHASHSIZE, m_hashfull = False, m_header = None,
                  m_hash = replicate HEADERHASHSIZE None\<rparr>))"

text \<open>
  The probing loop of \<^verbatim>\<open>libsieve_message2_parseheader\<close>, from slot \<open>c\<close>; it gives up when it
  is back at \<open>cl\<close>. It takes at most as many steps as there are slots, which is the fuel its caller
  gives. A slot outside the table, or one whose name was never set, is an undefined access.
\<close>

fun probe :: "nat \<Rightarrow> header option list \<Rightarrow> nat \<Rightarrow> string \<Rightarrow> nat \<Rightarrow> nat \<Rightarrow> nat option" where
  "probe 0 hash hashsize name cl c = None"
| "probe (Suc fuel) hash hashsize name cl c =
     (if length hash \<le> c then None
      else (case hash ! c of
              None \<Rightarrow> Some c
            | Some h \<Rightarrow>
                (case h_name h of
                   None \<Rightarrow> None
                 | Some n \<Rightarrow>
                     (if name = n then Some c
                      else (let c = (c + 1) mod hashsize
                            in if c = cl then Some c else probe fuel hash hashsize name cl c)))))"

definition body_write :: "body_cell list \<Rightarrow> nat \<Rightarrow> body_cell \<Rightarrow> body_cell list option" where
  "body_write cs i c = (if i < length cs then Some (cs[i := c]) else None)"

text \<open>
  Adding a body to the header of an occupied slot; \<open>ok\<close> is the outcome of the \<^verbatim>\<open>realloc\<close>,
  whose size argument has already advanced \<^verbatim>\<open>space\<close> when it fails.
\<close>

definition header_add :: "bool \<Rightarrow> header \<Rightarrow> body_cell \<Rightarrow> (bool \<times> header) option" where
  "header_add ok e body =
     (if h_count e < h_space e then
        do {
          cs \<leftarrow> body_write (h_contents e) (h_count e) body;
          cs \<leftarrow> body_write cs (h_count e + 1) BodyNull;
          Some (True, e\<lparr>h_contents := cs, h_count := h_count e + 1\<rparr>)
        }
      else
        (let e = e\<lparr>h_space := h_space e + 8\<rparr>
         in if \<not> ok then Some (False, e)
            else
              (let n = h_space e + 1;
                   cs = take n (h_contents e) @ replicate (n - length (h_contents e)) BodyIndet
               in do {
                 cs \<leftarrow> body_write cs (h_count e) body;
                 cs \<leftarrow> body_write cs (h_count e + 1) BodyNull;
                 Some (True, e\<lparr>h_contents := cs, h_count := h_count e + 1\<rparr>)
               })))"

text \<open>
  One turn of the loop over the header list; \<open>False\<close> where the \<^verbatim>\<open>realloc\<close> fails and the function
  returns \<^verbatim>\<open>SIEVE2_ERROR_NOMEM\<close>. The list \<open>oks\<close> of the whole loop has an outcome for each header.
\<close>

definition hash_insert :: "bool \<Rightarrow> message \<Rightarrow> header \<Rightarrow> (bool \<times> message) option" where
  "hash_insert ok m h =
     do {
       name \<leftarrow> h_name h;
       let x = hashheader name (m_hashsize m);
       let cl = nat x;
       c \<leftarrow> (if x < 0 then None else probe (m_hashsize m) (m_hash m) (m_hashsize m) name cl cl);
       (case m_hash m ! c of
          Some e \<Rightarrow>
            do {
              body \<leftarrow> (case h_contents h of [] \<Rightarrow> None | b # _ \<Rightarrow> Some b);
              (done, e) \<leftarrow> header_add ok e body;
              Some (done, m\<lparr>m_hash := (m_hash m)[c := Some e]\<rparr>)
            }
        | None \<Rightarrow> Some (True, m\<lparr>m_hash := (m_hash m)[c := Some h]\<rparr>))
     }"

fun hash_fill :: "bool list \<Rightarrow> message \<Rightarrow> header list \<Rightarrow> (int \<times> message) option" where
  "hash_fill oks m [] = Some (SIEVE2_OK, m\<lparr>m_hashfull := True\<rparr>)"
| "hash_fill oks m (h # hl) =
     do {
       (done, m) \<leftarrow> hash_insert (oks \<noteq> [] \<and> hd oks) m h;
       (if done then hash_fill (tl oks) m hl else Some (SIEVE2_ERROR_NOMEM, m))
     }"

text \<open>The probing loop of \<^verbatim>\<open>getheader\<close>: the slot whose header has the name, if there is one.\<close>

fun lookup_probe :: "nat \<Rightarrow> header option list \<Rightarrow> nat \<Rightarrow> string \<Rightarrow> nat \<Rightarrow> nat \<Rightarrow> nat option option" where
  "lookup_probe 0 hash hashsize name cl c = None"
| "lookup_probe (Suc fuel) hash hashsize name cl c =
     (if length hash \<le> c then None
      else (case hash ! c of
              None \<Rightarrow> Some None
            | Some h \<Rightarrow>
                (case h_name h of
                   None \<Rightarrow> None
                 | Some n \<Rightarrow>
                     (if name = n then Some (Some c)
                      else (let c = (c + 1) mod hashsize
                            in if c = cl then Some None
                               else lookup_probe fuel hash hashsize name cl c)))))"

definition getheader :: "message \<Rightarrow> string \<Rightarrow> (int \<times> nat option) option" where
  "getheader m chead =
     (let head = libsieve_strtolower chead (length chead);
          x = hashheader head (m_hashsize m)
      in do {
        body \<leftarrow> (if x < 0 then None
                else lookup_probe (m_hashsize m) (m_hash m) (m_hashsize m) head (nat x) (nat x));
        Some (if body = None then SIEVE2_ERROR_FAIL else SIEVE2_OK, body)
      })"

declare probe.simps(2) [simp del] lookup_probe.simps(2) [simp del]

text \<open>The bodies of an array of contents, up to its \<^verbatim>\<open>NULL\<close>.\<close>

fun read_bodies :: "body_cell list \<Rightarrow> string list option" where
  "read_bodies (BodyNull # _) = Some []"
| "read_bodies (Body b # cs) = map_option (Cons b) (read_bodies cs)"
| "read_bodies _ = None"

section \<open>The hash of a 7-bit name\<close>

abbreviation seven_bit :: "string \<Rightarrow> bool" where
  "seven_bit s \<equiv> \<forall>c \<in> set s. code c < 128"

lemma hashheader_loop_range:
  "seven_bit s \<Longrightarrow> 0 < n \<Longrightarrow> 0 \<le> x \<Longrightarrow> x < int n \<Longrightarrow>
   0 \<le> hashheader_loop x n s \<and> hashheader_loop x n s < int n"
  by (induction x n s rule: hashheader_loop.induct) (auto simp: schar_def)

lemma hashheader_range:
  "seven_bit s \<Longrightarrow> 0 < n \<Longrightarrow> 0 \<le> hashheader s n \<and> hashheader s n < int n"
  by (simp add: hashheader_def hashheader_loop_range)

section \<open>Probing\<close>

definition key_at :: "header option list \<Rightarrow> nat \<Rightarrow> string option" where
  "key_at t j = Option.bind (t ! j) h_name"

definition named :: "header option list \<Rightarrow> bool" where
  "named t \<longleftrightarrow> (\<forall>h. Some h \<in> set t \<longrightarrow> h_name h \<noteq> None)"

definition stops :: "header option list \<Rightarrow> string \<Rightarrow> nat \<Rightarrow> bool" where
  "stops t k j \<longleftrightarrow> key_at t j = None \<or> key_at t j = Some k"

lemma key_at_None: "named t \<Longrightarrow> j < length t \<Longrightarrow> key_at t j = None \<longleftrightarrow> t ! j = None"
  by (cases "t ! j") (auto simp: key_at_def named_def dest: nth_mem)

lemma succ_mod: "((x + d) mod n + 1) mod n = (x + Suc d) mod (n :: nat)"
  by (simp add: mod_simps)

lemma mod_back: "x < n \<Longrightarrow> d < n \<Longrightarrow> (x + Suc d) mod n = x \<longleftrightarrow> Suc d = n" for x d n :: nat
  by (cases "x + Suc d < n") (auto simp: mod_if)

lemma probe_step:
  assumes "named t" and "length t = n" and "x < n" and "d < n"
  shows "probe (Suc f) t n k x ((x + d) mod n) =
    (if stops t k ((x + d) mod n) then Some ((x + d) mod n)
     else if Suc d = n then Some x else probe f t n k x ((x + Suc d) mod n))"
proof -
  obtain j where j: "(x + d) mod n = j" "j < n" using assms(3) mod_less_divisor [of n "x + d"] by auto
  then show ?thesis
    using assms key_at_None [of t j] mod_back [of x n d] succ_mod [of x d n]
    by (cases "t ! j")
      (auto simp: probe.simps lookup_probe.simps stops_def key_at_def Let_def split: option.splits)
qed

lemma lookup_step:
  assumes "named t" and "length t = n" and "x < n" and "d < n"
  shows "lookup_probe (Suc f) t n k x ((x + d) mod n) =
    (if stops t k ((x + d) mod n)
     then Some (if key_at t ((x + d) mod n) = None then None else Some ((x + d) mod n))
     else if Suc d = n then Some None else lookup_probe f t n k x ((x + Suc d) mod n))"
proof -
  obtain j where j: "(x + d) mod n = j" "j < n" using assms(3) mod_less_divisor [of n "x + d"] by auto
  then show ?thesis
    using assms key_at_None [of t j] mod_back [of x n d] succ_mod [of x d n]
    by (cases "t ! j")
      (auto simp: probe.simps lookup_probe.simps stops_def key_at_def Let_def split: option.splits)
qed

lemma probe_reaches:
  assumes "named t" and "length t = n" and "x < n"
    and "d + e < n" and "\<forall>d' < d + e. \<not> stops t k ((x + d') mod n)" and "stops t k ((x + (d + e)) mod n)"
  shows "probe (n - d) t n k x ((x + d) mod n) = Some ((x + (d + e)) mod n) \<and>
    lookup_probe (n - d) t n k x ((x + d) mod n)
      = Some (if key_at t ((x + (d + e)) mod n) = None then None else Some ((x + (d + e)) mod n))"
  using assms(4-6)
proof (induction e arbitrary: d)
  case 0
  then show ?case
    using probe_step [OF assms(1-3), of d "n - Suc d" k] lookup_step [OF assms(1-3), of d "n - Suc d" k]
    by (simp add: Suc_diff_Suc)
next
  case (Suc e)
  then show ?case
    using probe_step [OF assms(1-3), of d "n - Suc d" k] lookup_step [OF assms(1-3), of d "n - Suc d" k]
      Suc.IH [of "Suc d"]
    by (simp add: Suc_diff_Suc)
qed

lemma probe_runs_round:
  assumes "named t" and "length t = n" and "x < n"
    and "d < n" and "\<forall>d' < n. \<not> stops t k ((x + d') mod n)"
  shows "probe (n - d) t n k x ((x + d) mod n) = Some x \<and>
    lookup_probe (n - d) t n k x ((x + d) mod n) = Some None"
  using assms(4)
proof (induction "n - d" arbitrary: d)
  case (Suc m)
  have "n - d = Suc (n - Suc d)" using Suc.prems by (simp add: Suc_diff_Suc)
  then show ?case
    using probe_step [OF assms(1-3), of d "n - Suc d" k] lookup_step [OF assms(1-3), of d "n - Suc d" k]
      Suc.hyps(1) [of "Suc d"] Suc.hyps(2) Suc.prems assms(5)
    by (cases "Suc d = n") auto
qed simp

section \<open>The table as a map\<close>

abbreviation home :: "nat \<Rightarrow> string \<Rightarrow> nat" where
  "home n k \<equiv> nat (hashheader k n)"

definition probe_path :: "header option list \<Rightarrow> nat \<Rightarrow> string \<Rightarrow> nat \<Rightarrow> bool" where
  "probe_path t n k j \<longleftrightarrow> (\<exists>d < n. j = (home n k + d) mod n \<and> (\<forall>d' < d. \<not> stops t k ((home n k + d') mod n)))"

definition entry_ok :: "header \<Rightarrow> string list \<Rightarrow> bool" where
  "entry_ok e bs \<longleftrightarrow> h_name e \<noteq> None \<and> h_count e = length bs \<and> 1 \<le> length bs \<and> h_count e \<le> h_space e \<and>
     length (h_contents e) = h_space e + 1 \<and> read_bodies (h_contents e) = Some bs"

definition table_inv :: "message \<Rightarrow> bool" where
  "table_inv m \<longleftrightarrow> 0 < m_hashsize m \<and> length (m_hash m) = m_hashsize m \<and>
     (\<forall>e. Some e \<in> set (m_hash m) \<longrightarrow> (\<exists>bs. entry_ok e bs)) \<and>
     (\<forall>j < m_hashsize m. \<forall>k. key_at (m_hash m) j = Some k \<longrightarrow>
        seven_bit k \<and> probe_path (m_hash m) (m_hashsize m) k j)"

lemma table_inv_named: "table_inv m \<Longrightarrow> named (m_hash m)"
  by (auto simp: table_inv_def named_def entry_ok_def)

lemma path_probe:
  assumes "named t" and "length t = n" and "seven_bit k" and "probe_path t n k j" and "stops t k j" and "0 < n"
  shows "probe n t n k (home n k) (home n k) = Some j \<and>
    lookup_probe n t n k (home n k) (home n k) = Some (if key_at t j = None then None else Some j)"
proof -
  obtain d where d: "d < n" "j = (home n k + d) mod n" "\<forall>d' < d. \<not> stops t k ((home n k + d') mod n)"
    using assms(4) by (auto simp: probe_path_def)
  have h: "home n k < n" using hashheader_range [OF assms(3,6)] by auto
  from probe_reaches [OF assms(1,2) h, of 0 d k] d h assms(5) show ?thesis by simp
qed

lemma path_unique:
  assumes "probe_path t n k i" and "probe_path t n k j" and "stops t k i" and "stops t k j"
  shows "i = j"
proof -
  obtain d e where d: "i = (home n k + d) mod n" "\<forall>d' < d. \<not> stops t k ((home n k + d') mod n)"
    and e: "j = (home n k + e) mod n" "\<forall>d' < e. \<not> stops t k ((home n k + d') mod n)"
    using assms(1,2) unfolding probe_path_def by blast
  have "d = e" using d e assms(3,4) by (metis linorder_neqE_nat)
  then show ?thesis using d(1) e(1) by simp
qed

lemma absent_path:
  assumes "\<not> (\<forall>d < n. \<not> stops t k ((home n k + d) mod n))"
  obtains j where "probe_path t n k j" and "stops t k j"
proof -
  define d where "d = (LEAST d. d < n \<and> stops t k ((home n k + d) mod n))"
  have "d < n \<and> stops t k ((home n k + d) mod n)" unfolding d_def by (rule LeastI_ex) (use assms in blast)
  moreover have "\<not> stops t k ((home n k + d') mod n)" if "d' < d" for d'
    using not_less_Least [of d' "\<lambda>d. d < n \<and> stops t k ((home n k + d) mod n)"] that calculation
    by (auto simp: d_def)
  ultimately show ?thesis using that [of "(home n k + d) mod n"] by (auto simp: probe_path_def)
qed

definition table_keys :: "message \<Rightarrow> string set" where
  "table_keys m = {k. \<exists>j < m_hashsize m. key_at (m_hash m) j = Some k}"

definition table_lookup :: "message \<Rightarrow> string \<Rightarrow> string list option" where
  "table_lookup m k =
     do {
       s \<leftarrow> lookup_probe (m_hashsize m) (m_hash m) (m_hashsize m) k (home (m_hashsize m) k) (home (m_hashsize m) k);
       (case s of None \<Rightarrow> Some []
        | Some c \<Rightarrow> do { h \<leftarrow> m_hash m ! c; read_bodies (h_contents h) })
     }"

definition table_insert :: "message \<Rightarrow> string \<Rightarrow> string \<Rightarrow> message option" where
  "table_insert m k b =
     do {
       (done, m) \<leftarrow> hash_insert True m
         \<lparr>h_name = Some k, h_count = 1, h_space = 1, h_contents = [Body b, BodyNull]\<rparr>;
       (if done then Some m else None)
     }"

lemma table_invD:
  assumes "table_inv m"
  shows "0 < m_hashsize m" "length (m_hash m) = m_hashsize m" "named (m_hash m)"
  using assms table_inv_named [OF assms] by (simp_all add: table_inv_def)

lemma table_key:
  "table_inv m \<Longrightarrow> j < m_hashsize m \<Longrightarrow> key_at (m_hash m) j = Some k \<Longrightarrow>
   seven_bit k \<and> probe_path (m_hash m) (m_hashsize m) k j"
  by (simp add: table_inv_def)

lemma lookup_present:
  assumes "table_inv m" and "j < m_hashsize m" and "key_at (m_hash m) j = Some k"
  shows "table_lookup m k = do { h \<leftarrow> m_hash m ! j; read_bodies (h_contents h) }"
proof -
  have "stops (m_hash m) k j" using assms(3) by (simp add: stops_def)
  then show ?thesis
    using path_probe [of "m_hash m" "m_hashsize m" k j] table_invD [OF assms(1)] table_key [OF assms] assms(3)
    by (simp add: table_lookup_def)
qed

lemma table_slot:
  assumes "table_inv m" and "j < m_hashsize m" and "key_at (m_hash m) j = Some k"
  obtains e bs where "m_hash m ! j = Some e" and "h_name e = Some k" and "entry_ok e bs"
proof -
  obtain e where e: "m_hash m ! j = Some e" "h_name e = Some k"
    using assms(3) by (auto simp: key_at_def bind_eq_Some_conv)
  then have "Some e \<in> set (m_hash m)"
    using nth_mem [of j "m_hash m"] assms(2) table_invD(2) [OF assms(1)] by simp
  then show ?thesis using that e assms(1) by (auto simp: table_inv_def)
qed

lemma absent_probe:
  assumes "table_inv m" and "seven_bit k" and "k \<notin> table_keys m"
  shows "lookup_probe (m_hashsize m) (m_hash m) (m_hashsize m) k (home (m_hashsize m) k) (home (m_hashsize m) k)
    = Some None"
proof -
  note inv = table_invD [OF assms(1)]
  have home: "home (m_hashsize m) k < m_hashsize m" using hashheader_range [OF assms(2) inv(1)] by auto
  show ?thesis
  proof (cases "\<forall>d < m_hashsize m. \<not> stops (m_hash m) k ((home (m_hashsize m) k + d) mod m_hashsize m)")
    case True
    then show ?thesis
      using probe_runs_round [OF inv(3,2) home, of 0 k] home by simp
  next
    case False
    from absent_path [OF False] obtain j where j: "probe_path (m_hash m) (m_hashsize m) k j" "stops (m_hash m) k j" .
    then have "j < m_hashsize m" using inv(1) by (auto simp: probe_path_def)
    then have "key_at (m_hash m) j = None" using j(2) assms(3) by (auto simp: stops_def table_keys_def)
    then show ?thesis
      using path_probe [OF inv(3,2) assms(2) j inv(1)] by simp
  qed
qed

lemma lookup_absent:
  "table_inv m \<Longrightarrow> seven_bit k \<Longrightarrow> k \<notin> table_keys m \<Longrightarrow> table_lookup m k = Some []"
  by (simp add: table_lookup_def absent_probe)

lemma key_at_update:
  "i < length t \<Longrightarrow> key_at (t[j := Some e]) i = (if i = j then h_name e else key_at t i)"
  by (simp add: key_at_def)

lemma path_update:
  assumes "probe_path t (length t) k i" and "key_at t j = None \<or> key_at t j = h_name e"
  shows "probe_path (t[j := Some e]) (length t) k i"
proof -
  obtain d where d: "d < length t" "i = (home (length t) k + d) mod length t"
    "\<forall>d' < d. \<not> stops t k ((home (length t) k + d') mod length t)"
    using assms(1) by (auto simp: probe_path_def)
  have "\<not> stops (t[j := Some e]) k ((home (length t) k + d') mod length t)" if "d' < d" for d'
  proof -
    let ?p = "(home (length t) k + d') mod length t"
    have "?p < length t" using d(1) by (intro mod_less_divisor) auto
    moreover have "\<not> stops t k ?p" using d(3) that by blast
    ultimately show ?thesis using assms(2) by (cases "?p = j") (auto simp: stops_def key_at_update)
  qed
  then show ?thesis using d unfolding probe_path_def by blast
qed

lemma table_update:
  assumes inv: "table_inv m" and j: "j < m_hashsize m" and k: "seven_bit k"
    and "probe_path (m_hash m) (m_hashsize m) k j" and st: "stops (m_hash m) k j"
    and e: "entry_ok e bs" "h_name e = Some k"
    and m': "m' = m\<lparr>m_hash := (m_hash m)[j := Some e]\<rparr>"
  shows "table_inv m' \<and> m_hashsize m' = m_hashsize m \<and> table_keys m' = insert k (table_keys m) \<and>
    table_lookup m' k = Some bs \<and>
    (\<forall>k'. seven_bit k' \<longrightarrow> k' \<noteq> k \<longrightarrow> table_lookup m' k' = table_lookup m k')"
proof -
  note D = table_invD [OF inv]
  have jl: "j < length (m_hash m)" using j D by simp
  have key: "key_at (m_hash m') i = (if i = j then Some k else key_at (m_hash m) i)" if "i < m_hashsize m" for i
    using that D e(2) key_at_update [of i "m_hash m" j e] by (simp add: m')
  have path': "probe_path (m_hash m') (m_hashsize m) k' i" if "probe_path (m_hash m) (m_hashsize m) k' i" for k' i
    using path_update [of "m_hash m" k' i j e] that D st e(2) by (auto simp: m' stops_def)
  have inv': "table_inv m'"
    using inv D e(1) k key path' assms(4) set_update_subset_insert [of "m_hash m" j "Some e"]
    unfolding table_inv_def by (auto simp: m' split: if_splits)
  moreover have keys: "table_keys m' = insert k (table_keys m)"
  proof -
    have "k' \<in> table_keys m'" if "k' \<in> table_keys m" for k'
    proof -
      obtain i where "i < m_hashsize m" "key_at (m_hash m) i = Some k'" using \<open>k' \<in> _\<close> by (auto simp: table_keys_def)
      then show ?thesis using key st
        by (cases "i = j") (auto simp: table_keys_def m' stops_def)
    qed
    moreover have "k \<in> table_keys m'" using key j by (auto simp: table_keys_def m')
    moreover have "k' \<in> insert k (table_keys m)" if "k' \<in> table_keys m'" for k'
      using that key by (auto simp: table_keys_def m' split: if_splits)
    ultimately show ?thesis by blast
  qed
  moreover have "table_lookup m' k = Some bs"
    using lookup_present [OF inv', of j k] key [OF j] j jl e(1) by (simp add: m' entry_ok_def)
  moreover have "table_lookup m' k' = table_lookup m k'" if k': "seven_bit k'" "k' \<noteq> k" for k'
  proof (cases "k' \<in> table_keys m")
    case True
    then obtain i where i: "i < m_hashsize m" "key_at (m_hash m) i = Some k'" by (auto simp: table_keys_def)
    then have "i \<noteq> j" using st k'(2) by (auto simp: stops_def)
    then show ?thesis
      using lookup_present [OF inv i] lookup_present [OF inv', of i k'] i key by (simp add: m')
  next
    case False
    then show ?thesis using lookup_absent [OF inv k'(1)] lookup_absent [OF inv' k'(1)] keys k'(2) by simp
  qed
  ultimately show ?thesis by (simp add: m')
qed

lemma read_bodies_append:
  "read_bodies cs = Some bs \<Longrightarrow> \<exists>rest. cs = map Body bs @ BodyNull # rest"
proof (induction cs arbitrary: bs rule: read_bodies.induct)
  case (2 b cs)
  then show ?case by auto
qed auto

lemma read_bodies_cells: "read_bodies (map Body bs @ BodyNull # rest) = Some bs"
  by (induction bs) auto

lemma header_add_ok:
  assumes "entry_ok e bs"
  shows "\<exists>e'. header_add True e (Body b) = Some (True, e') \<and> entry_ok e' (bs @ [b]) \<and> h_name e' = h_name e"
proof -
  obtain rest where cs: "h_contents e = map Body bs @ BodyNull # rest"
    using assms read_bodies_append by (auto simp: entry_ok_def)
  show ?thesis
  proof (cases "h_count e < h_space e")
    case True
    then obtain r rest' where "rest = r # rest'" using assms cs by (cases rest) (auto simp: entry_ok_def)
    then show ?thesis using True assms cs read_bodies_cells [of "bs @ [b]"]
      by (auto simp: header_add_def body_write_def entry_ok_def list_update_append)
  next
    case False
    then have "rest = []" "h_space e = length bs" using assms cs by (auto simp: entry_ok_def)
    moreover have "replicate 8 BodyIndet = BodyIndet # replicate 7 BodyIndet" by (simp add: eval_nat_numeral)
    ultimately show ?thesis using False assms cs read_bodies_cells [of "bs @ [b]"]
      by (auto simp: header_add_def body_write_def entry_ok_def list_update_append Let_def)
  qed
qed

lemma finite_table_keys: "finite (table_keys m)"
proof -
  have "table_keys m \<subseteq> (\<lambda>j. the (key_at (m_hash m) j)) ` {..<m_hashsize m}"
    unfolding table_keys_def by force
  then show ?thesis by (rule finite_subset) simp
qed

lemma mod_offset_inj: "x < n \<Longrightarrow> d < n \<Longrightarrow> e < n \<Longrightarrow> (x + d) mod n = (x + e) mod n \<Longrightarrow> d = e" for x d e n :: nat
  by (auto simp: mod_if split: if_splits)

lemma full_table_keys:
  assumes inv: "table_inv m" and k: "seven_bit k"
    and full: "\<forall>d < m_hashsize m. \<not> stops (m_hash m) k ((home (m_hashsize m) k + d) mod m_hashsize m)"
  shows "m_hashsize m \<le> card (table_keys m)"
proof -
  let ?n = "m_hashsize m"
  define key where "key d = the (key_at (m_hash m) ((home ?n k + d) mod ?n))" for d
  note D = table_invD [OF inv]
  have home: "home ?n k < ?n" using hashheader_range [OF k D(1)] by auto
  have key: "key_at (m_hash m) ((home ?n k + d) mod ?n) = Some (key d)" if "d < ?n" for d
    using full that by (auto simp: key_def stops_def)
  have pos: "(home ?n k + d) mod ?n < ?n" for d using D(1) by simp
  have "inj_on key {..<?n}"
  proof (rule inj_onI)
    fix d e assume d: "d \<in> {..<?n}" and e: "e \<in> {..<?n}" and eq: "key d = key e"
    have "(home ?n k + d) mod ?n = (home ?n k + e) mod ?n"
    proof (rule path_unique)
      show "probe_path (m_hash m) ?n (key d) ((home ?n k + d) mod ?n)"
        using table_key [OF inv pos key] d by simp
      show "probe_path (m_hash m) ?n (key d) ((home ?n k + e) mod ?n)"
        using table_key [OF inv pos key] e eq by simp
    qed (use key d e eq in \<open>auto simp: stops_def\<close>)
    then show "d = e" using mod_offset_inj home d e by blast
  qed
  moreover have "key ` {..<?n} \<subseteq> table_keys m" using key pos by (auto simp: table_keys_def)
  ultimately show ?thesis using card_inj_on_le [OF _ _ finite_table_keys, of key "{..<?n}" m] by simp
qed

lemma table_insert_ok:
  assumes inv: "table_inv m" and k: "seven_bit k"
    and room: "k \<in> table_keys m \<or> card (table_keys m) < m_hashsize m"
  shows "\<exists>m'. table_insert m k b = Some m' \<and> table_inv m' \<and> m_hashsize m' = m_hashsize m \<and>
    table_keys m' = insert k (table_keys m) \<and>
    (\<exists>bs. table_lookup m k = Some bs \<and> table_lookup m' k = Some (bs @ [b])) \<and>
    (\<forall>k'. seven_bit k' \<longrightarrow> k' \<noteq> k \<longrightarrow> table_lookup m' k' = table_lookup m k')"
proof -
  let ?h = "\<lparr>h_name = Some k, h_count = 1, h_space = 1, h_contents = [Body b, BodyNull]\<rparr>"
  note D = table_invD [OF inv]
  have nonneg: "0 \<le> hashheader k (m_hashsize m)" using hashheader_range [OF k D(1)] by simp
  show ?thesis
  proof (cases "k \<in> table_keys m")
    case True
    then obtain j where j: "j < m_hashsize m" "key_at (m_hash m) j = Some k" by (auto simp: table_keys_def)
    then have st: "stops (m_hash m) k j" by (simp add: stops_def)
    have path: "probe_path (m_hash m) (m_hashsize m) k j" using table_key [OF inv j] by simp
    from table_slot [OF inv j] obtain e bs where e: "m_hash m ! j = Some e" "h_name e = Some k"
      and bs: "entry_ok e bs" .
    from header_add_ok [OF bs, of b] e(2) obtain e' where e': "header_add True e (Body b) = Some (True, e')"
      "entry_ok e' (bs @ [b])" "h_name e' = Some k" by auto
    have "table_insert m k b = Some (m\<lparr>m_hash := (m_hash m)[j := Some e']\<rparr>)"
      using path_probe [OF D(3,2) k path st D(1)] nonneg e e'
      by (simp add: table_insert_def hash_insert_def Let_def)
    moreover have "table_lookup m k = Some bs"
      using lookup_present [OF inv j] e bs by (simp add: entry_ok_def)
    moreover note table_update [OF inv j(1) k path st e'(2,3) refl]
    moreover have "insert k (table_keys m) = table_keys m" using True by auto
    ultimately show ?thesis by auto
  next
    case False
    then have "\<not> (\<forall>d < m_hashsize m. \<not> stops (m_hash m) k ((home (m_hashsize m) k + d) mod m_hashsize m))"
      using full_table_keys [OF inv k] room by auto
    from absent_path [OF this] obtain j where
      path: "probe_path (m_hash m) (m_hashsize m) k j" and st: "stops (m_hash m) k j" .
    have j: "j < m_hashsize m" using path D(1) by (auto simp: probe_path_def)
    then have "m_hash m ! j = None"
      using st False key_at_None [OF D(3), of j] D(2) by (auto simp: stops_def table_keys_def)
    then have "table_insert m k b = Some (m\<lparr>m_hash := (m_hash m)[j := Some ?h]\<rparr>)"
      using path_probe [OF D(3,2) k path st D(1)] nonneg
      by (simp add: table_insert_def hash_insert_def Let_def)
    moreover have "table_lookup m k = Some []" by (rule lookup_absent [OF inv k False])
    moreover have "entry_ok ?h [b]" by (simp add: entry_ok_def)
    moreover note table_update [OF inv j k path st this _ refl]
    ultimately show ?thesis by auto
  qed
qed

section \<open>A bounded multimap\<close>

text \<open>
  The contract the client of the table relies on: an insertion of a key that is present, or while
  fewer than \<open>cap\<close> keys are, adds one value to that key and leaves the other keys alone.
\<close>

locale multimap =
  fixes inv :: "'s \<Rightarrow> bool"
    and admissible :: "'k \<Rightarrow> bool"
    and cap :: nat
    and keys :: "'s \<Rightarrow> 'k set"
    and lookup :: "'s \<Rightarrow> 'k \<Rightarrow> 'v list option"
    and ins :: "'s \<Rightarrow> 'k \<Rightarrow> 'v \<Rightarrow> 's option"
  assumes insert_law: "inv s \<Longrightarrow> admissible k \<Longrightarrow> k \<in> keys s \<or> card (keys s) < cap \<Longrightarrow>
      \<exists>s'. ins s k v = Some s' \<and> inv s' \<and> keys s' = insert k (keys s) \<and>
        (\<exists>vs. lookup s k = Some vs \<and> lookup s' k = Some (vs @ [v])) \<and>
        (\<forall>k'. admissible k' \<longrightarrow> k' \<noteq> k \<longrightarrow> lookup s' k' = lookup s k')"
    and finite_keys: "finite (keys s)"
begin

fun ins_all :: "'s \<Rightarrow> ('k \<times> 'v) list \<Rightarrow> 's option" where
  "ins_all s [] = Some s"
| "ins_all s ((k, v) # kvs) = Option.bind (ins s k v) (\<lambda>s. ins_all s kvs)"

lemma ins_all_law:
  assumes "inv s" and "\<forall>(k, v) \<in> set kvs. admissible k" and "card (keys s \<union> fst ` set kvs) \<le> cap"
    and "\<forall>k. admissible k \<longrightarrow> lookup s k = Some (f k)"
  shows "\<exists>s'. ins_all s kvs = Some s' \<and> inv s' \<and> keys s' = keys s \<union> fst ` set kvs \<and>
    (\<forall>k. admissible k \<longrightarrow> lookup s' k = Some (f k @ map snd (filter (\<lambda>(k', v). k' = k) kvs)))"
  using assms
proof (induction kvs arbitrary: s f)
  case Nil
  then show ?case by simp
next
  case (Cons kv kvs)
  obtain k v where kv: "kv = (k, v)" by (cases kv)
  have adm: "admissible k" using Cons.prems(2) kv by simp
  have "k \<in> keys s \<or> card (keys s) < cap"
  proof (rule disjCI)
    assume "\<not> card (keys s) < cap"
    moreover have "finite (keys s \<union> fst ` set (kv # kvs))" using finite_keys by simp
    ultimately have "keys s = keys s \<union> fst ` set (kv # kvs)"
      using Cons.prems(3) by (intro card_seteq) auto
    then show "k \<in> keys s" using kv by auto
  qed
  from insert_law [OF Cons.prems(1) adm this, of v] obtain s' vs where s':
    "ins s k v = Some s'" "inv s'" "keys s' = insert k (keys s)" "lookup s k = Some vs"
    "lookup s' k = Some (vs @ [v])" "\<forall>k'. admissible k' \<longrightarrow> k' \<noteq> k \<longrightarrow> lookup s' k' = lookup s k'"
    by blast
  have "vs = f k" using s'(4) Cons.prems(4) adm by simp
  then have "\<forall>k'. admissible k' \<longrightarrow> lookup s' k' = Some (if k' = k then f k @ [v] else f k')"
    using s'(5,6) Cons.prems(4) by auto
  moreover have "card (keys s' \<union> fst ` set kvs) \<le> cap"
    using Cons.prems(3) kv s'(3) by simp
  moreover have "\<forall>(k, v) \<in> set kvs. admissible k" using Cons.prems(2) by simp
  ultimately obtain s'' where s'': "ins_all s' kvs = Some s''" "inv s''" "keys s'' = keys s' \<union> fst ` set kvs"
    "\<forall>k'. admissible k' \<longrightarrow> lookup s'' k'
       = Some ((if k' = k then f k @ [v] else f k') @ map snd (filter (\<lambda>(k'', v). k'' = k') kvs))"
    using Cons.IH [of s' "\<lambda>k'. if k' = k then f k @ [v] else f k'"] s'(2) by blast
  have "ins_all s (kv # kvs) = Some s''" using kv s'(1) s''(1) by simp
  moreover have "keys s'' = keys s \<union> fst ` set (kv # kvs)" using s''(3) s'(3) kv by auto
  moreover have "\<forall>k'. admissible k' \<longrightarrow> lookup s'' k'
       = Some (f k' @ map snd (filter (\<lambda>(k'', v). k'' = k') (kv # kvs)))"
    using s''(4) kv by simp
  ultimately show ?case using s''(2) by blast
qed

end

interpretation headers: multimap
  "\<lambda>m. table_inv m \<and> m_hashsize m = HEADERHASHSIZE" seven_bit HEADERHASHSIZE table_keys table_lookup table_insert
proof (unfold_locales, goal_cases)
  case (1 m k b)
  then show ?case using table_insert_ok [of m k b] by auto
next
  case (2 m)
  then show ?case by (rule finite_table_keys)
qed

section \<open>From the tokens to the table\<close>

definition fresh_header :: "string \<times> string \<Rightarrow> header" where
  "fresh_header nb =
     \<lparr>h_name = Some (map c_tolower (fst nb)), h_count = 1, h_space = 1, h_contents = [Body (snd nb), BodyNull]\<rparr>"

definition header_tokens :: "string \<times> string \<times> string list \<Rightarrow> htoken list" where
  "header_tokens e = (case e of (n, t, ws) \<Rightarrow> [NAME n, COLON, TEXT t] @ map WRAP ws)"

text \<open>
  The body of a header, unfolded one continuation line at a time. What comes out is the line and its
  continuation lines, one behind the other; \<^verbatim>\<open>libsieve_strconcat\<close> writes past its block when one
  of these has 256 characters exactly.
\<close>

fun unfold_body :: "string \<Rightarrow> string list \<Rightarrow> string option" where
  "unfold_body t [] = Some t"
| "unfold_body t (w # ws) = do { b \<leftarrow> strconcat_str [t, w]; unfold_body b ws }"

definition joinable :: "string \<Rightarrow> string list \<Rightarrow> bool" where
  "joinable t ws \<longleftrightarrow> t \<noteq> [] \<and> nul_free (t @ concat ws) \<and> (\<forall>w \<in> set ws. length w \<noteq> 256)"

lemma strconcat_two:
  assumes "a \<noteq> []" and "nul_free (a @ w)"
  shows "strconcat_str [a, w] = (if length w = 256 then None else Some (a @ w))"
  using libsieve_strconcat_eq [of "[a, w]"] assms by (auto simp: strconcat_str_def split: if_splits)

lemma unfold_body_joinable: "joinable t ws \<Longrightarrow> unfold_body t ws = Some (t @ concat ws)"
  by (induction t ws rule: unfold_body.induct) (auto simp: joinable_def strconcat_two)

definition header_value :: "string \<times> string \<times> string list \<Rightarrow> string \<times> string" where
  "header_value e = (case e of (n, t, ws) \<Rightarrow> (n, t @ concat ws))"

lemma headerparse_body:
  "unfold_body t ws = Some b \<Longrightarrow>
   headerparse (HBody n t) hl (map WRAP ws @ ts) = headerparse (HBody n b) hl ts"
  by (induction ws arbitrary: t) (auto simp: bind_eq_Some_conv)

lemma headerentry_append:
  "libsieve_headerentry (libsieve_headerappend hl) n b = Some (fresh_header (n, b) # hl)"
  by (simp add: libsieve_headerentry_def libsieve_headerappend_def fresh_header_def libsieve_strtolower_def)

lemma headerparse_headers:
  assumes "\<forall>(n, t, ws) \<in> set es. joinable t ws"
  shows "headerparse (HBody n b) (libsieve_headerappend hl) (concat (map header_tokens es))
     = Some (Some (libsieve_headerappend (rev (map (fresh_header \<circ> header_value) es) @ fresh_header (n, b) # hl)))"
  using assms
proof (induction es arbitrary: n b hl)
  case Nil
  then show ?case by (simp add: headerentry_append)
next
  case (Cons e es)
  obtain n' t ws where e: "e = (n', t, ws)" "unfold_body t ws = Some (t @ concat ws)"
    using Cons.prems unfold_body_joinable by (cases e) auto
  then show ?case
    using Cons by (simp add: header_tokens_def headerentry_append headerparse_body header_value_def)
qed

lemma header_parse_buffer_headers:
  assumes "es \<noteq> []" and "\<forall>(n, t, ws) \<in> set es. joinable t ws"
  shows "libsieve_header_parse_buffer (concat (map header_tokens es))
     = Some (Some (rev (map (fresh_header \<circ> header_value) es)))"
proof -
  obtain n t ws es' where e: "es = (n, t, ws) # es'" "unfold_body t ws = Some (t @ concat ws)"
    using assms unfold_body_joinable by (cases es) auto
  have "headerparse HStart (libsieve_headerappend []) (concat (map header_tokens es))
      = headerparse (HBody n (t @ concat ws)) (libsieve_headerappend []) (concat (map header_tokens es'))"
    using e by (simp add: header_tokens_def headerparse_body)
  also have "\<dots> = Some (Some (libsieve_headerappend (rev (map (fresh_header \<circ> header_value) es') @ [fresh_header (n, t @ concat ws)])))"
    by (rule headerparse_headers) (use assms e in auto)
  finally show ?thesis
    by (simp add: libsieve_header_parse_buffer_def libsieve_headerappend_def e header_value_def)
qed

lemma table_insert_hash:
  "table_insert m (map c_tolower n) b = Some m' \<Longrightarrow> hash_insert True m (fresh_header (n, b)) = Some (True, m')"
  by (auto simp: table_insert_def fresh_header_def bind_eq_Some_conv split: if_splits prod.splits)

lemma hash_fill_ins_all:
  assumes "headers.ins_all m (map (\<lambda>(n, b). (map c_tolower n, b)) kvs) = Some m'"
  shows "hash_fill (replicate (length kvs) True) m (map fresh_header kvs) = Some (SIEVE2_OK, m'\<lparr>m_hashfull := True\<rparr>)"
  using assms
proof (induction kvs arbitrary: m)
  case Nil
  then show ?case by simp
next
  case (Cons kv kvs)
  obtain n b where "kv = (n, b)" by (cases kv)
  then show ?case
    using Cons by (auto simp: bind_eq_Some_conv dest: table_insert_hash)
qed

text \<open>What a caller of \<^verbatim>\<open>getheader\<close> sees: the code and the strings of the array.\<close>

definition header_bodies :: "message \<Rightarrow> string \<Rightarrow> (int \<times> string list) option" where
  "header_bodies m chead =
     do {
       (res, s) \<leftarrow> getheader m chead;
       bs \<leftarrow> (case s of None \<Rightarrow> Some [] | Some c \<Rightarrow> do { h \<leftarrow> m_hash m ! c; read_bodies (h_contents h) });
       Some (res, bs)
     }"

lemma seven_bit_tolower: "seven_bit s \<Longrightarrow> seven_bit (map c_tolower s)"
  by (auto simp: code_c_tolower)

lemma header_bodies_lookup:
  assumes "table_inv m" and "seven_bit q" and "table_lookup m (map c_tolower q) = Some bs"
  shows "header_bodies m q = Some (if bs = [] then SIEVE2_ERROR_FAIL else SIEVE2_OK, bs)"
proof -
  let ?k = "map c_tolower q"
  note D = table_invD [OF assms(1)]
  have k: "seven_bit ?k" by (rule seven_bit_tolower [OF assms(2)])
  have nonneg: "\<not> hashheader ?k (m_hashsize m) < 0" using hashheader_range [OF k D(1)] by simp
  show ?thesis
  proof (cases "?k \<in> table_keys m")
    case True
    then obtain j where j: "j < m_hashsize m" "key_at (m_hash m) j = Some ?k" by (auto simp: table_keys_def)
    from table_slot [OF assms(1) j] obtain e bs' where e: "m_hash m ! j = Some e" "entry_ok e bs'" .
    have "bs = bs'" using lookup_present [OF assms(1) j] assms(3) e by (simp add: entry_ok_def)
    moreover have "stops (m_hash m) ?k j" using j by (simp add: stops_def)
    then have "lookup_probe (m_hashsize m) (m_hash m) (m_hashsize m) ?k
        (home (m_hashsize m) ?k) (home (m_hashsize m) ?k) = Some (Some j)"
      using path_probe [OF D(3,2) k _ _ D(1), of j] table_key [OF assms(1) j] j(2) by simp
    ultimately show ?thesis
      using nonneg e by (auto simp: header_bodies_def getheader_def Let_def entry_ok_def)
  next
    case False
    then have "bs = []" using lookup_absent [OF assms(1) k False] assms(3) by simp
    then show ?thesis
      using nonneg absent_probe [OF assms(1) k False]
      by (simp add: header_bodies_def getheader_def Let_def)
  qed
qed

section \<open>Properties\<close>

lemma empty_table:
  assumes "m_hash m = replicate (m_hashsize m) None" and "0 < m_hashsize m"
  shows "table_inv m" and "table_keys m = {}" and "seven_bit k \<Longrightarrow> table_lookup m k = Some []"
proof -
  have "key_at (m_hash m) j = None" if "j < m_hashsize m" for j
    using that assms(1) by (simp add: key_at_def)
  then show inv: "table_inv m" and keys: "table_keys m = {}"
    using assms by (auto simp: table_inv_def table_keys_def)
  show "seven_bit k \<Longrightarrow> table_lookup m k = Some []" using lookup_absent [OF inv] keys by simp
qed

lemma alloc_table:
  "libsieve_message2_alloc True True = (SIEVE2_OK, Some m) \<Longrightarrow>
   m_hash m = replicate (m_hashsize m) None \<and> m_hashsize m = HEADERHASHSIZE"
  by (auto simp: libsieve_message2_alloc_def)

lemma HEADERHASHSIZE_pos: "0 < HEADERHASHSIZE"
  by (simp add: HEADERHASHSIZE_def)

definition fold_name :: "string \<times> string \<Rightarrow> string \<times> string" where
  "fold_name nb = (map c_tolower (fst nb), snd nb)"

lemma table_lookup_full [simp]: "table_lookup (m\<lparr>m_hashfull := b\<rparr>) k = table_lookup m k"
  by (simp add: table_lookup_def cong: option.case_cong)

text \<open>
  A message header as tokens: parsed, hashed, and looked up under any 7-bit name in any case.
\<close>

text \<open>
  The bodies of the headers of a name, up to letter case, each with its continuation lines behind
  it, the last header of the message first.
\<close>

definition message_bodies :: "(string \<times> string \<times> string list) list \<Rightarrow> string \<Rightarrow> string list" where
  "message_bodies es q = rev (map (\<lambda>(n, t, ws). t @ concat ws) (filter (\<lambda>(n, t, ws). strcasecmp n q = 0) es))"

lemma message_bodies_values:
  "message_bodies es q = rev (map snd (filter (\<lambda>(n, b). strcasecmp n q = 0) (map header_value es)))"
  by (induction es) (auto simp: message_bodies_def header_value_def simp del: strcasecmp.simps)

lemma parsed_table:
  assumes "m_hash m = replicate (m_hashsize m) None \<and> m_hashsize m = HEADERHASHSIZE"
    and "es \<noteq> []" and "\<forall>(n, t, ws) \<in> set es. seven_bit n \<and> joinable t ws"
    and "card ((\<lambda>e. map c_tolower (fst e)) ` set es) \<le> HEADERHASHSIZE"
  obtains hl m' where "libsieve_header_parse_buffer (concat (map header_tokens es)) = Some (Some hl)"
    and "hash_fill (replicate (length hl) True) m hl = Some (SIEVE2_OK, m')" and "table_inv m'"
    and "\<And>q. seven_bit q \<Longrightarrow> table_lookup m' (map c_tolower q) = Some (message_bodies es q)"
proof -
  define kvs where "kvs = rev (map header_value es)"
  let ?kvs = "map (\<lambda>(n, b). (map c_tolower n, b)) kvs"
  have fst_kvs: "fst ` set ?kvs = (\<lambda>e. map c_tolower (fst e)) ` set es"
    by (force simp: kvs_def header_value_def image_iff split: prod.splits)
  note m = assms(1)
  note empty = empty_table [of m, OF conjunct1 [OF m]]
  have inv: "table_inv m \<and> m_hashsize m = HEADERHASHSIZE" and keys: "table_keys m = {}"
    using empty m HEADERHASHSIZE_pos by simp_all
  have "seven_bit (map c_tolower (fst (header_value e)))" if "e \<in> set es" for e
  proof (rule seven_bit_tolower)
    show "seven_bit (fst (header_value e))" using assms(3) that by (cases e) (auto simp: header_value_def)
  qed
  then have "\<forall>(k, v) \<in> set ?kvs. seven_bit k"
    by (auto simp: kvs_def case_prod_beta simp del: list.set_map)
  moreover have "card (table_keys m \<union> fst ` set ?kvs) \<le> HEADERHASHSIZE"
    using assms(4) by (simp only: keys fst_kvs Un_empty_left)
  moreover have "\<forall>k. seven_bit k \<longrightarrow> table_lookup m k = Some []"
    using empty(3) m HEADERHASHSIZE_pos by simp
  ultimately obtain m' where m': "headers.ins_all m ?kvs = Some m'" "table_inv m'"
    "\<forall>k. seven_bit k \<longrightarrow> table_lookup m' k = Some (map snd (filter (\<lambda>(k', v). k' = k) ?kvs))"
    using headers.ins_all_law [OF inv, of ?kvs "\<lambda>_. []"] by auto
  have ok: "\<forall>(n, t, ws) \<in> set es. joinable t ws" using assms(3) by fastforce
  have parse: "libsieve_header_parse_buffer (concat (map header_tokens es)) = Some (Some (map fresh_header kvs))"
    using header_parse_buffer_headers [OF assms(2)] ok by (simp add: kvs_def rev_map)
  show ?thesis
  proof (rule that [OF parse])
    show "hash_fill (replicate (length (map fresh_header kvs)) True) m (map fresh_header kvs)
        = Some (SIEVE2_OK, m'\<lparr>m_hashfull := True\<rparr>)"
      using hash_fill_ins_all [OF m'(1)] by simp
    show "table_inv (m'\<lparr>m_hashfull := True\<rparr>)" using m'(2) by (simp add: table_inv_def)
    fix q
    assume q: "seven_bit q"
    have "message_bodies es q = map snd (filter (\<lambda>(k', v). k' = map c_tolower q) ?kvs)"
      by (auto simp: message_bodies_values kvs_def rev_map rev_filter filter_map strcasecmp_eq_0_iff o_def case_prod_beta
          intro!: map_cong filter_cong)
    then show "table_lookup (m'\<lparr>m_hashfull := True\<rparr>) (map c_tolower q) = Some (message_bodies es q)"
      using m'(3) seven_bit_tolower [OF q] by simp
  qed
qed

text \<open>A negative hash stays below zero until it meets zero itself.\<close>

lemma hashheader_loop_negative:
  "x < 0 \<Longrightarrow> \<forall>k \<le> length s. hashheader_loop x n (take k s) \<noteq> 0 \<Longrightarrow> hashheader_loop x n s < 0"
proof (induction s arbitrary: x)
  case (Cons c s)
  let ?y = "c_rem (x * 256 + schar c) (int n)"
  show ?case
  proof (cases "\<not> c_iscntrl c \<and> c \<noteq> CHR '' '' \<and> c \<noteq> CHR '':''")
    case True
    obtain m where "code c = m" "m < 256" by simp
    then have "schar c < 128" by (simp add: schar_def)
    then have "x * 256 + schar c < 0" using Cons.prems(1) by simp
    then have "?y \<le> 0" by (cases "n = 0") (simp_all add: c_rem_def)
    moreover have "?y \<noteq> 0" using Cons.prems(2) True by (auto dest!: spec [of _ 1])
    moreover have "\<forall>k \<le> length s. hashheader_loop ?y n (take k s) \<noteq> 0"
    proof (intro allI impI)
      fix k
      assume "k \<le> length s"
      then show "hashheader_loop ?y n (take k s) \<noteq> 0" using Cons.prems(2) True by (auto dest!: spec [of _ "Suc k"])
    qed
    ultimately show ?thesis using Cons.IH [of ?y] True by simp
  qed (use Cons.prems(1) in auto)
qed simp

lemma hashheader_negative:
  assumes "128 \<le> code c" and "\<forall>k \<in> {1..Suc (length s)}. hashheader (take k (c # s)) HEADERHASHSIZE \<noteq> 0"
  shows "hashheader (c # s) HEADERHASHSIZE < 0"
proof -
  obtain m where "code c = m" "m < 256" by simp
  then have c: "schar c < 0" "- 128 \<le> schar c" "\<not> c_iscntrl c" "c \<noteq> CHR '' ''" "c \<noteq> CHR '':''"
    using assms(1) by (auto simp: schar_def c_iscntrl_def)
  then have first: "hashheader (c # t) HEADERHASHSIZE = hashheader_loop (schar c) HEADERHASHSIZE t" for t
    by (simp add: hashheader_def c_rem_def HEADERHASHSIZE_def sgn_if)
  have "hashheader_loop (schar c) HEADERHASHSIZE (take k s) \<noteq> 0" if "k \<le> length s" for k
    using assms(2) that first [of "take k s"] by (auto dest!: bspec [of _ _ "Suc k"])
  then show ?thesis using hashheader_loop_negative [OF c(1)] by (simp add: first)
qed

text \<open>
  C35. In a table of 1019 slots, a header name, or a name asked for, whose first character is not 7-bit
  has a negative hash,
  unless the hash of some beginning of the name in lower case happens to be zero: the table is then
  accessed in front of its first slot, by the insertion of the header as well as by the lookup.
\<close>
theorem eight_bit_name_undefined:
  assumes "m_hashsize m = HEADERHASHSIZE" and "128 \<le> code c"
    and "\<forall>k \<in> {1..Suc (length s)}. hashheader (take k (map c_tolower (c # s))) HEADERHASHSIZE \<noteq> 0"
  shows "getheader m (c # s) = None \<and> hash_insert ok m (fresh_header (c # s, b)) = None"
proof -
  have low: "c_tolower c = c" using assms(2) by (simp add: c_tolower_def)
  have "hashheader (map c_tolower (c # s)) HEADERHASHSIZE < 0"
    using hashheader_negative [of c "map c_tolower s"] assms(2,3) by (simp add: low)
  then show ?thesis
    using strtolower_full [of "c # s"] by (simp add: getheader_def hash_insert_def fresh_header_def assms(1) Let_def)
qed

lemma eight_bit_name_undefined_witness:
  "getheader \<lparr>m_hashsize = HEADERHASHSIZE, m_hashfull = False, m_header = None, m_hash = []\<rparr> [CHR 0xE9, CHR ''t''] = None \<and>
   hash_insert True \<lparr>m_hashsize = HEADERHASHSIZE, m_hashfull = False, m_header = None, m_hash = []\<rparr>
     (fresh_header ([CHR 0xE9, CHR ''t''], [])) = None"
proof (rule eight_bit_name_undefined)
  have "{1..Suc (length ''t'')} = {1, 2}" by auto
  moreover have "hashheader (take k (map c_tolower [CHR 0xE9, CHR ''t''])) HEADERHASHSIZE \<noteq> 0" if "k \<in> {1, 2}" for k
    using that by (auto simp: hashheader_def c_iscntrl_def c_tolower_def schar_def c_rem_def HEADERHASHSIZE_def)
  ultimately show "\<forall>k \<in> {1..Suc (length ''t'')}.
      hashheader (take k (map c_tolower [CHR 0xE9, CHR ''t''])) HEADERHASHSIZE \<noteq> 0" by simp
qed simp_all

text \<open>
  C34. A table that was filled with one header for each of 1019 different 7-bit names has no slot for
  another such name: its body is appended to the header whose name occupies the home slot of the new
  name, the slot that its hash gives, and the new name is still not found.
\<close>
theorem full_table_misfiles:
  assumes "libsieve_message2_alloc True True = (SIEVE2_OK, Some m)"
    and "distinct ns" and "length ns = HEADERHASHSIZE" and "\<forall>n \<in> set ns. seven_bit n"
    and "seven_bit k" and "k \<notin> set ns"
  shows "\<exists>m1 m2 k'. headers.ins_all m (map (\<lambda>n. (n, ''old'')) ns) = Some m1 \<and>
    table_insert m1 k b = Some m2 \<and> k' \<in> set ns \<and>
    map_option h_name (m_hash m1 ! nat (hashheader k HEADERHASHSIZE)) = Some (Some k') \<and>
    table_lookup m2 k' = Some [''old'', b] \<and> table_lookup m2 k = Some []"
proof -
  let ?kvs = "map (\<lambda>n. (n, ''old'')) ns"
  note m = alloc_table [OF assms(1)]
  note empty = empty_table [of m, OF conjunct1 [OF m]]
  have inv: "table_inv m \<and> m_hashsize m = HEADERHASHSIZE" and keys: "table_keys m = {}"
    using empty m HEADERHASHSIZE_pos by simp_all
  have "\<forall>(k, v) \<in> set ?kvs. seven_bit k" using assms(4) by auto
  moreover have ks: "fst ` set ?kvs = set ns" by force
  then have "card (table_keys m \<union> fst ` set ?kvs) \<le> HEADERHASHSIZE"
    using assms(2,3) distinct_card by (fastforce simp: keys)
  moreover have "\<forall>k. seven_bit k \<longrightarrow> table_lookup m k = Some []" using empty(3) m HEADERHASHSIZE_pos by simp
  ultimately obtain m1 where m1: "headers.ins_all m ?kvs = Some m1" "table_inv m1" "m_hashsize m1 = HEADERHASHSIZE"
    "table_keys m1 = set ns"
    "\<forall>k. seven_bit k \<longrightarrow> table_lookup m1 k = Some (map snd (filter (\<lambda>(k', v). k' = k) ?kvs))"
    using headers.ins_all_law [OF inv, of ?kvs "\<lambda>_. []"] ks keys by auto
  let ?n = "m_hashsize m1" and ?t = "m_hash m1"
  note D = table_invD [OF m1(2)]
  have occupied: "key_at ?t j \<noteq> None" if "j < ?n" for j
  proof
    assume "key_at ?t j = None"
    then have "set ns \<subseteq> (\<lambda>i. the (key_at ?t i)) ` ({..<?n} - {j})"
      using m1(4) by (force simp: table_keys_def)
    then have "card (set ns) \<le> card ({..<?n} - {j})" by (rule surj_card_le [rotated]) simp
    also have "\<dots> < ?n" using that by simp
    finally show False using assms(2,3) m1(3) distinct_card [of ns] by simp
  qed
  have key: "key_at ?t j \<noteq> Some k" if "j < ?n" for j using that m1(4) assms(6) by (auto simp: table_keys_def)
  let ?x = "home ?n k"
  have x: "?x < ?n" and nonneg: "\<not> hashheader k ?n < 0" using hashheader_range [OF assms(5) D(1)] by auto
  have "\<forall>d < ?n. \<not> stops ?t k ((?x + d) mod ?n)"
    using occupied key D(1) by (auto simp: stops_def)
  then have probe: "probe ?n ?t ?n k ?x ?x = Some ?x"
    using probe_runs_round [OF D(3,2) x, of 0 k] D(1) x by simp
  obtain k' where k': "key_at ?t ?x = Some k'" using occupied [OF x] by auto
  then have k'ns: "k' \<in> set ns" using m1(4) x by (auto simp: table_keys_def)
  from table_slot [OF m1(2) x k'] obtain e bs where e: "?t ! ?x = Some e" "h_name e = Some k'" "entry_ok e bs" .
  from header_add_ok [OF e(3), of b] e(2) obtain e' where e': "header_add True e (Body b) = Some (True, e')"
    "entry_ok e' (bs @ [b])" "h_name e' = Some k'" by auto
  define m2 where "m2 = m1\<lparr>m_hash := ?t[?x := Some e']\<rparr>"
  have ins: "table_insert m1 k b = Some m2"
    using probe nonneg e e' by (simp add: table_insert_def hash_insert_def Let_def m2_def)
  have k'7: "seven_bit k'" and path: "probe_path ?t ?n k' ?x" using table_key [OF m1(2) x k'] by auto
  have upd: "table_lookup m2 k' = Some (bs @ [b]) \<and> table_lookup m2 k = table_lookup m1 k"
    using table_update [OF m1(2) x k'7 path _ e'(2,3) m2_def] k' assms(5,6) k'ns by (auto simp: stops_def)
  have "map snd (filter (\<lambda>(k'', v). k'' = k') ?kvs) = [''old'']"
    using k'ns assms(2) by (induction ns) (auto simp: filter_map o_def filter_empty_conv split: if_splits)
  then have "bs = [''old'']"
    using lookup_present [OF m1(2) x k'] e m1(5) k'7 by (simp add: entry_ok_def)
  moreover have "table_lookup m1 k = Some []"
    using lookup_absent [OF m1(2) assms(5)] m1(4) assms(6) by simp
  moreover have "map_option h_name (m_hash m1 ! nat (hashheader k HEADERHASHSIZE)) = Some (Some k')"
    using e(1,2) m1(3) by simp
  ultimately show ?thesis
    using m1(1) ins k'ns upd by (intro exI [of _ m1] exI [of _ m2] exI [of _ k']) simp
qed

lemma full_table_misfiles_witness:
  "\<exists>m1 m2 k'. headers.ins_all
      \<lparr>m_hashsize = HEADERHASHSIZE, m_hashfull = False, m_header = None, m_hash = replicate HEADERHASHSIZE None\<rparr>
      (map (\<lambda>n. (n, ''old'')) (map dec_string [0..<HEADERHASHSIZE])) = Some m1 \<and>
    table_insert m1 ''x'' ''new'' = Some m2 \<and> k' \<in> set (map dec_string [0..<HEADERHASHSIZE]) \<and>
    map_option h_name (m_hash m1 ! nat (hashheader ''x'' HEADERHASHSIZE)) = Some (Some k') \<and>
    table_lookup m2 k' = Some [''old'', ''new''] \<and> table_lookup m2 ''x'' = Some []"
proof (rule full_table_misfiles)
  have "inj_on dec_string {0..<HEADERHASHSIZE}"
  proof (rule inj_onI)
    fix i j assume "i \<in> {0..<HEADERHASHSIZE}" "j \<in> {0..<HEADERHASHSIZE}" and eq: "dec_string i = dec_string j"
    then have "i < 2 ^ 31" "j < 2 ^ 31" by (simp_all add: HEADERHASHSIZE_def)
    then have "int i = int j" using eq by (metis atoi_dec_string)
    then show "i = j" by simp
  qed
  then show "distinct (map dec_string [0..<HEADERHASHSIZE])" by (simp add: distinct_map)
  have "seven_bit (dec_string i)" for i using dec_string_digits [of i] by (fastforce simp: c_isdigit_def)
  then show "\<forall>n \<in> set (map dec_string [0..<HEADERHASHSIZE]). seven_bit n" by auto
  have "dec_string i \<noteq> ''x''" for i using dec_string_digits [of i] by (auto simp: c_isdigit_def)
  then show "''x'' \<notin> set (map dec_string [0..<HEADERHASHSIZE])" by (metis (no_types, lifting) ex_map_conv)
qed (simp_all add: libsieve_message2_alloc_def)

end
