(* ===== verification/Address_Parser.thy ===== *)
theory Address_Parser
  imports Util
begin

text \<open>
  The scanner \<^verbatim>\<open>src/sv_parser/addr-lex.l\<close> and the grammar \<^verbatim>\<open>src/sv_parser/addr.y\<close> of
  e-mail addresses, with the list of addresses that the actions build.

  The scanner's start condition and its comment depth outlive a scan: nothing resets them when the
  next string is set up, so they are part of the state. The parser pulls one token at a time and
  pulls none after an error; the scanner is therefore a list of events that carry the state they
  leave behind.
\<close>

section \<open>The scanner\<close>

datatype addr_cond = INITIAL | QSTRING | DOMAINLIT | COMMENT

type_synonym addr_scan = "addr_cond \<times> int"

text \<open>
  \<^verbatim>\<open>DTEXT\<close> does not set \<^verbatim>\<open>yylval\<close>: its value is the one of the last token that did, and
  indeterminate (\<open>None\<close>) when there is none. \<open>CH\<close> is a character that stands for itself. The end
  of the input may come with a message of the scanner.
\<close>

datatype atoken = ATOM string | DOTATOM string | QTEXT string | DTEXT "string option" | QUOTE | CH char

datatype aevent = ATok atoken addr_scan | AEnd addr_scan "string option"

definition addr_special :: "char \<Rightarrow> bool" where
  "addr_special c \<longleftrightarrow> c \<in> set ''<>()@,;:.[]'' \<or> c = CHR 0x22 \<or> c = CHR 0x5C"

definition addr_white :: "char \<Rightarrow> bool" where
  "addr_white c \<longleftrightarrow> c = CHR '' '' \<or> c = CHR 0x09 \<or> c = CHR 0x0A \<or> c = CHR 0x0D"

definition atom_char :: "char \<Rightarrow> bool" where
  "atom_char c \<longleftrightarrow> \<not> addr_special c \<and> \<not> addr_white c"

text \<open>The messages of the scanner, such as \<^verbatim>\<open>address parse error, unexpected `')'' (unbalanced comment)\<close>.\<close>

definition addr_message :: "string \<Rightarrow> char \<Rightarrow> string \<Rightarrow> string" where
  "addr_message verb c why =
     ''address parse error, '' @ verb @ '' `'' @ [CHR 0x27, c, CHR 0x27, CHR 0x27] @ '' '' @ why"

text \<open>The longest match of \<^verbatim>\<open>([^\"]|\\\")+\<close>: a quote only behind a backslash.\<close>

fun qtext :: "bool \<Rightarrow> string \<Rightarrow> string" where
  "qtext bs [] = []"
| "qtext bs (c # s) = (if c = CHR 0x22 \<and> \<not> bs then [] else c # qtext (c = CHR 0x5C) s)"

function addr_lex :: "string option \<Rightarrow> addr_cond \<Rightarrow> int \<Rightarrow> string \<Rightarrow> aevent list" where
  "addr_lex lval cond depth [] =
     [AEnd (cond, depth)
        (if cond = COMMENT then Some (addr_message ''expecting'' (CHR '')'') ''(unterminated comment)'') else None)]"
| "addr_lex lval INITIAL depth (c # s) =
     (if c = CHR 0x22 then ATok QUOTE (QSTRING, depth) # addr_lex lval QSTRING depth s
      else if c = CHR ''['' then ATok (CH c) (DOMAINLIT, depth) # addr_lex lval DOMAINLIT depth s
      else if c = CHR ''('' then addr_lex lval COMMENT 1 s
      else if c = CHR '')'' then
        [AEnd (INITIAL, depth) (Some (addr_message ''unexpected'' (CHR '')'') ''(unbalanced comment)''))]
      else if addr_special c then ATok (CH c) (INITIAL, depth) # addr_lex lval INITIAL depth s
      else if addr_white c then addr_lex lval INITIAL depth s
      else (let w = c # takeWhile (\<lambda>d. atom_char d \<or> d = CHR ''.'') s
            in ATok (if CHR ''.'' \<in> set w then DOTATOM w else ATOM w) (INITIAL, depth)
               # addr_lex (Some w) INITIAL depth (dropWhile (\<lambda>d. atom_char d \<or> d = CHR ''.'') s)))"
| "addr_lex lval QSTRING depth (c # s) =
     (if c = CHR 0x22 then ATok QUOTE (INITIAL, depth) # addr_lex lval INITIAL depth s
      else (let w = qtext False (c # s)
            in ATok (QTEXT w) (QSTRING, depth) # addr_lex (Some w) QSTRING depth (drop (length w) (c # s))))"
| "addr_lex lval DOMAINLIT depth (c # s) =
     (if c = CHR ''['' then
        [AEnd (DOMAINLIT, depth) (Some (addr_message ''unexpected'' (CHR ''['') ''(already inside domainlit)''))]
      else if c = CHR '']'' then ATok (CH c) (INITIAL, depth) # addr_lex lval INITIAL depth s
      else ATok (DTEXT lval) (DOMAINLIT, depth)
           # addr_lex lval DOMAINLIT depth (dropWhile (\<lambda>d. d \<noteq> CHR ''['' \<and> d \<noteq> CHR '']'') s))"
| "addr_lex lval COMMENT depth (c # s) =
     (if c = CHR ''('' then addr_lex lval COMMENT (depth + 1) s
      else if c = CHR '')'' then addr_lex lval (if depth - 1 = 0 then INITIAL else COMMENT) (depth - 1) s
      else addr_lex lval COMMENT depth (dropWhile (\<lambda>d. d \<noteq> CHR ''('' \<and> d \<noteq> CHR '')'') s))"
  by pat_completeness auto
termination
  by (relation "measure (\<lambda>(_, _, _, s). length s)") (auto simp: less_Suc_eq_le length_dropWhile_le)

section \<open>The grammar\<close>

record address =
  ad_name :: "string option"
  ad_route :: "string option"
  ad_domain :: "string option"
  ad_mailbox :: "string option"

definition blank_address :: address where
  "blank_address = \<lparr>ad_name = None, ad_route = None, ad_domain = None, ad_mailbox = None\<rparr>"

definition libsieve_addrappend :: "address list \<Rightarrow> address list" where
  "libsieve_addrappend addrs = blank_address # addrs"

definition on_head :: "(address \<Rightarrow> address) \<Rightarrow> address list \<Rightarrow> address list" where
  "on_head f addrs = (case addrs of [] \<Rightarrow> [] | a # as \<Rightarrow> f a # as)"

text \<open>
  The parser reads the events from the left. A phrase of the grammar is recognised with its value
  and the events that follow it, or fails at the event that cannot continue it. \<open>None\<close> is the use
  of an indeterminate value by an action.
\<close>

datatype 'a parsed = Parsed 'a "aevent list" | Failed "aevent list"

fun p_char :: "char \<Rightarrow> aevent list \<Rightarrow> unit parsed" where
  "p_char c (ATok (CH d) sc # e) = (if c = d then Parsed () e else Failed (ATok (CH d) sc # e))"
| "p_char c e = Failed e"

fun p_qstring :: "aevent list \<Rightarrow> string parsed" where
  "p_qstring (ATok (QTEXT s) _ # e) =
     (case e of ATok QUOTE _ # e \<Rightarrow> Parsed s e | _ \<Rightarrow> Failed e)"
| "p_qstring e = Failed e"

fun p_word :: "aevent list \<Rightarrow> string parsed" where
  "p_word (ATok (ATOM s) _ # e) = Parsed s e"
| "p_word (ATok QUOTE _ # e) = p_qstring e"
| "p_word e = Failed e"

fun p_domain :: "aevent list \<Rightarrow> string option parsed" where
  "p_domain (ATok (DOTATOM s) _ # e) = Parsed (Some s) e"
| "p_domain (ATok (ATOM s) _ # e) = Parsed (Some s) e"
| "p_domain (ATok (CH c) sc # e) =
     (if c = CHR ''['' then
        (case e of
           ATok (DTEXT v) _ # e \<Rightarrow>
             (case p_char (CHR '']'') e of Parsed _ e \<Rightarrow> Parsed v e | Failed e \<Rightarrow> Failed e)
         | _ \<Rightarrow> Failed e)
      else Failed (ATok (CH c) sc # e))"
| "p_domain e = Failed e"

text \<open>\<^verbatim>\<open>addr_spec\<close>, after its local part.\<close>

definition p_at_domain :: "string \<Rightarrow> address list \<Rightarrow> aevent list \<Rightarrow> address list parsed option" where
  "p_at_domain l addrs e =
     (case p_char (CHR ''@'') e of
        Failed e \<Rightarrow> Some (Failed e)
      | Parsed _ e \<Rightarrow>
          (case p_domain e of
             Failed e \<Rightarrow> Some (Failed e)
           | Parsed d e \<Rightarrow>
               do { d \<leftarrow> d;
                    Some (Parsed (on_head (\<lambda>a. a\<lparr>ad_mailbox := Some l, ad_domain := Some d\<rparr>) addrs) e) }))"

definition p_addr_spec :: "address list \<Rightarrow> aevent list \<Rightarrow> address list parsed option" where
  "p_addr_spec addrs e =
     (case (case e of ATok (DOTATOM s) _ # e \<Rightarrow> Parsed s e | _ \<Rightarrow> p_word e) of
        Failed e \<Rightarrow> Some (Failed e)
      | Parsed l e \<Rightarrow> p_at_domain l addrs e)"

text \<open>\<^verbatim>\<open>route\<close>, after its first \<^verbatim>\<open>@\<close>.\<close>

function p_route :: "aevent list \<Rightarrow> string parsed option" where
  "p_route e =
     (case p_domain e of
        Failed e \<Rightarrow> Some (Failed e)
      | Parsed d e1 \<Rightarrow>
          do {
            d \<leftarrow> d;
            (case p_char (CHR '','') e1 of
               Failed _ \<Rightarrow> do { v \<leftarrow> strconcat_str [''@'', d]; Some (Parsed v e1) }
             | Parsed _ e2 \<Rightarrow>
                 (case p_char (CHR ''@'') e2 of
                    Failed e \<Rightarrow> Some (Failed e)
                  | Parsed _ e3 \<Rightarrow>
                      (if length e3 < length e then
                         do {
                           r \<leftarrow> p_route e3;
                           (case r of
                              Failed e \<Rightarrow> Some (Failed e)
                            | Parsed r e \<Rightarrow> do { v \<leftarrow> strconcat_str [''@'', d, '','', r]; Some (Parsed v e) })
                         }
                       else None)))
          })"
  by pat_completeness auto
termination by (relation "measure length") auto

text \<open>\<^verbatim>\<open>angle_addr\<close>, after its \<^verbatim>\<open><\<close>.\<close>

definition p_angle :: "address list \<Rightarrow> aevent list \<Rightarrow> address list parsed option" where
  "p_angle addrs e =
     (case p_char (CHR ''>'') e of
        Parsed _ e \<Rightarrow> Some (Parsed (on_head (\<lambda>a. a\<lparr>ad_mailbox := Some []\<rparr>) addrs) e)
      | Failed _ \<Rightarrow>
          (case p_char (CHR ''@'') e of
             Parsed _ e \<Rightarrow>
               do {
                 r \<leftarrow> p_route e;
                 (case r of
                    Failed e \<Rightarrow> Some (Failed e)
                  | Parsed route e \<Rightarrow>
                      (case p_char (CHR '':'') e of
                         Failed e \<Rightarrow> Some (Failed e)
                       | Parsed _ e \<Rightarrow>
                           do {
                             r \<leftarrow> p_addr_spec addrs e;
                             (case r of
                                Failed e \<Rightarrow> Some (Failed e)
                              | Parsed addrs e \<Rightarrow>
                                  (case p_char (CHR ''>'') e of
                                     Failed e \<Rightarrow> Some (Failed e)
                                   | Parsed _ e \<Rightarrow> Some (Parsed (on_head (\<lambda>a. a\<lparr>ad_route := Some route\<rparr>) addrs) e)))
                           }))
               }
           | Failed _ \<Rightarrow>
               do {
                 r \<leftarrow> p_addr_spec addrs e;
                 (case r of
                    Failed e \<Rightarrow> Some (Failed e)
                  | Parsed addrs e \<Rightarrow>
                      (case p_char (CHR ''>'') e of
                         Failed e \<Rightarrow> Some (Failed e)
                       | Parsed _ e \<Rightarrow> Some (Parsed addrs e)))
               }))"

text \<open>The words that continue a phrase.\<close>

fun p_phrase :: "string \<Rightarrow> aevent list \<Rightarrow> string parsed option" where
  "p_phrase w (ATok (ATOM s) _ # e) = do { w \<leftarrow> strconcat_str [w, '' '', s]; p_phrase w e }"
| "p_phrase w (ATok (DOTATOM s) _ # e) = do { w \<leftarrow> strconcat_str [w, '' '', s]; p_phrase w e }"
| "p_phrase w (ATok QUOTE _ # ATok (QTEXT s) _ # ATok QUOTE _ # e) =
     do { w \<leftarrow> strconcat_str [w, '' '', s]; p_phrase w e }"
| "p_phrase w (ATok QUOTE _ # ATok (QTEXT s) _ # e) = Some (Failed e)"
| "p_phrase w (ATok QUOTE _ # e) = Some (Failed e)"
| "p_phrase w e = Some (Parsed w e)"

text \<open>An angle address behind a phrase.\<close>

definition p_named :: "string \<Rightarrow> address list \<Rightarrow> aevent list \<Rightarrow> address list parsed option" where
  "p_named w addrs e =
     (case p_char (CHR ''<'') e of
        Failed e \<Rightarrow> Some (Failed e)
      | Parsed _ e \<Rightarrow>
          do {
            r \<leftarrow> p_angle addrs e;
            Some (case r of
                Failed e \<Rightarrow> Failed e
              | Parsed addrs e \<Rightarrow> Parsed (on_head (\<lambda>a. a\<lparr>ad_name := Some w\<rparr>) addrs) e)
          })"

definition next_is :: "char \<Rightarrow> aevent list \<Rightarrow> bool" where
  "next_is c e = (case p_char c e of Parsed _ _ \<Rightarrow> True | Failed _ \<Rightarrow> False)"

text \<open>\<^verbatim>\<open>mailbox\<close>; an atom or a quoted string in front of \<^verbatim>\<open>@\<close> is a local part, else a word.\<close>

definition p_mailbox :: "address list \<Rightarrow> aevent list \<Rightarrow> address list parsed option" where
  "p_mailbox addrs e =
     (case p_char (CHR ''<'') e of
        Parsed _ e \<Rightarrow> p_angle addrs e
      | Failed _ \<Rightarrow>
          (case e of
             ATok (DOTATOM s) _ # e \<Rightarrow> p_at_domain s addrs e
           | _ \<Rightarrow>
               (case p_word e of
                  Failed e \<Rightarrow> Some (Failed e)
                | Parsed w e \<Rightarrow>
                    if next_is (CHR ''@'') e then p_at_domain w addrs e
                    else do {
                      r \<leftarrow> p_phrase w e;
                      (case r of Failed e \<Rightarrow> Some (Failed e) | Parsed w e \<Rightarrow> p_named w addrs e)
                    })))"

text \<open>\<^verbatim>\<open>mailbox_list\<close>, after its first mailbox was entered.\<close>

function p_mailboxes :: "address list \<Rightarrow> aevent list \<Rightarrow> address list parsed option" where
  "p_mailboxes addrs e =
     (case p_char (CHR '','') e of
        Failed _ \<Rightarrow> Some (Parsed addrs e)
      | Parsed _ e1 \<Rightarrow>
          do {
            r \<leftarrow> p_mailbox addrs e1;
            (case r of
               Failed e \<Rightarrow> Some (Failed e)
             | Parsed addrs e2 \<Rightarrow>
                 if length e2 < length e then p_mailboxes (libsieve_addrappend addrs) e2 else None)
          })"
  by pat_completeness auto
termination by (relation "measure (\<lambda>(_, e). length e)") auto

declare p_route.simps [simp del] p_mailboxes.simps [simp del]

definition p_list :: "address list \<Rightarrow> aevent list \<Rightarrow> address list parsed option" where
  "p_list addrs e =
     do {
       r \<leftarrow> p_mailbox addrs e;
       (case r of
          Failed e \<Rightarrow> Some (Failed e)
        | Parsed addrs e \<Rightarrow> p_mailboxes (libsieve_addrappend addrs) e)
     }"

fun p_end :: "address list \<Rightarrow> aevent list \<Rightarrow> address list parsed" where
  "p_end addrs (AEnd sc m # e) = Parsed addrs (AEnd sc m # e)"
| "p_end addrs e = Failed e"

definition then_end :: "address list parsed option \<Rightarrow> address list parsed option" where
  "then_end r = do { r \<leftarrow> r; Some (case r of Failed e \<Rightarrow> Failed e | Parsed addrs e \<Rightarrow> p_end addrs e) }"

text \<open>
  \<^verbatim>\<open>start\<close>: nothing, a single word (the malformed address, whose name is stored in the struct
  on top), a list of mailboxes, or a group.
\<close>

definition addrparse :: "address list \<Rightarrow> aevent list \<Rightarrow> address list parsed option" where
  "addrparse addrs e =
     (case e of
        AEnd _ _ # _ \<Rightarrow> Some (Parsed (libsieve_addrappend addrs) e)
      | _ \<Rightarrow>
          (case p_word e of
             Failed _ \<Rightarrow> then_end (p_list addrs e)
           | Parsed w e1 \<Rightarrow>
               (case e1 of
                  AEnd _ _ # _ \<Rightarrow>
                    Some (Parsed (on_head (\<lambda>a. a\<lparr>ad_name := Some w\<rparr>) (libsieve_addrappend addrs)) e1)
                | _ \<Rightarrow>
                    if next_is (CHR ''@'') e1 then then_end (p_list addrs e)
                    else do {
                      r \<leftarrow> p_phrase w e1;
                      (case r of
                         Failed e \<Rightarrow> Some (Failed e)
                       | Parsed w e2 \<Rightarrow>
                           (case p_char (CHR '':'') e2 of
                              Failed _ \<Rightarrow> then_end (p_list addrs e)
                            | Parsed _ e3 \<Rightarrow>
                                (case p_char (CHR '';'') e3 of
                                   Parsed _ e4 \<Rightarrow> Some (p_end addrs e4)
                                 | Failed _ \<Rightarrow>
                                     do {
                                       r \<leftarrow> p_list addrs e3;
                                       Some (case r of
                                           Failed e \<Rightarrow> Failed e
                                         | Parsed addrs e \<Rightarrow>
                                             (case p_char (CHR '';'') e of
                                                Failed e \<Rightarrow> Failed e
                                              | Parsed _ e \<Rightarrow> p_end addrs e))
                                     })))
                    })))"

text \<open>
  A parse as its caller sees it: the list of address structs on success, the state the scanner is
  left in, and the messages of the scanner and of bison, in order.
\<close>

definition addr_parse :: "string \<Rightarrow> addr_scan \<Rightarrow> string \<Rightarrow> (address list option \<times> addr_scan \<times> string list) option" where
  "addr_parse syntax_error scan s =
     do {
       r \<leftarrow> addrparse (libsieve_addrappend []) (addr_lex None (fst scan) (snd scan) s);
       (case r of
          Parsed addrs e \<Rightarrow>
            (case e of
               AEnd sc m # _ \<Rightarrow> Some (Some addrs, sc, (case m of None \<Rightarrow> [] | Some m \<Rightarrow> [m]))
             | _ \<Rightarrow> None)
        | Failed e \<Rightarrow>
            (case e of
               AEnd sc m # _ \<Rightarrow> Some (None, sc, (case m of None \<Rightarrow> [] | Some m \<Rightarrow> [m]) @ [syntax_error])
             | ATok _ sc # _ \<Rightarrow> Some (None, sc, [syntax_error])
             | [] \<Rightarrow> None))
     }"

section \<open>A list of plain addresses\<close>

definition plain :: "string \<Rightarrow> bool" where
  "plain p \<longleftrightarrow> p \<noteq> [] \<and> atom_char (hd p) \<and> (\<forall>c \<in> set p. atom_char c \<or> c = CHR ''.'')"

definition print_address :: "string \<times> string \<Rightarrow> string" where
  "print_address a = fst a @ ''@'' @ snd a"

fun print_addresses :: "(string \<times> string) list \<Rightarrow> string" where
  "print_addresses [] = []"
| "print_addresses [a] = print_address a"
| "print_addresses (a # as) = print_address a @ '', '' @ print_addresses as"

lemma atom_char_facts: "atom_char c \<Longrightarrow> \<not> addr_special c \<and> \<not> addr_white c \<and> c \<noteq> CHR 0x22 \<and> c \<noteq> CHR ''['' \<and> c \<noteq> CHR ''('' \<and> c \<noteq> CHR '')''"
  by (auto simp: atom_char_def addr_special_def)

definition plain_token :: "string \<Rightarrow> aevent" where
  "plain_token p = ATok (if CHR ''.'' \<in> set p then DOTATOM p else ATOM p) (INITIAL, 0)"

lemma lex_plain:
  assumes "plain p" and "s = [] \<or> \<not> (atom_char (hd s) \<or> hd s = CHR ''.'')"
  shows "addr_lex lval INITIAL 0 (p @ s) = plain_token p # addr_lex (Some p) INITIAL 0 s"
proof -
  obtain c p' where p: "p = c # p'" "atom_char c" "\<forall>d \<in> set p'. atom_char d \<or> d = CHR ''.''"
    using assms(1) by (cases p) (auto simp: plain_def)
  have "takeWhile (\<lambda>d. atom_char d \<or> d = CHR ''.'') (p' @ s) = p'"
    using p(3) assms(2) by (cases s) (auto simp: takeWhile_append2)
  moreover have "dropWhile (\<lambda>d. atom_char d \<or> d = CHR ''.'') (p' @ s) = s"
    using p(3) assms(2) by (cases s) (auto simp: dropWhile_append2)
  ultimately show ?thesis
    using atom_char_facts [OF p(2)] by (simp add: p(1) plain_token_def Let_def)
qed

lemma special_chars:
  "\<not> atom_char CHR ''@''" "\<not> atom_char CHR '',''" "addr_special CHR ''@''" "addr_special CHR '',''"
  "addr_white CHR '' ''" "\<not> addr_special CHR '' ''" "\<not> atom_char CHR '' ''"
  by (auto simp: atom_char_def addr_special_def addr_white_def)

definition address_tokens :: "string \<times> string \<Rightarrow> aevent list" where
  "address_tokens a = [plain_token (fst a), ATok (CH CHR ''@'') (INITIAL, 0), plain_token (snd a)]"

lemma lex_address:
  assumes "plain m" and "plain d" and "s = [] \<or> hd s = CHR '','' \<or> hd s = CHR '' ''"
  shows "addr_lex lval INITIAL 0 (print_address (m, d) @ s) = address_tokens (m, d) @ addr_lex (Some d) INITIAL 0 s"
proof -
  have "s = [] \<or> \<not> (atom_char (hd s) \<or> hd s = CHR ''.'')" using assms(3) special_chars by auto
  then show ?thesis
    using lex_plain [OF assms(1), of "CHR ''@'' # d @ s" lval] lex_plain [OF assms(2), of s "Some m"] special_chars
    by (simp add: print_address_def address_tokens_def)
qed

fun list_tokens :: "(string \<times> string) list \<Rightarrow> aevent list" where
  "list_tokens [] = []"
| "list_tokens [a] = address_tokens a"
| "list_tokens (a # as) = address_tokens a @ ATok (CH CHR '','') (INITIAL, 0) # list_tokens as"

lemma lex_addresses:
  "as \<noteq> [] \<Longrightarrow> \<forall>(m, d) \<in> set as. plain m \<and> plain d \<Longrightarrow> s = [] \<or> hd s = CHR '' '' \<Longrightarrow>
   addr_lex lval INITIAL 0 (print_addresses as @ s) = list_tokens as @ addr_lex (Some (snd (last as))) INITIAL 0 s"
proof (induction as arbitrary: lval rule: print_addresses.induct)
  case (2 a)
  then show ?case using lex_address [of "fst a" "snd a" s lval] by auto
next
  case (3 a b as)
  have "addr_lex (Some (snd a)) INITIAL 0 ('', '' @ print_addresses (b # as) @ s)
      = ATok (CH CHR '','') (INITIAL, 0) # addr_lex (Some (snd a)) INITIAL 0 (print_addresses (b # as) @ s)"
    using special_chars by simp
  then show ?case
    using 3 lex_address [of "fst a" "snd a" "'', '' @ print_addresses (b # as) @ s" lval] by auto
qed simp

definition mk_address :: "string \<times> string \<Rightarrow> address" where
  "mk_address a = blank_address\<lparr>ad_mailbox := Some (fst a), ad_domain := Some (snd a)\<rparr>"

lemma p_domain_plain: "p_domain (plain_token d # e) = Parsed (Some d) e"
  by (simp add: plain_token_def)

lemma p_mailbox_plain:
  "p_mailbox (blank_address # addrs) (address_tokens a @ e) = Some (Parsed (mk_address a # addrs) e)"
  by (auto simp: p_mailbox_def address_tokens_def plain_token_def next_is_def p_at_domain_def on_head_def mk_address_def)

lemma p_mailboxes_plain:
  assumes "e = AEnd sc m # e'"
  shows "p_mailboxes (blank_address # addrs) (concat (map (\<lambda>a. ATok (CH CHR '','') (INITIAL, 0) # address_tokens a) as) @ e)
    = Some (Parsed (blank_address # rev (map mk_address as) @ addrs) e)"
proof (induction as arbitrary: addrs)
  case Nil
  then show ?case using assms by (simp add: p_mailboxes.simps)
next
  case (Cons a as)
  have len: "length x < length (ATok (CH CHR '','') (INITIAL, 0) # address_tokens a @ x)" for x by simp
  show ?case
    using Cons [of "mk_address a # addrs"]
    by (subst p_mailboxes.simps) (simp add: p_mailbox_plain libsieve_addrappend_def len)
qed

lemma addrparse_plain: "addrparse addrs (address_tokens a @ e) = then_end (p_list addrs (address_tokens a @ e))"
  by (cases "CHR ''.'' \<in> set (fst a)") (simp_all add: addrparse_def address_tokens_def plain_token_def next_is_def)

lemma list_tokens_Cons:
  "list_tokens (a # as) = address_tokens a @ concat (map (\<lambda>a. ATok (CH CHR '','') (INITIAL, 0) # address_tokens a) as)"
  by (induction as arbitrary: a) auto

text \<open>Behind the list only the end of the input may follow, with or without a message of the scanner.\<close>

lemma addr_parse_plain:
  assumes "as \<noteq> []" and "\<forall>(m, d) \<in> set as. plain m \<and> plain d" and "s = [] \<or> hd s = CHR '' ''"
    and "\<And>lval. addr_lex lval INITIAL 0 s = [AEnd sc msg]"
  shows "addr_parse syntax_error (INITIAL, 0) (print_addresses as @ s)
    = Some (Some (blank_address # rev (map mk_address as)), sc, (case msg of None \<Rightarrow> [] | Some m \<Rightarrow> [m]))"
proof -
  obtain a as' where as: "as = a # as'" using assms(1) by (cases as) auto
  let ?e = "[AEnd sc msg]"
  let ?rest = "concat (map (\<lambda>a. ATok (CH CHR '','') (INITIAL, 0) # address_tokens a) as') @ ?e"
  have list: "p_list [blank_address] (address_tokens a @ ?rest)
      = Some (Parsed (blank_address # rev (map mk_address as)) ?e)"
  proof -
    have "p_mailbox [blank_address] (address_tokens a @ ?rest) = Some (Parsed [mk_address a] ?rest)"
      by (rule p_mailbox_plain)
    moreover have "p_mailboxes [blank_address, mk_address a] ?rest
        = Some (Parsed (blank_address # rev (map mk_address as') @ [mk_address a]) ?e)"
      by (rule p_mailboxes_plain [OF refl])
    ultimately show ?thesis unfolding p_list_def by (simp add: libsieve_addrappend_def as)
  qed
  have "addrparse [blank_address] (address_tokens a @ ?rest) = Some (Parsed (blank_address # rev (map mk_address as)) ?e)"
    by (simp only: addrparse_plain list) (simp add: then_end_def)
  then show ?thesis
    using lex_addresses [OF assms(1-3), of None] list_tokens_Cons [of a as']
    by (simp add: addr_parse_def libsieve_addrappend_def as assms(4))
qed

definition unterminated_comment :: string where
  "unterminated_comment = addr_message ''expecting'' (CHR '')'') ''(unterminated comment)''"

lemma lex_open_comment:
  assumes "CHR ''('' \<notin> set s" and "CHR '')'' \<notin> set s"
  shows "addr_lex lval COMMENT depth s = [AEnd (COMMENT, depth) (Some unterminated_comment)]"
proof (cases s)
  case (Cons c t)
  have "dropWhile (\<lambda>d. d \<noteq> CHR ''('' \<and> d \<noteq> CHR '')'') t = []"
    using assms Cons by (auto simp: dropWhile_eq_Nil_conv)
  moreover have "c \<noteq> CHR ''(''" "c \<noteq> CHR '')''" using assms Cons by auto
  ultimately show ?thesis by (simp add: Cons unterminated_comment_def del: dropWhile_eq_Nil_conv)
qed (simp add: unterminated_comment_def)

text \<open>
  C13. A list of plain addresses, separated by a comma and a blank, read in the initial state of
  the scanner, is scanned and parsed without a message, and gives exactly these addresses, the last
  one first, below the empty struct that the grammar leaves on top. A plain address is mailbox, at
  sign and domain, both non-empty, without white space and without any of the special characters of
  the scanner, brackets, parentheses, quotes and backslashes among them; only a dot may occur, but
  not in front.
\<close>
theorem address_list_roundtrip:
  assumes "as \<noteq> []" and "\<forall>(m, d) \<in> set as. plain m \<and> plain d"
  shows "addr_parse syntax_error (INITIAL, 0) (print_addresses as)
    = Some (Some (blank_address # rev (map mk_address as)), (INITIAL, 0), [])"
  using addr_parse_plain [OF assms, of "[]" "(INITIAL, 0)" None] by simp

text \<open>
  C36. The scanner does not start afresh. A list of plain addresses with a comment behind it that is
  not closed gives the addresses and the message of an unterminated comment, and leaves the scanner
  inside the comment. Every following text without parentheses, another list of plain addresses for
  one, is then taken for a part of that comment, whatever its depth: the parse succeeds with no
  address, only the struct of an empty input, gives the same message and stays inside the comment.
\<close>
theorem unterminated_comment_persists:
  assumes "as \<noteq> []" and "\<forall>(m, d) \<in> set as. plain m \<and> plain d"
    and "CHR ''('' \<notin> set u" and "CHR '')'' \<notin> set u" and "CHR ''('' \<notin> set s" and "CHR '')'' \<notin> set s"
  shows "addr_parse syntax_error (INITIAL, 0) (print_addresses as @ '' ('' @ u)
      = Some (Some (blank_address # rev (map mk_address as)), (COMMENT, 1), [unterminated_comment]) \<and>
    addr_parse syntax_error (COMMENT, depth) s
      = Some (Some [blank_address, blank_address], (COMMENT, depth), [unterminated_comment])"
proof
  have "addr_lex lval INITIAL 0 ('' ('' @ u) = [AEnd (COMMENT, 1) (Some unterminated_comment)]" for lval
    using lex_open_comment [OF assms(3,4)] special_chars by simp
  from addr_parse_plain [OF assms(1,2) _ this]
  show "addr_parse syntax_error (INITIAL, 0) (print_addresses as @ '' ('' @ u)
      = Some (Some (blank_address # rev (map mk_address as)), (COMMENT, 1), [unterminated_comment])" by simp
  show "addr_parse syntax_error (COMMENT, depth) s
      = Some (Some [blank_address, blank_address], (COMMENT, depth), [unterminated_comment])"
    using lex_open_comment [OF assms(5,6)] by (simp add: addr_parse_def addrparse_def libsieve_addrappend_def)
qed

lemma address_list_roundtrip_witness:
  "addr_parse ''syntax error'' (INITIAL, 0) ''tim@example.org, j.doe@x''
    = Some (Some [blank_address, mk_address (''j.doe'', ''x''), mk_address (''tim'', ''example.org'')], (INITIAL, 0), [])"
  using address_list_roundtrip [of "[(''tim'', ''example.org''), (''j.doe'', ''x'')]" "''syntax error''"]
  by (simp add: print_address_def plain_def atom_char_def addr_special_def addr_white_def)

lemma unterminated_comment_persists_witness:
  "addr_parse ''syntax error'' (INITIAL, 0) ''joe@x (at home''
     = Some (Some [blank_address, mk_address (''joe'', ''x'')], (COMMENT, 1), [unterminated_comment]) \<and>
   addr_parse ''syntax error'' (COMMENT, 1) ''tim@example.org''
     = Some (Some [blank_address, blank_address], (COMMENT, 1), [unterminated_comment])"
  using unterminated_comment_persists [of "[(''joe'', ''x'')]" "''at home''" "''tim@example.org''" "''syntax error''" 1]
  by (simp add: print_address_def plain_def atom_char_def addr_special_def addr_white_def)

section \<open>Progress\<close>

text \<open>
  Every phrase consumes events, so the length tests of \<open>p_route\<close> and \<open>p_mailboxes\<close>, which make
  their recursion well-founded, always succeed.
\<close>

named_theorems parsed_iff \<open>when a composed phrase is parsed\<close>

lemma parsed_case_iff [parsed_iff]:
  "(case p of Parsed a e \<Rightarrow> f a e | Failed e \<Rightarrow> Some (Failed e)) = Some (Parsed x e')
    \<longleftrightarrow> (\<exists>a e1. p = Parsed a e1 \<and> f a e1 = Some (Parsed x e'))"
  "(case p of Parsed a e \<Rightarrow> g a e | Failed e \<Rightarrow> Failed e) = Parsed x e'
    \<longleftrightarrow> (\<exists>a e1. p = Parsed a e1 \<and> g a e1 = Parsed x e')"
  by (cases p; simp)+

lemma p_char_shrinks: "p_char c e = Parsed u e' \<Longrightarrow> length e' < length e"
  by (induction c e rule: p_char.induct) (auto split: if_splits)

lemma p_qstring_shrinks: "p_qstring e = Parsed s e' \<Longrightarrow> length e' < length e"
  by (induction e rule: p_qstring.induct) (auto split: list.splits aevent.splits atoken.splits)

lemma p_word_shrinks: "p_word e = Parsed s e' \<Longrightarrow> length e' < length e"
  by (induction e rule: p_word.induct) (auto dest: p_qstring_shrinks)

lemma p_domain_shrinks: "p_domain e = Parsed d e' \<Longrightarrow> length e' < length e"
  by (induction e rule: p_domain.induct)
    (auto split: if_splits list.splits aevent.splits atoken.splits parsed.splits dest!: p_char_shrinks)

lemma p_at_domain_shrinks: "p_at_domain l addrs e = Some (Parsed x e') \<Longrightarrow> length e' < length e"
  by (auto simp: p_at_domain_def bind_eq_Some_conv parsed_iff dest!: p_char_shrinks p_domain_shrinks)

lemma p_addr_spec_shrinks: "p_addr_spec addrs e = Some (Parsed x e') \<Longrightarrow> length e' < length e"
proof -
  assume "p_addr_spec addrs e = Some (Parsed x e')"
  then obtain l e1 where l: "(case e of ATok (DOTATOM s) _ # e \<Rightarrow> Parsed s e | _ \<Rightarrow> p_word e) = Parsed l e1"
    and d: "p_at_domain l addrs e1 = Some (Parsed x e')"
    by (auto simp: p_addr_spec_def parsed_iff)
  have "length e1 < length e"
    using l p_word_shrinks [of e l e1] by (auto split: list.splits aevent.splits atoken.splits)
  then show ?thesis using p_at_domain_shrinks [OF d] by simp
qed

lemma p_route_shrinks: "p_route e = Some (Parsed x e') \<Longrightarrow> length e' < length e"
proof (induction e arbitrary: x e' rule: p_route.induct)
  case (1 e)
  obtain d e1 where d: "p_domain e = Parsed (Some d) e1"
    and rest: "(case p_char (CHR '','') e1 of
               Failed _ \<Rightarrow> do { v \<leftarrow> strconcat_str [''@'', d]; Some (Parsed v e1) }
             | Parsed _ e2 \<Rightarrow>
                 (case p_char (CHR ''@'') e2 of
                    Failed e \<Rightarrow> Some (Failed e)
                  | Parsed _ e3 \<Rightarrow>
                      (if length e3 < length e then
                         do {
                           r \<leftarrow> p_route e3;
                           (case r of
                              Failed e \<Rightarrow> Some (Failed e)
                            | Parsed r e \<Rightarrow> do { v \<leftarrow> strconcat_str [''@'', d, '','', r]; Some (Parsed v e) })
                         }
                       else None))) = Some (Parsed x e')"
    using 1(2) unfolding p_route.simps [of e] by (auto simp only: parsed_iff bind_eq_Some_conv)
  show ?case
  proof (cases "p_char (CHR '','') e1")
    case (Failed f)
    then show ?thesis using p_domain_shrinks [OF d] rest by (auto simp: bind_eq_Some_conv)
  next
    case (Parsed u e2)
    then obtain e3 r where e3: "p_char (CHR ''@'') e2 = Parsed () e3" "length e3 < length e"
      and "p_route e3 = Some (Parsed r e')"
      using rest by (auto simp: parsed_iff bind_eq_Some_conv split: if_splits)
    then show ?thesis using 1(1) [OF d refl Parsed e3(1,2)] e3(2) by fastforce
  qed
qed

lemma p_close_shrinks:
  assumes "p_addr_spec addrs e = Some (Parsed a1 e1)" and "p_char (CHR ''>'') e1 = Parsed u e'"
  shows "length e' < length e"
  using p_addr_spec_shrinks [OF assms(1)] p_char_shrinks [OF assms(2)] by simp

lemma p_angle_shrinks:
  assumes "p_angle addrs e = Some (Parsed x e')"
  shows "length e' < length e"
proof (cases "p_char (CHR ''>'') e")
  case (Parsed u e1)
  then show ?thesis using assms by (auto simp: p_angle_def dest: p_char_shrinks)
next
  case gt: (Failed f)
  show ?thesis
  proof (cases "p_char (CHR ''@'') e")
    case (Failed g)
    then show ?thesis using assms gt by (auto simp: p_angle_def bind_eq_Some_conv parsed_iff intro: p_close_shrinks)
  next
    case (Parsed u e1)
    then obtain r e2 e3 a e4 where r: "p_route e1 = Some (Parsed r e2)" "p_char (CHR '':'') e2 = Parsed () e3"
      "p_addr_spec addrs e3 = Some (Parsed a e4)" "p_char (CHR ''>'') e4 = Parsed () e'"
      using assms gt by (auto simp: p_angle_def bind_eq_Some_conv parsed_iff)
    then show ?thesis
      using p_char_shrinks [OF Parsed] p_route_shrinks [OF r(1)] p_char_shrinks [OF r(2)] p_close_shrinks [OF r(3,4)]
      by simp
  qed
qed

lemma p_phrase_shrinks: "p_phrase w e = Some (Parsed x e') \<Longrightarrow> length e' \<le> length e"
  by (induction w e arbitrary: x e' rule: p_phrase.induct) (fastforce simp: bind_eq_Some_conv)+

lemma p_named_shrinks: "p_named w addrs e = Some (Parsed x e') \<Longrightarrow> length e' < length e"
  by (auto simp: p_named_def bind_eq_Some_conv parsed_iff dest!: p_char_shrinks p_angle_shrinks)

lemma p_mailbox_shrinks:
  assumes "p_mailbox addrs e = Some (Parsed x e')"
  shows "length e' < length e"
proof (cases "p_char (CHR ''<'') e")
  case (Parsed u e1)
  then show ?thesis using assms p_char_shrinks [OF Parsed] p_angle_shrinks [of addrs e1 x e'] by (simp add: p_mailbox_def)
next
  case lt: (Failed f)
  show ?thesis
  proof (cases "\<exists>s sc e1. e = ATok (DOTATOM s) sc # e1")
    case True
    then show ?thesis using assms lt by (auto simp: p_mailbox_def dest!: p_at_domain_shrinks)
  next
    case False
    then have eq: "p_mailbox addrs e = (case p_word e of Failed e \<Rightarrow> Some (Failed e)
        | Parsed w e \<Rightarrow> if next_is (CHR ''@'') e then p_at_domain w addrs e
            else do { r \<leftarrow> p_phrase w e; (case r of Failed e \<Rightarrow> Some (Failed e) | Parsed w e \<Rightarrow> p_named w addrs e) })"
      using lt by (auto simp: p_mailbox_def split: list.splits aevent.splits atoken.splits)
    then obtain w e1 where w: "p_word e = Parsed w e1" using assms unfolding eq by (auto simp only: parsed_iff)
    show ?thesis
    proof (cases "next_is (CHR ''@'') e1")
      case True
      then show ?thesis using assms eq w p_word_shrinks [OF w] p_at_domain_shrinks [of w addrs e1 x e'] by simp
    next
      case False
      then obtain v e2 where "p_phrase w e1 = Some (Parsed v e2)" "p_named v addrs e2 = Some (Parsed x e')"
        using assms eq w by (auto simp: bind_eq_Some_conv parsed_iff)
      then show ?thesis using p_word_shrinks [OF w] p_phrase_shrinks p_named_shrinks by fastforce
    qed
  qed
qed

lemma p_mailboxes_step:
  "p_mailboxes addrs e =
     (case p_char (CHR '','') e of
        Failed _ \<Rightarrow> Some (Parsed addrs e)
      | Parsed _ e1 \<Rightarrow>
          do {
            r \<leftarrow> p_mailbox addrs e1;
            (case r of
               Failed e \<Rightarrow> Some (Failed e)
             | Parsed addrs e2 \<Rightarrow> p_mailboxes (libsieve_addrappend addrs) e2)
          })"
  by (subst p_mailboxes.simps)
    (fastforce split: parsed.splits dest: p_char_shrinks p_mailbox_shrinks intro!: Option.bind_cong)

lemma p_route_step:
  "p_route e =
     (case p_domain e of
        Failed e \<Rightarrow> Some (Failed e)
      | Parsed d e1 \<Rightarrow>
          do {
            d \<leftarrow> d;
            (case p_char (CHR '','') e1 of
               Failed _ \<Rightarrow> do { v \<leftarrow> strconcat_str [''@'', d]; Some (Parsed v e1) }
             | Parsed _ e2 \<Rightarrow>
                 (case p_char (CHR ''@'') e2 of
                    Failed e \<Rightarrow> Some (Failed e)
                  | Parsed _ e3 \<Rightarrow>
                      do {
                        r \<leftarrow> p_route e3;
                        (case r of
                           Failed e \<Rightarrow> Some (Failed e)
                         | Parsed r e \<Rightarrow> do { v \<leftarrow> strconcat_str [''@'', d, '','', r]; Some (Parsed v e) })
                      }))
          })"
  by (subst p_route.simps)
    (fastforce split: parsed.splits dest: p_char_shrinks p_domain_shrinks intro!: Option.bind_cong)

end
