(* ===== verification/Header_Lexer.thy ===== *)
theory Header_Lexer
  imports Header_Hash
begin

text \<open>
  The scanner of message headers, \<^verbatim>\<open>src/sv_parser/header-lex.l\<close>: its four start conditions, of
  which the last one stays with the context from one message to the next, the beginning-of-line
  flag of flex, the line counter, and the default rule, which sends a character no rule matches to
  the standard output. The scanner gives a list of events, each token with the line and the
  condition it leaves.
\<close>

datatype header_cond = H_INITIAL | H_NAME | H_TEXT | H_WRAP

datatype hevent = HTok htoken header_cond nat | HEnd header_cond nat

definition h_white :: "char \<Rightarrow> bool" where
  "h_white c \<longleftrightarrow> c = CHR '' '' \<or> c = CHR 0x09"

definition h_crlf :: "char \<Rightarrow> bool" where
  "h_crlf c \<longleftrightarrow> c = CHR 0x0D \<or> c = CHR 0x0A"

definition newlines :: "string \<Rightarrow> nat" where
  "newlines s = count_list s (CHR 0x0A)"

definition ends_line :: "string \<Rightarrow> bool" where
  "ends_line s \<longleftrightarrow> s \<noteq> [] \<and> last s = CHR 0x0A"

text \<open>
  The rules of the initial condition compete by length: a colon with what follows it, a run of line
  ends, a \<^verbatim>\<open>CRLF\<close> and a white character, and, at the beginning of a line, a single character. The
  two last ones push back what they must not consume.
\<close>

function header_lex :: "header_cond \<Rightarrow> bool \<Rightarrow> nat \<Rightarrow> string \<Rightarrow> hevent list" where
  "header_lex cond bol line [] = [HEnd cond line]"
| "header_lex H_INITIAL bol line (c # s) =
     (if c = CHR '':'' then
        (let ws = takeWhile h_white s; rest = dropWhile h_white s; nl = takeWhile h_crlf rest
         in if bol \<and> ws = [] \<and> nl = [] then header_lex H_NAME False line (c # s)
            else if nl \<noteq> [] then
              HTok COLON H_INITIAL (line + newlines nl)
              # header_lex H_INITIAL (ends_line nl) (line + newlines nl) (dropWhile h_crlf rest)
            else HTok COLON H_TEXT line # header_lex H_TEXT False line rest)
      else if h_crlf c then
        (let nl = takeWhile h_crlf (c # s); rest = dropWhile h_crlf (c # s)
         in if nl = [CHR 0x0D, CHR 0x0A] \<and> rest \<noteq> [] \<and> h_white (hd rest)
            then header_lex H_WRAP False (line + 1) rest
            else header_lex H_INITIAL (ends_line nl) (line + newlines nl) rest)
      else if bol then header_lex (if h_white c then H_WRAP else H_NAME) False line (c # s)
      else header_lex H_INITIAL False line s)"
| "header_lex H_NAME bol line (c # s) =
     (if c = CHR '':'' then header_lex H_NAME False line s
      else (let w = takeWhile (\<lambda>d. d \<noteq> CHR '':'') (c # s)
            in HTok (NAME w) H_INITIAL (line + newlines w)
               # header_lex H_INITIAL (ends_line w) (line + newlines w) (dropWhile (\<lambda>d. d \<noteq> CHR '':'') (c # s))))"
| "header_lex H_TEXT bol line (c # s) =
     (if h_crlf c then header_lex H_TEXT (c = CHR 0x0A) (line + newlines [c]) s
      else HTok (TEXT (takeWhile (\<lambda>d. \<not> h_crlf d) (c # s))) H_INITIAL line
           # header_lex H_INITIAL False line (dropWhile (\<lambda>d. \<not> h_crlf d) (c # s)))"
| "header_lex H_WRAP bol line (c # s) =
     (if h_crlf c then header_lex H_WRAP (c = CHR 0x0A) (line + newlines [c]) s
      else HTok (WRAP (takeWhile (\<lambda>d. \<not> h_crlf d) (c # s))) H_INITIAL line
           # header_lex H_INITIAL False line (dropWhile (\<lambda>d. \<not> h_crlf d) (c # s)))"
  by pat_completeness auto
termination
  by (relation "measure (\<lambda>(cond, _, _, s). 2 * length s + (if cond = H_INITIAL then 1 else 0))")
    (auto simp: less_Suc_eq_le intro!: le_SucI length_dropWhile_le order_trans [OF length_dropWhile_le])

declare header_lex.simps(2-) [simp del]

fun event_tokens :: "hevent list \<Rightarrow> htoken list" where
  "event_tokens [] = []"
| "event_tokens (HTok t _ _ # es) = t # event_tokens es"
| "event_tokens (HEnd _ _ # es) = event_tokens es"

text \<open>
  How many tokens the parser has asked for when it stops: all of them, and the end, or up to the
  one that cannot continue the header.
\<close>

fun header_reads :: "hstate \<Rightarrow> htoken list \<Rightarrow> nat" where
  "header_reads HStart (NAME n # ts) = Suc (header_reads (HName n) ts)"
| "header_reads (HName n) (COLON # ts) = Suc (header_reads (HColon n) ts)"
| "header_reads (HColon n) (TEXT t # ts) = Suc (header_reads (HBody n t) ts)"
| "header_reads (HBody n b) (WRAP w # ts) = Suc (header_reads (HBody n b) ts)"
| "header_reads (HBody n b) (NAME m # ts) = Suc (header_reads (HName m) ts)"
| "header_reads _ _ = 1"

fun event_state :: "hevent \<Rightarrow> header_cond \<times> nat" where
  "event_state (HTok _ cond line) = (cond, line)"
| "event_state (HEnd cond line) = (cond, line)"

text \<open>
  \<^verbatim>\<open>libsieve_header_parse_buffer\<close> on a text: the header list, or \<open>None\<close> for a syntax error,
  and the condition and the line at the last token read. The line counter starts at 1.
\<close>

definition header_parse_text ::
  "header_cond \<Rightarrow> string \<Rightarrow> (header list option \<times> header_cond \<times> nat) option" where
  "header_parse_text cond s =
     (let es = header_lex cond True 1 s; ts = event_tokens es
      in do {
        hl \<leftarrow> libsieve_header_parse_buffer ts;
        Some (hl, event_state (es ! (header_reads HStart ts - 1)))
      })"

section \<open>Printing and reading headers\<close>

abbreviation crlf :: string where "crlf \<equiv> [CHR 0x0D, CHR 0x0A]"

definition print_header :: "string \<times> string \<times> string list \<Rightarrow> string" where
  "print_header e = (case e of (n, t, ws) \<Rightarrow> n @ '': '' @ t @ concat (map (\<lambda>w. crlf @ w) ws) @ crlf)"

definition print_headers :: "(string \<times> string \<times> string list) list \<Rightarrow> string" where
  "print_headers es = concat (map print_header es)"

text \<open>What a name, a text and a continuation line are made of.\<close>

definition header_name :: "string \<Rightarrow> bool" where
  "header_name n \<longleftrightarrow> n \<noteq> [] \<and> \<not> h_white (hd n) \<and> \<not> h_crlf (hd n) \<and> CHR '':'' \<notin> set n"

definition header_line :: "string \<Rightarrow> bool" where
  "header_line t \<longleftrightarrow> t \<noteq> [] \<and> (\<forall>c \<in> set t. \<not> h_crlf c)"

definition printable :: "string \<times> string \<times> string list \<Rightarrow> bool" where
  "printable e = (case e of (n, t, ws) \<Rightarrow> header_name n \<and> header_line t \<and> \<not> h_white (hd t) \<and>
     (\<forall>w \<in> set ws. header_line w \<and> h_white (hd w)))"

text \<open>
  A message that is read as it is printed: at least one header; each with a 7-bit name and a
  non-empty body, whose continuation lines start with white space and do not have 256 characters
  exactly; and not more different names than the table has slots.
\<close>

definition printable_message :: "(string \<times> string \<times> string list) list \<Rightarrow> bool" where
  "printable_message es \<longleftrightarrow> es \<noteq> [] \<and>
     list_all (\<lambda>(n, t, ws). printable (n, t, ws) \<and> seven_bit n \<and> joinable t ws) es \<and>
     card ((\<lambda>e. map c_tolower (fst e)) ` set es) \<le> HEADERHASHSIZE"

lemma h_chars [simp]:
  "h_crlf (CHR 0x0D)" "h_crlf (CHR 0x0A)" "\<not> h_crlf (CHR '':'')" "\<not> h_crlf (CHR '' '')"
  "h_white (CHR '' '')" "\<not> h_white (CHR '':'')" "\<not> h_white (CHR 0x0D)" "\<not> h_white (CHR 0x0A)"
  by (simp_all add: h_crlf_def h_white_def)

lemma h_white_not_crlf: "h_white c \<Longrightarrow> \<not> h_crlf c"
  by (auto simp: h_crlf_def h_white_def)

lemma takeWhile_crlf: "header_line t \<Longrightarrow> takeWhile (\<lambda>d. \<not> h_crlf d) (t @ crlf @ s) = t"
  "header_line t \<Longrightarrow> dropWhile (\<lambda>d. \<not> h_crlf d) (t @ crlf @ s) = crlf @ s"
  by (auto simp: header_line_def)

lemma takeWhile_stop:
  "c \<notin> set n \<Longrightarrow> takeWhile (\<lambda>d. d \<noteq> c) (n @ c # r) = n"
  "c \<notin> set n \<Longrightarrow> dropWhile (\<lambda>d. d \<noteq> c) (n @ c # r) = c # r"
  by (induction n) auto

text \<open>The scanner behind a line, in front of a continuation line, and in front of a new header.\<close>

lemma lex_wrap:
  assumes "header_line w" and "h_white (hd w)"
  shows "event_tokens (header_lex H_INITIAL False line (crlf @ w @ crlf @ s))
    = WRAP w # event_tokens (header_lex H_INITIAL False (line + 1) (crlf @ s))"
proof -
  obtain c v where w: "w = c # v" using assms(1) by (cases w) (auto simp: header_line_def)
  have "header_lex H_WRAP False l (w @ crlf @ s) = HTok (WRAP w) H_INITIAL l # header_lex H_INITIAL False l (crlf @ s)" for l
    using takeWhile_crlf [OF assms(1), of s] h_white_not_crlf assms(2) by (simp add: w header_lex.simps(5) del: takeWhile.simps dropWhile.simps)
  then show ?thesis
    using assms(2) h_white_not_crlf by (simp add: w header_lex.simps(2) Let_def)
qed

lemma lex_wraps:
  assumes "\<forall>w \<in> set ws. header_line w \<and> h_white (hd w)"
  shows "event_tokens (header_lex H_INITIAL False line (concat (map (\<lambda>w. crlf @ w) ws) @ crlf @ s))
    = map WRAP ws @ event_tokens (header_lex H_INITIAL False (line + length ws) (crlf @ s))"
  using assms
proof (induction ws arbitrary: line)
  case (Cons w ws)
  obtain s' where s': "concat (map (\<lambda>w. crlf @ w) ws) @ crlf @ s = crlf @ s'" by (cases ws) auto
  show ?case using Cons lex_wrap [of w line s'] s' by simp
qed simp

lemma lex_header:
  assumes "printable (n, t, ws)"
  shows "event_tokens (header_lex H_INITIAL True line (print_header (n, t, ws) @ s))
    = header_tokens (n, t, ws)
      @ event_tokens (header_lex H_INITIAL False (line + newlines n + length ws) (crlf @ s))"
proof -
  have n: "header_name n" and t: "header_line t" "\<not> h_white (hd t)"
    and ws: "\<forall>w \<in> set ws. header_line w \<and> h_white (hd w)" using assms by (auto simp: printable_def)
  obtain c v where nc: "n = c # v" using n by (cases n) (auto simp: header_name_def)
  obtain d u where td: "t = d # u" using t by (cases t) (auto simp: header_line_def)
  let ?rest = "concat (map (\<lambda>w. crlf @ w) ws) @ crlf @ s"
  obtain s' where s': "?rest = crlf @ s'" by (cases ws) auto
  have "header_lex H_INITIAL True line (n @ r) = header_lex H_NAME False line (n @ r)" for r
    using n by (auto simp: nc header_lex.simps(2) header_name_def)
  moreover have "header_lex H_NAME False line (n @ CHR '':'' # r)
      = HTok (NAME n) H_INITIAL (line + newlines n) # header_lex H_INITIAL (ends_line n) (line + newlines n) (CHR '':'' # r)" for r
  proof -
    have "takeWhile (\<lambda>d. d \<noteq> CHR '':'') (n @ CHR '':'' # r) = n" "dropWhile (\<lambda>d. d \<noteq> CHR '':'') (n @ CHR '':'' # r) = CHR '':'' # r"
      using n by (simp_all add: header_name_def takeWhile_stop)
    then show ?thesis using n by (auto simp: nc header_lex.simps(3) header_name_def Let_def simp del: takeWhile.simps dropWhile.simps)
  qed
  moreover have "header_lex H_INITIAL b l ('': '' @ t @ ?rest) = HTok COLON H_TEXT l # header_lex H_TEXT False l (t @ ?rest)" for b l
    using t by (auto simp: td header_lex.simps(2) header_line_def)
  moreover have "header_lex H_TEXT False l (t @ ?rest) = HTok (TEXT t) H_INITIAL l # header_lex H_INITIAL False l ?rest" for l
    using takeWhile_crlf [OF t(1), of s'] t unfolding s'
    by (simp add: td header_lex.simps(4) header_line_def del: takeWhile.simps dropWhile.simps)
  ultimately show ?thesis
    using lex_wraps [OF ws, of "line + newlines n" s] by (simp add: print_header_def header_tokens_def)
qed

lemma lex_crlf:
  assumes "\<forall>e \<in> set es. printable e"
  shows "event_tokens (header_lex H_INITIAL False line (crlf @ print_headers es)) = concat (map header_tokens es)"
  using assms
proof (induction es arbitrary: line)
  case Nil
  then show ?case by (simp add: print_headers_def header_lex.simps(2) Let_def)
next
  case (Cons e es)
  obtain n t ws where e: "e = (n, t, ws)" by (cases e)
  obtain c v where nc: "n = c # v" "\<not> h_white c" "\<not> h_crlf c"
    using Cons.prems e by (cases n) (auto simp: header_name_def printable_def)
  have "header_lex H_INITIAL False line (crlf @ print_headers (e # es))
      = header_lex H_INITIAL True (line + 1) (print_header (n, t, ws) @ print_headers es)"
    using nc by (simp add: e header_lex.simps(2) Let_def print_headers_def print_header_def ends_line_def newlines_def)
  moreover have "printable (n, t, ws)" using Cons.prems e by simp
  ultimately show ?case using lex_header [of n t ws] Cons by (simp add: e)
qed

lemma lex_headers:
  assumes "\<forall>e \<in> set es. printable e"
  shows "event_tokens (header_lex H_INITIAL True line (print_headers es)) = concat (map header_tokens es)"
proof (cases es)
  case (Cons e es')
  obtain n t ws where e: "e = (n, t, ws)" by (cases e)
  have "printable (n, t, ws)" using assms Cons e by simp
  moreover have "\<forall>e \<in> set es'. printable e" using assms Cons by simp
  ultimately show ?thesis using lex_header [of n t ws line "print_headers es'"] lex_crlf [of es'] Cons e
    by (simp add: print_headers_def)
qed (simp add: print_headers_def)

lemma parse_print_headers:
  assumes "\<forall>(n, t, ws) \<in> set es. printable (n, t, ws) \<and> seven_bit n \<and> joinable t ws"
  obtains st where "header_parse_text H_INITIAL (print_headers es)
      = map_option (\<lambda>hl. (hl, st)) (libsieve_header_parse_buffer (concat (map header_tokens es)))"
proof -
  have "\<forall>e \<in> set es. printable e" using assms by fastforce
  then have "header_parse_text H_INITIAL (print_headers es)
      = map_option (\<lambda>hl. (hl, event_state (header_lex H_INITIAL True 1 (print_headers es) !
          (header_reads HStart (concat (map header_tokens es)) - 1))))
        (libsieve_header_parse_buffer (concat (map header_tokens es)))"
    by (simp add: header_parse_text_def lex_headers Let_def map_conv_bind_option o_def)
  then show ?thesis by (rule that)
qed

text \<open>
  C14. Reading a message header from its text. The message has at least one header, each with a 7-bit
  name without a colon, a body that is not empty and does not start with white space, and continuation
  lines that start with white space, none of them of exactly 256 characters, which
  \<^verbatim>\<open>libsieve_strconcat\<close> would write past its block; no line end or NUL is inside a line, and at
  most 1019 of the names differ up to case. Printed one per line with their continuation lines, and with memory
  granted, they are scanned from the initial state, parsed and hashed into a new table without an error.
  Then \<^verbatim>\<open>getheader\<close> returns, for every 7-bit name in any case, exactly the bodies of the headers of
  that name, each line with its continuation lines behind it, the last header of the message first; a
  name the message does not have gives \<^verbatim>\<open>SIEVE2_ERROR_FAIL\<close>.
\<close>
theorem message_text_lookup:
  assumes "libsieve_message2_alloc True True = (SIEVE2_OK, Some m)"
    and "printable_message es"
  shows "\<exists>hl st m'. header_parse_text H_INITIAL (print_headers es) = Some (Some hl, st) \<and>
    hash_fill (replicate (length hl) True) m hl = Some (SIEVE2_OK, m') \<and>
    (\<forall>q. seven_bit q \<longrightarrow>
       (let bs = rev (map (\<lambda>(n, t, ws). t @ concat ws) (filter (\<lambda>(n, t, ws). strcasecmp n q = 0) es))
        in header_bodies m' q = Some (if bs = [] then SIEVE2_ERROR_FAIL else SIEVE2_OK, bs)))"
proof -
  have es: "es \<noteq> []" "\<forall>(n, t, ws) \<in> set es. printable (n, t, ws) \<and> seven_bit n \<and> joinable t ws"
    and card: "card ((\<lambda>e. map c_tolower (fst e)) ` set es) \<le> HEADERHASHSIZE"
    using assms(2) by (auto simp: printable_message_def list_all_iff)
  then have "\<forall>(n, t, ws) \<in> set es. seven_bit n \<and> joinable t ws" by fastforce
  from parsed_table [OF alloc_table [OF assms(1)] es(1) this card] obtain hl m' where
    m': "libsieve_header_parse_buffer (concat (map header_tokens es)) = Some (Some hl)"
      "hash_fill (replicate (length hl) True) m hl = Some (SIEVE2_OK, m')" "table_inv m'"
      "\<And>q. seven_bit q \<Longrightarrow> table_lookup m' (map c_tolower q) = Some (message_bodies es q)" by blast
  moreover obtain st where "header_parse_text H_INITIAL (print_headers es) = Some (Some hl, st)"
    using parse_print_headers [OF es(2)] m'(1) by (metis option.simps(9))
  ultimately show ?thesis
    using header_bodies_lookup [OF m'(3)] by (auto simp: message_bodies_def Let_def)
qed

lemma message_text_lookup_witness:
  "\<exists>hl st m'. header_parse_text H_INITIAL (print_headers [(''To'', ''a'', []), (''X'', ''b'', ['' c'']), (''TO'', ''d'', [])])
      = Some (Some hl, st) \<and>
    hash_fill (replicate (length hl) True)
      \<lparr>m_hashsize = HEADERHASHSIZE, m_hashfull = False, m_header = None, m_hash = replicate HEADERHASHSIZE None\<rparr> hl
      = Some (SIEVE2_OK, m') \<and>
    header_bodies m' ''to'' = Some (SIEVE2_OK, [''d'', ''a''])"
proof -
  let ?m = "\<lparr>m_hashsize = HEADERHASHSIZE, m_hashfull = False, m_header = None, m_hash = replicate HEADERHASHSIZE None\<rparr>"
  let ?es = "[(''To'', ''a'', []), (''X'', ''b'', ['' c'']), (''TO'', ''d'', [])]"
  have alloc: "libsieve_message2_alloc True True = (SIEVE2_OK, Some ?m)" by (simp add: libsieve_message2_alloc_def)
  have "card ((\<lambda>e. map c_tolower (fst e)) ` set ?es) \<le> length ?es"
    using card_image_le [of "set ?es" "\<lambda>e. map c_tolower (fst e)"] card_length [of ?es] by (meson List.finite_set order_trans)
  then have ok: "printable_message ?es"
    by (simp add: printable_message_def joinable_def printable_def header_name_def header_line_def h_crlf_def h_white_def
        HEADERHASHSIZE_def)
  have cmp: "strcasecmp ''To'' ''to'' = 0" "strcasecmp ''X'' ''to'' \<noteq> 0" "strcasecmp ''TO'' ''to'' = 0" by code_simp+
  show ?thesis
    using message_text_lookup [OF alloc ok] cmp by (fastforce simp: Let_def simp del: strcasecmp.simps)
qed

end
