(* ===== verification/Sieve_Lexer.thy ===== *)
theory Sieve_Lexer
  imports Address_Parser Header_Lexer
begin

text \<open>
  The scanner of Sieve scripts, \<^verbatim>\<open>src/sv_parser/sieve-lex.l\<close>: its start conditions, the buffer
  that collects a \<^verbatim>\<open>text:\<close> block, the line counter, and the rules, which compete by length. The
  start condition and the buffer stay with the context from one script to the next. The scanner gives
  a list of events, each with the state it leaves, so that the parser can stop reading anywhere.
\<close>

datatype sieve_cond = S_INITIAL | S_MULTILINE | S_QSTRING | S_COMMENT

type_synonym sieve_scan = "sieve_cond \<times> catbuf option"

text \<open>
  A token with a value, a token of the grammar by its name in \<^verbatim>\<open>sieve.y\<close>, and a character that
  stands for itself. The end of the input may come with the message of an unfinished block. The last
  event is a use of the buffer outside its block, or of a text block without a line, whose string is
  never written, or a number whose product with its unit overflows.
\<close>

datatype stoken = SNum int | SStr string | Tk string | SCh char

datatype sevent = STok stoken sieve_scan nat | SEnd sieve_scan nat bool | SUndef

section \<open>The rules of the initial condition\<close>

definition sieve_keywords :: "(string \<times> string) list" where
  "sieve_keywords =
     [(''if'', ''IF''), (''elsif'', ''ELSIF''), (''else'', ''ELSE''), (''anyof'', ''ANYOF''), (''allof'', ''ALLOF''),
      (''exists'', ''EXISTS''), (''false'', ''SFALSE''), (''true'', ''STRUE''), (''address'', ''ADDRESS''),
      (''envelope'', ''ENVELOPE''), (''header'', ''HEADER''), (''not'', ''NOT''), (''size'', ''SIZE''),
      (''reject'', ''REJCT''), (''fileinto'', ''FILEINTO''), (''redirect'', ''REDIRECT''), (''keep'', ''KEEP''),
      (''require'', ''REQUIRE''), (''stop'', ''STOP''), (''discard'', ''DISCARD''), (''setflag'', ''SETFLAG''),
      (''addflag'', ''ADDFLAG''), (''removeflag'', ''REMOVEFLAG''), (''hasflag'', ''HASFLAG''), (''mark'', ''MARK''),
      (''unmark'', ''UNMARK''), ('':flags'', ''FLAGS''), (''notify'', ''NOTIFY''),
      (''valid_notif_method'', ''VALIDNOTIF''), ('':id'', ''ID''), ('':method'', ''METHOD''),
      ('':options'', ''OPTIONS''), ('':low'', ''LOW''), ('':normal'', ''NORMAL''), ('':high'', ''HIGH''),
      ('':message'', ''MESSAGE''), (''vacation'', ''VACATION''), ('':days'', ''DAYS''), ('':addresses'', ''ADDRESSES''),
      ('':subject'', ''SUBJECT''), ('':mime'', ''MIME''), ('':from'', ''FROM''), ('':handle'', ''HANDLE''),
      ('':comparator'', ''COMPARATOR''), ('':is'', ''IS''), ('':count'', ''COUNT''), ('':value'', ''VALUE''),
      ('':contains'', ''CONTAINS''), ('':matches'', ''MATCHES''), ('':regex'', ''REGEX''), ('':over'', ''OVER''),
      ('':under'', ''UNDER''), ('':all'', ''ALL''), ('':localpart'', ''LOCALPART''), ('':domain'', ''DOMAIN''),
      ('':user'', ''USER''), ('':detail'', ''DETAIL'')]"

text \<open>The longest keyword the input starts with; the words are different, so there is no tie.\<close>

fun longest_keyword :: "(string \<times> string) list \<Rightarrow> string \<Rightarrow> (string \<times> string) option" where
  "longest_keyword [] s = None"
| "longest_keyword ((w, t) # ks) s =
     (let r = longest_keyword ks s
      in if take (length w) s = w \<and> (case r of None \<Rightarrow> True | Some (v, _) \<Rightarrow> length v < length w)
         then Some (w, t) else r)"

text \<open>The length of a line end, \<^verbatim>\<open>(\r\n|\r|\n)\<close>, and of \<^verbatim>\<open>text:{ws}?(#.*)?{CRLF}\<close>; 0 where there is none.\<close>

fun crlf_length :: "string \<Rightarrow> nat" where
  "crlf_length (c # d # s) =
     (if c = CHR 0x0D then (if d = CHR 0x0A then 2 else 1) else if c = CHR 0x0A then 1 else 0)"
| "crlf_length [c] = (if h_crlf c then 1 else 0)"
| "crlf_length [] = 0"

definition comment_line_length :: "string \<Rightarrow> nat" where
  "comment_line_length s =
     (let line = takeWhile (\<lambda>c. c \<noteq> CHR 0x0A) s
      in if length line < length s then length line + 1
         else if CHR 0x0D \<in> set line then length line - length (takeWhile (\<lambda>c. c \<noteq> CHR 0x0D) (rev line))
         else 0)"

definition text_block_length :: "string \<Rightarrow> nat" where
  "text_block_length s =
     (if take 5 s = ''text:'' then
        (let ws = takeWhile h_white (drop 5 s); rest = dropWhile h_white (drop 5 s);
             n = (if rest \<noteq> [] \<and> hd rest = CHR ''#'' then comment_line_length rest else crlf_length rest)
         in if n = 0 then 0 else 5 + length ws + n)
      else 0)"

section \<open>The scanner\<close>

text \<open>Appending to the buffer of \<^verbatim>\<open>yyextra\<close>; allocations succeed.\<close>

definition extra_add :: "string \<Rightarrow> catbuf option \<Rightarrow> catbuf option" where
  "extra_add w extra = do { b \<leftarrow> extra; libsieve_catbuf True w b }"

definition extra_string :: "catbuf option \<Rightarrow> string option" where
  "extra_string extra = do { b \<leftarrow> extra; block_cstr (libsieve_catbuf_free b) }"

lemma crlf_length_le: "crlf_length s \<le> length s"
  by (induction s rule: crlf_length.induct) auto

lemma comment_line_length_le: "comment_line_length s \<le> length s"
  using length_takeWhile_le [of "\<lambda>c. c \<noteq> CHR 0x0A" s] by (simp add: comment_line_length_def Let_def)

lemma text_block_length_le: "text_block_length s \<le> length s"
proof (cases "take 5 s = ''text:''")
  case True
  then have "length (take 5 s) = 5" by (simp only:) simp
  then have five: "5 \<le> length s" by simp
  let ?ws = "takeWhile h_white (drop 5 s)" and ?rest = "dropWhile h_white (drop 5 s)"
  have "length ?ws + length ?rest = length (drop 5 s)"
    by (metis length_append takeWhile_dropWhile_id)
  then have sum: "5 + length ?ws + length ?rest = length s" using five by simp
  define n where "n = (if ?rest \<noteq> [] \<and> hd ?rest = CHR ''#'' then comment_line_length ?rest else crlf_length ?rest)"
  have "n \<le> length ?rest" by (simp add: n_def crlf_length_le comment_line_length_le)
  moreover have "text_block_length s = (if n = 0 then 0 else 5 + length ?ws + n)"
    using True by (simp add: text_block_length_def n_def Let_def)
  ultimately show ?thesis using sum by simp
next
  case False
  then show ?thesis by (simp add: text_block_length_def)
qed

function sieve_lex :: "sieve_cond \<Rightarrow> catbuf option \<Rightarrow> bool \<Rightarrow> nat \<Rightarrow> string \<Rightarrow> sevent list" where
  "sieve_lex cond extra bol line [] = [SEnd (cond, extra) line (cond = S_MULTILINE)]"
| "sieve_lex S_INITIAL extra bol line (c # s) =
     (let k = text_block_length (c # s)
      in if k > 0 then
           (let w = take k (c # s)
            in sieve_lex S_MULTILINE (Some libsieve_catbuf_alloc) (ends_line w) (line + newlines w) (drop k (c # s)))
         else if c = CHR 0x22 then
           (if s \<noteq> [] \<and> hd s = CHR 0x22
            then STok (SStr []) (S_INITIAL, extra) line # sieve_lex S_INITIAL extra False line (tl s)
            else sieve_lex S_QSTRING extra False line s)
         else if c_isdigit c then
           (let d = c # takeWhile c_isdigit s; rest = dropWhile c_isdigit s;
                unit = (if rest \<noteq> [] \<and> hd rest \<in> set ''KMG'' then [hd rest] else [])
            in case libsieve_strtonum (d @ unit) of
                 None \<Rightarrow> [SUndef]
               | Some v \<Rightarrow> STok (SNum v) (S_INITIAL, extra) line
                             # sieve_lex S_INITIAL extra False line (drop (length unit) rest))
         else
           (case longest_keyword sieve_keywords (c # s) of
              Some (w, t) \<Rightarrow>
                STok (Tk t) (S_INITIAL, extra) line # sieve_lex S_INITIAL extra False line (drop (length w - 1) s)
            | None \<Rightarrow>
                (if h_white c \<or> h_crlf c then sieve_lex S_INITIAL extra (c = CHR 0x0A) (line + newlines [c]) s
                 else if c = CHR ''#'' then sieve_lex S_INITIAL extra False line (dropWhile (\<lambda>d. d \<noteq> CHR 0x0A) s)
                 else if c = CHR ''/'' \<and> s \<noteq> [] \<and> hd s = CHR ''*'' then sieve_lex S_COMMENT extra False line (tl s)
                 else STok (SCh c) (S_INITIAL, extra) line # sieve_lex S_INITIAL extra False line s)))"
| "sieve_lex S_MULTILINE extra bol line (c # s) =
     (if c = CHR ''.'' then
        (let k = crlf_length s
         in if bol \<and> k > 0 then
              (case extra_string extra of
                 None \<Rightarrow> [SUndef]
               | Some str \<Rightarrow>
                   (let line' = line + newlines (take k s)
                    in STok (SStr str) (S_INITIAL, None) line'
                       # sieve_lex S_INITIAL None (ends_line (take k s)) line' (drop k s)))
            else
              (case extra_add ''.'' extra of
                 None \<Rightarrow> [SUndef]
               | Some b \<Rightarrow> sieve_lex S_MULTILINE (Some b) False line
                             (if bol \<and> s \<noteq> [] \<and> hd s = CHR ''.'' then tl s else s)))
      else
        (let w = takeWhile (\<lambda>d. d \<noteq> CHR ''.'') (c # s)
         in case extra_add w extra of
              None \<Rightarrow> [SUndef]
            | Some b \<Rightarrow> sieve_lex S_MULTILINE (Some b) (ends_line w) (line + newlines w)
                          (dropWhile (\<lambda>d. d \<noteq> CHR ''.'') (c # s))))"
| "sieve_lex S_QSTRING extra bol line (c # s) =
     (if c = CHR 0x22 then sieve_lex S_INITIAL extra False line s
      else (let w = qtext False (c # s)
            in STok (SStr w) (S_QSTRING, extra) (line + newlines w)
               # sieve_lex S_QSTRING extra (ends_line w) (line + newlines w) (drop (length w) (c # s))))"
| "sieve_lex S_COMMENT extra bol line (c # s) =
     (if c = CHR ''*'' \<and> s \<noteq> [] \<and> hd s = CHR ''/'' then sieve_lex S_INITIAL extra False line (tl s)
      else sieve_lex S_COMMENT extra (c = CHR 0x0A) (line + newlines [c]) s)"
  by pat_completeness auto
termination
  by (relation "measure (\<lambda>(_, _, _, _, s). length s)")
    (auto simp: less_Suc_eq_le intro!: le_SucI length_dropWhile_le order_trans [OF length_dropWhile_le]
      order_trans [OF diff_le_self])

declare sieve_lex.simps(2-) [simp del]

end
