(* ===== verification/Context.thy ===== *)
theory Context
  imports Ast Sieve_Lexer
begin

text \<open>
  The context of \<^verbatim>\<open>src/sv_interface/context2.h\<close> and the callback protocol of
  \<^verbatim>\<open>context2.c\<close>: the table of callbacks, the current call with its ten value slots,
  \<^verbatim>\<open>begin\<close> / \<^verbatim>\<open>do\<close> / \<^verbatim>\<open>end\<close>, and the public functions that read and write
  the slots.

  What the library calls is an argument of the model, the record \<open>client\<close>. A callback is a number, and \<open>cl_call\<close> gives
  for that number, the user data, the current call and the state of the client the requests it makes
  of \<^verbatim>\<open>sieve2_setvalue_*\<close>, in order, and its next state. The state of the client is part of the
  model's context (\<open>world\<close>). \<open>cl_written\<close> tells it that the library has replaced the first element
  of an array it had handed out. The record also holds the regular expression engine (the result of
  \<^verbatim>\<open>regexec\<close>, and the message of \<^verbatim>\<open>regcomp\<close> for an expression it refuses) and the text bison
  makes for a syntax error. Memory the library asks for is granted.
\<close>

section \<open>Names of calls\<close>

datatype sieve2_values =
    SIEVE2_VALUE_FIRST
  | SIEVE2_ACTION_REDIRECT | SIEVE2_ACTION_REJECT | SIEVE2_ACTION_DISCARD | SIEVE2_ACTION_FILEINTO
  | SIEVE2_ACTION_KEEP | SIEVE2_ACTION_NOTIFY | SIEVE2_ACTION_DENOTIFY | SIEVE2_ACTION_VACATION
  | SIEVE2_ACTION_SETFLAG | SIEVE2_ACTION_ADDFLAG | SIEVE2_ACTION_REMOVEFLAG | SIEVE2_ACTION_MARK
  | SIEVE2_ACTION_UNMARK
  | SIEVE2_ERRCALL_RUNTIME | SIEVE2_ERRCALL_PARSE | SIEVE2_DEBUG_TRACE
  | SIEVE2_SCRIPT_GETSCRIPT | SIEVE2_SCRIPT_GETSIZE
  | SIEVE2_MESSAGE_GETHEADER | SIEVE2_MESSAGE_GETALLHEADERS | SIEVE2_MESSAGE_GETENVELOPE
  | SIEVE2_MESSAGE_GETSIZE | SIEVE2_MESSAGE_GETBODY | SIEVE2_MESSAGE_GETSUBADDRESS
  | SIEVE2_ERRCALL_HEADER | SIEVE2_ERRCALL_ADDRESS
  | SIEVE2_VALUE_LAST

section \<open>Values\<close>

text \<open>
  A \<^verbatim>\<open>char **\<close>: the contents of the header in a slot of the message's hash table, the static array
  \<^verbatim>\<open>notfound\<close> of \<^verbatim>\<open>callbacks2.c\<close>, or an array of other memory, with its elements up to and
  including the terminating \<open>None\<close>.
\<close>

datatype charpp = Contents nat | Notfound | Memory "string option list"

datatype val = ValInt int | ValString "string option" | ValStringlist "charpp option"

text \<open>The name of a slot: \<^verbatim>\<open>NULL\<close>, a string, or a pointer to a string that was freed.\<close>

datatype slot_name = NoName | Name string | Freed

type_synonym call_slot = "slot_name \<times> val"

record cur_call =
  call_begin :: bool
  call_end :: bool
  call_code :: sieve2_values
  call_values :: "call_slot list"

definition MAX_VALUES :: nat where "MAX_VALUES = 10"

section \<open>The context\<close>

text \<open>A registered function: one of the client's, or the library's \<^verbatim>\<open>libsieve_message2_getheader\<close>.\<close>

datatype callback_func = User nat | Message2_getheader

record callbacks2 =
  cb_redirect :: "callback_func option"
  cb_reject :: "callback_func option"
  cb_discard :: "callback_func option"
  cb_fileinto :: "callback_func option"
  cb_keep :: "callback_func option"
  cb_notify :: "callback_func option"
  cb_denotify :: "callback_func option"
  cb_vacation :: "callback_func option"
  cb_setflag :: "callback_func option"
  cb_addflag :: "callback_func option"
  cb_removeflag :: "callback_func option"
  cb_err_header :: "callback_func option"
  cb_err_address :: "callback_func option"
  cb_err_runtime :: "callback_func option"
  cb_err_parse :: "callback_func option"
  cb_debug_trace :: "callback_func option"
  cb_getscript :: "callback_func option"
  cb_getheader :: "callback_func option"
  cb_getallheaders :: "callback_func option"
  cb_getenvelope :: "callback_func option"
  cb_getsize :: "callback_func option"
  cb_getbody :: "callback_func option"
  cb_getsubaddress :: "callback_func option"

record support2 =
  s_reject :: bool
  s_notify :: bool
  s_fileinto :: bool
  s_vacation :: bool
  s_envelope :: bool
  s_imap4flags :: bool
  s_regex :: bool
  s_subaddress :: bool
  s_relational :: bool

record actions2 =
  a_redirect :: bool
  a_reject :: bool
  a_discard :: bool
  a_fileinto :: bool
  a_keep :: bool
  a_notify :: bool
  a_denotify :: bool
  a_vacation :: bool
  a_setflag :: bool
  a_addflag :: bool
  a_removeflag :: bool

record script2 =
  error_count :: int
  error_lineno :: int
  script_text :: "string option"
  script_length :: int
  script_cmds :: "command list"

text \<open>The list of flags the context keeps, whose links may lead to a node that was freed.\<close>

datatype flaglist = FEnd | FNode string flaglist | FFreed

record 'w sieve2_context =
  message :: message
  slflags :: flaglist
  addr_scan :: addr_scan
  header_scan :: header_cond
  sieve_scan :: sieve_scan
  sieve_ret :: "command list"
  parse_errors :: int
  exec_errors :: int
  call :: cur_call
  callbacks :: callbacks2
  support :: support2
  require :: support2
  actions :: actions2
  script :: script2
  user_data :: nat
  notfound :: "string option list"
  world :: 'w

text \<open>
  The context as \<^verbatim>\<open>sieve2_alloc\<close> leaves it, with a message \<open>m\<close> and a client in state \<open>w\<close>:
  \<^verbatim>\<open>memset\<close> makes every flag false and every pointer \<^verbatim>\<open>NULL\<close>.
\<close>

definition no_callbacks :: callbacks2 where
  "no_callbacks =
     \<lparr>cb_redirect = None, cb_reject = None, cb_discard = None, cb_fileinto = None, cb_keep = None,
      cb_notify = None, cb_denotify = None, cb_vacation = None, cb_setflag = None, cb_addflag = None,
      cb_removeflag = None, cb_err_header = None, cb_err_address = None, cb_err_runtime = None,
      cb_err_parse = None, cb_debug_trace = None, cb_getscript = None, cb_getheader = None,
      cb_getallheaders = None, cb_getenvelope = None, cb_getsize = None, cb_getbody = None,
      cb_getsubaddress = None\<rparr>"

definition no_support :: support2 where
  "no_support =
     \<lparr>s_reject = False, s_notify = False, s_fileinto = False, s_vacation = False, s_envelope = False,
      s_imap4flags = False, s_regex = False, s_subaddress = False, s_relational = False\<rparr>"

definition no_actions :: actions2 where
  "no_actions =
     \<lparr>a_redirect = False, a_reject = False, a_discard = False, a_fileinto = False, a_keep = False,
      a_notify = False, a_denotify = False, a_vacation = False, a_setflag = False, a_addflag = False,
      a_removeflag = False\<rparr>"

definition zero_context :: "message \<Rightarrow> 'w \<Rightarrow> 'w sieve2_context" where
  "zero_context m w =
     \<lparr>message = m, slflags = FEnd, addr_scan = (INITIAL, 0), header_scan = H_INITIAL,
      sieve_scan = (S_INITIAL, None), sieve_ret = [], parse_errors = 0, exec_errors = 0,
      call = \<lparr>call_begin = False, call_end = False, call_code = SIEVE2_VALUE_FIRST,
              call_values = replicate MAX_VALUES (NoName, ValInt 0)\<rparr>,
      callbacks = no_callbacks, support = no_support, require = no_support, actions = no_actions,
      script = \<lparr>error_count = 0, error_lineno = 0, script_text = None, script_length = 0, script_cmds = []\<rparr>,
      user_data = 0, notfound = [Some [], None], world = w\<rparr>"

text \<open>A message without a table, for concrete runs.\<close>

abbreviation no_message :: message where
  "no_message \<equiv> \<lparr>m_hashsize = 0, m_hashfull = False, m_header = None, m_hash = []\<rparr>"

datatype request =
    SetInt "string option" int
  | SetString "string option" "string option"
  | SetStringlist "string option" "string option list option"

record 'w client =
  cl_call :: "nat \<Rightarrow> nat \<Rightarrow> cur_call \<Rightarrow> 'w \<Rightarrow> request list \<times> 'w"
  cl_written :: "string option list \<Rightarrow> string option \<Rightarrow> 'w \<Rightarrow> 'w"
  cl_regexec :: "regex_t \<Rightarrow> string \<Rightarrow> int"
  cl_regcomp :: "string \<Rightarrow> int \<Rightarrow> string option"
  cl_syntax_error :: string

section \<open>Value slots\<close>

definition with_values :: "call_slot list \<Rightarrow> 'w sieve2_context \<Rightarrow> 'w sieve2_context" where
  "with_values vs c = c\<lparr>call := (call c)\<lparr>call_values := vs\<rparr>\<rparr>"

text \<open>The loops of the setters: the first slot without a name takes the value.\<close>

fun set_slot :: "call_slot list \<Rightarrow> string \<Rightarrow> val \<Rightarrow> call_slot list option" where
  "set_slot [] name v = None"
| "set_slot ((n, w) # slots) name v =
     (if n = NoName then Some ((Name name, v) # slots)
      else map_option (Cons (n, w)) (set_slot slots name v))"

definition setvalue :: "string \<Rightarrow> val \<Rightarrow> 'w sieve2_context \<Rightarrow> int \<times> 'w sieve2_context" where
  "setvalue name v c =
     (case set_slot (call_values (call c)) name v of
        Some vs \<Rightarrow> (SIEVE2_OK, with_values vs c)
      | None \<Rightarrow> (SIEVE2_ERROR_FAIL, c))"

definition sieve2_setvalue_string ::
  "string option \<Rightarrow> string option \<Rightarrow> 'w sieve2_context \<Rightarrow> int \<times> 'w sieve2_context" where
  "sieve2_setvalue_string name value c =
     (case name of None \<Rightarrow> (SIEVE2_ERROR_FAIL, c)
      | Some n \<Rightarrow> (case value of None \<Rightarrow> (SIEVE2_ERROR_FAIL, c)
                  | Some v \<Rightarrow> setvalue n (ValString (Some v)) c))"

definition sieve2_setvalue_stringlist ::
  "string option \<Rightarrow> charpp option \<Rightarrow> 'w sieve2_context \<Rightarrow> int \<times> 'w sieve2_context" where
  "sieve2_setvalue_stringlist name value c =
     (case name of None \<Rightarrow> (SIEVE2_ERROR_FAIL, c)
      | Some n \<Rightarrow> (case value of None \<Rightarrow> (SIEVE2_ERROR_FAIL, c)
                  | Some v \<Rightarrow> setvalue n (ValStringlist (Some v)) c))"

definition sieve2_setvalue_int ::
  "string option \<Rightarrow> int \<Rightarrow> 'w sieve2_context \<Rightarrow> int \<times> 'w sieve2_context" where
  "sieve2_setvalue_int name value c =
     (case name of None \<Rightarrow> (SIEVE2_ERROR_FAIL, c) | Some n \<Rightarrow> setvalue n (ValInt value) c)"

text \<open>
  The loops of the getters look at the type of a slot first, then compare its name: with a freed
  name that is an undefined access. Without a hit they return \<^verbatim>\<open>NULL\<close> or \<open>-1\<close>.
\<close>

fun get_slot :: "(val \<Rightarrow> 'a option) \<Rightarrow> call_slot list \<Rightarrow> string \<Rightarrow> 'a option option" where
  "get_slot typed [] name = Some None"
| "get_slot typed ((n, v) # slots) name =
     (case typed v of
        None \<Rightarrow> get_slot typed slots name
      | Some x \<Rightarrow>
          (case n of
             NoName \<Rightarrow> get_slot typed slots name
           | Freed \<Rightarrow> None
           | Name m \<Rightarrow> if strcasecmp m name = 0 then Some (Some x) else get_slot typed slots name))"

fun as_string :: "val \<Rightarrow> string option option" where
  "as_string (ValString s) = Some s" | "as_string _ = None"

fun as_stringlist :: "val \<Rightarrow> charpp option option" where
  "as_stringlist (ValStringlist s) = Some s" | "as_stringlist _ = None"

fun as_int :: "val \<Rightarrow> int option" where
  "as_int (ValInt i) = Some i" | "as_int _ = None"

definition sieve2_getvalue_string :: "'w sieve2_context \<Rightarrow> string option \<Rightarrow> string option option" where
  "sieve2_getvalue_string c name =
     (case name of None \<Rightarrow> Some None
      | Some n \<Rightarrow> map_option (\<lambda>r. case r of None \<Rightarrow> None | Some s \<Rightarrow> s)
                   (get_slot as_string (call_values (call c)) n))"

definition sieve2_getvalue_stringlist :: "'w sieve2_context \<Rightarrow> string option \<Rightarrow> charpp option option" where
  "sieve2_getvalue_stringlist c name =
     (case name of None \<Rightarrow> Some None
      | Some n \<Rightarrow> map_option (\<lambda>r. case r of None \<Rightarrow> None | Some s \<Rightarrow> s)
                   (get_slot as_stringlist (call_values (call c)) n))"

definition sieve2_getvalue_int :: "'w sieve2_context \<Rightarrow> string option \<Rightarrow> int option" where
  "sieve2_getvalue_int c name =
     (case name of None \<Rightarrow> Some (- 1)
      | Some n \<Rightarrow> map_option (\<lambda>r. case r of None \<Rightarrow> - 1 | Some i \<Rightarrow> i)
                   (get_slot as_int (call_values (call c)) n))"

section \<open>The protocol\<close>

text \<open>\<^verbatim>\<open>begin\<close> clears the name and the value of a slot and leaves its type.\<close>

fun clear_slot :: "call_slot \<Rightarrow> call_slot" where
  "clear_slot (_, ValInt _) = (NoName, ValInt 0)"
| "clear_slot (_, ValString _) = (NoName, ValString None)"
| "clear_slot (_, ValStringlist _) = (NoName, ValStringlist None)"

definition libsieve_callback_begin ::
  "'w sieve2_context \<Rightarrow> sieve2_values \<Rightarrow> int \<times> 'w sieve2_context" where
  "libsieve_callback_begin c callback =
     (if call_begin (call c) \<noteq> call_end (call c) then (SIEVE2_ERROR_FAIL, c)
      else (SIEVE2_OK,
        c\<lparr>call := \<lparr>call_begin = True, call_end = False, call_code = callback,
             call_values = map clear_slot (call_values (call c))\<rparr>\<rparr>))"

fun free_slot :: "call_slot \<Rightarrow> call_slot" where
  "free_slot (NoName, v) = (NoName, v)"
| "free_slot (_, v) = (Freed, v)"

text \<open>
  \<^verbatim>\<open>end\<close> frees the names and leaves the pointers. A name that was freed before would be freed
  twice, which the check of \<^verbatim>\<open>begin\<close> and \<^verbatim>\<open>end\<close> excludes once a call has begun.
\<close>

definition libsieve_callback_end ::
  "'w sieve2_context \<Rightarrow> sieve2_values \<Rightarrow> (int \<times> 'w sieve2_context) option" where
  "libsieve_callback_end c callback =
     (if \<not> (call_begin (call c) \<and> \<not> call_end (call c)) \<or> call_code (call c) \<noteq> callback
      then Some (SIEVE2_ERROR_FAIL, c)
      else if Freed \<in> fst ` set (call_values (call c)) then None
      else Some (SIEVE2_OK,
        c\<lparr>call := (call c)\<lparr>call_end := True, call_code := SIEVE2_VALUE_FIRST,
             call_values := map free_slot (call_values (call c))\<rparr>\<rparr>))"

text \<open>The internal \<^verbatim>\<open>getheader\<close> callback of \<^verbatim>\<open>message2.c\<close>.\<close>

definition libsieve_message2_getheader :: "'w sieve2_context \<Rightarrow> (int \<times> 'w sieve2_context) option" where
  "libsieve_message2_getheader c =
     do {
       header \<leftarrow> sieve2_getvalue_string c (Some ''header'');
       header \<leftarrow> header;
       (res, body) \<leftarrow> getheader (message c) header;
       Some (res, snd (sieve2_setvalue_stringlist (Some ''body'') (map_option Contents body) c))
     }"

fun apply_request :: "request \<Rightarrow> 'w sieve2_context \<Rightarrow> 'w sieve2_context" where
  "apply_request (SetInt n i) c = snd (sieve2_setvalue_int n i c)"
| "apply_request (SetString n s) c = snd (sieve2_setvalue_string n s c)"
| "apply_request (SetStringlist n l) c = snd (sieve2_setvalue_stringlist n (map_option Memory l) c)"

definition run_callback :: "'w client \<Rightarrow> callback_func \<Rightarrow> 'w sieve2_context \<Rightarrow> 'w sieve2_context option" where
  "run_callback cl f c =
     (case f of
        User i \<Rightarrow>
          (case cl_call cl i (user_data c) (call c) (world c) of
             (reqs, w) \<Rightarrow> Some (fold apply_request reqs (c\<lparr>world := w\<rparr>)))
      | Message2_getheader \<Rightarrow> map_option snd (libsieve_message2_getheader c))"

text \<open>The table of the macro \<^verbatim>\<open>CBCALL\<close>: the field of a call, if the switch has a case for it.\<close>

definition callback_of :: "sieve2_values \<Rightarrow> callbacks2 \<Rightarrow> callback_func option" where
  "callback_of callback cb =
     (case callback of
        SIEVE2_ACTION_REDIRECT \<Rightarrow> cb_redirect cb
      | SIEVE2_ACTION_REJECT \<Rightarrow> cb_reject cb
      | SIEVE2_ACTION_DISCARD \<Rightarrow> cb_discard cb
      | SIEVE2_ACTION_FILEINTO \<Rightarrow> cb_fileinto cb
      | SIEVE2_ACTION_KEEP \<Rightarrow> cb_keep cb
      | SIEVE2_ACTION_NOTIFY \<Rightarrow> cb_notify cb
      | SIEVE2_ACTION_DENOTIFY \<Rightarrow> cb_denotify cb
      | SIEVE2_ACTION_VACATION \<Rightarrow> cb_vacation cb
      | SIEVE2_ERRCALL_RUNTIME \<Rightarrow> cb_err_runtime cb
      | SIEVE2_ERRCALL_PARSE \<Rightarrow> cb_err_parse cb
      | SIEVE2_ERRCALL_HEADER \<Rightarrow> cb_err_header cb
      | SIEVE2_ERRCALL_ADDRESS \<Rightarrow> cb_err_address cb
      | SIEVE2_DEBUG_TRACE \<Rightarrow> cb_debug_trace cb
      | SIEVE2_SCRIPT_GETSCRIPT \<Rightarrow> cb_getscript cb
      | SIEVE2_MESSAGE_GETHEADER \<Rightarrow> cb_getheader cb
      | SIEVE2_MESSAGE_GETALLHEADERS \<Rightarrow> cb_getallheaders cb
      | SIEVE2_MESSAGE_GETSUBADDRESS \<Rightarrow> cb_getsubaddress cb
      | SIEVE2_MESSAGE_GETENVELOPE \<Rightarrow> cb_getenvelope cb
      | SIEVE2_MESSAGE_GETSIZE \<Rightarrow> cb_getsize cb
      | SIEVE2_MESSAGE_GETBODY \<Rightarrow> cb_getbody cb
      | _ \<Rightarrow> None)"

definition libsieve_callback_do ::
  "'w client \<Rightarrow> 'w sieve2_context \<Rightarrow> sieve2_values \<Rightarrow> (int \<times> 'w sieve2_context) option" where
  "libsieve_callback_do cl c callback =
     (case callback_of callback (callbacks c) of
        None \<Rightarrow> Some (SIEVE2_ERROR_UNSUPPORTED, c)
      | Some f \<Rightarrow> do { c \<leftarrow> run_callback cl f c; Some (SIEVE2_OK, c) })"

end
