(* ===== verification/Callbacks.thy ===== *)
theory Callbacks
  imports Context
begin

text \<open>
  The calls the library makes of the client, \<^verbatim>\<open>src/sv_interface/callbacks2.c\<close>: each begins a
  call, fills its value slots, runs the registered function, reads the answers and ends the call.
  They return the library's result code and the new context; \<open>None\<close> is an undefined access. The
  trace calls of the library (\<^verbatim>\<open>TRACE_DEBUG\<close>) are those of a client that registers no
  \<^verbatim>\<open>debug_trace\<close>, for which \<^verbatim>\<open>libsieve_do_debug_trace\<close> does nothing.
\<close>

abbreviation set_string :: "string \<Rightarrow> string option \<Rightarrow> 'w sieve2_context \<Rightarrow> 'w sieve2_context" where
  "set_string name v c \<equiv> snd (sieve2_setvalue_string (Some name) v c)"

abbreviation set_stringlist :: "string \<Rightarrow> charpp option \<Rightarrow> 'w sieve2_context \<Rightarrow> 'w sieve2_context" where
  "set_stringlist name v c \<equiv> snd (sieve2_setvalue_stringlist (Some name) v c)"

abbreviation set_int :: "string \<Rightarrow> int \<Rightarrow> 'w sieve2_context \<Rightarrow> 'w sieve2_context" where
  "set_int name v c \<equiv> snd (sieve2_setvalue_int (Some name) v c)"

abbreviation begin_call :: "sieve2_values \<Rightarrow> 'w sieve2_context \<Rightarrow> 'w sieve2_context" where
  "begin_call callback c \<equiv> snd (libsieve_callback_begin c callback)"

text \<open>The two calls that close every action: run the function, end the call.\<close>

definition do_and_end :: "'w client \<Rightarrow> sieve2_values \<Rightarrow> 'w sieve2_context \<Rightarrow> 'w sieve2_context option" where
  "do_and_end cl callback c =
     do {
       (_, c) \<leftarrow> libsieve_callback_do cl c callback;
       (_, c) \<leftarrow> libsieve_callback_end c callback;
       Some c
     }"

section \<open>Arrays\<close>

fun read_cell :: "body_cell \<Rightarrow> string option option" where
  "read_cell BodyIndet = None"
| "read_cell BodyNull = Some None"
| "read_cell (Body b) = Some (Some b)"

text \<open>The cells of an array; \<open>None\<close> where it is not there.\<close>

definition array_cells :: "'w sieve2_context \<Rightarrow> charpp \<Rightarrow> string option option list option" where
  "array_cells c a =
     (case a of
        Contents i \<Rightarrow>
          (if i < length (m_hash (message c))
           then map_option (\<lambda>h. map read_cell (h_contents h)) (m_hash (message c) ! i) else None)
      | Notfound \<Rightarrow> Some (map Some (notfound c))
      | Memory l \<Rightarrow> Some (map Some l))"

definition array_read :: "'w sieve2_context \<Rightarrow> charpp \<Rightarrow> nat \<Rightarrow> string option option" where
  "array_read c a i = do { cs \<leftarrow> array_cells c a; (if i < length cs then cs ! i else None) }"

text \<open>A stringlist handed to the client: \<^verbatim>\<open>NULL\<close> for the empty list.\<close>

definition stringlist_array :: "string list \<Rightarrow> charpp option option" where
  "stringlist_array sl =
     do {
       r \<leftarrow> libsieve_stringlist_to_chararray (replicate (1 + length sl div 4) True) sl;
       (case r of
          None \<Rightarrow> Some None
        | Some a \<Rightarrow> do { xs \<leftarrow> read_chararray a; Some (Some (Memory (map Some xs @ [None]))) })
     }"

text \<open>Following the links of the context's flags: a freed node makes it undefined.\<close>

fun flags_read :: "flaglist \<Rightarrow> string list option" where
  "flags_read FEnd = Some []"
| "flags_read (FNode s l) = map_option (Cons s) (flags_read l)"
| "flags_read FFreed = None"

definition flags_value :: "'w sieve2_context \<Rightarrow> string list \<Rightarrow> charpp option option" where
  "flags_value c fl =
     (if fl \<noteq> [] then stringlist_array fl
      else do { sl \<leftarrow> flags_read (slflags c); stringlist_array sl })"

section \<open>Actions\<close>

definition libsieve_do_reject :: "'w client \<Rightarrow> 'w sieve2_context \<Rightarrow> string \<Rightarrow> (int \<times> 'w sieve2_context) option" where
  "libsieve_do_reject cl c msg =
     (let a = actions c
      in if a_fileinto a \<or> a_redirect a \<or> a_keep a \<or> a_reject a \<or> a_vacation a
            \<or> a_setflag a \<or> a_addflag a \<or> a_removeflag a
         then Some (SIEVE2_ERROR_EXEC, c)
         else do {
           let c = c\<lparr>actions := a\<lparr>a_reject := True\<rparr>\<rparr>;
           let c = begin_call SIEVE2_ACTION_REJECT c;
           let c = set_string ''message'' (Some msg) c;
           c \<leftarrow> do_and_end cl SIEVE2_ACTION_REJECT c;
           Some (SIEVE2_OK, c)
         })"

definition libsieve_do_fileinto ::
  "'w client \<Rightarrow> 'w sieve2_context \<Rightarrow> string \<Rightarrow> string list \<Rightarrow> (int \<times> 'w sieve2_context) option" where
  "libsieve_do_fileinto cl c mbox fl =
     (if a_reject (actions c) then Some (SIEVE2_ERROR_EXEC, c)
      else do {
        let c = c\<lparr>actions := (actions c)\<lparr>a_fileinto := True\<rparr>\<rparr>;
        let c = begin_call SIEVE2_ACTION_FILEINTO c;
        let c = set_string ''mailbox'' (Some mbox) c;
        flags \<leftarrow> flags_value c fl;
        let c = set_stringlist ''flags'' flags c;
        c \<leftarrow> do_and_end cl SIEVE2_ACTION_FILEINTO c;
        Some (SIEVE2_OK, c)
      })"

definition libsieve_do_redirect ::
  "'w client \<Rightarrow> 'w sieve2_context \<Rightarrow> string \<Rightarrow> (int \<times> 'w sieve2_context) option" where
  "libsieve_do_redirect cl c addr =
     (if a_reject (actions c) then Some (SIEVE2_ERROR_EXEC, c)
      else do {
        let c = c\<lparr>actions := (actions c)\<lparr>a_redirect := True\<rparr>\<rparr>;
        let c = begin_call SIEVE2_ACTION_REDIRECT c;
        let c = set_string ''address'' (Some addr) c;
        c \<leftarrow> do_and_end cl SIEVE2_ACTION_REDIRECT c;
        Some (SIEVE2_OK, c)
      })"

definition libsieve_do_keep ::
  "'w client \<Rightarrow> 'w sieve2_context \<Rightarrow> string list \<Rightarrow> (int \<times> 'w sieve2_context) option" where
  "libsieve_do_keep cl c fl =
     (if a_reject (actions c) then Some (SIEVE2_ERROR_EXEC, c)
      else do {
        let c = c\<lparr>actions := (actions c)\<lparr>a_keep := True\<rparr>\<rparr>;
        let c = begin_call SIEVE2_ACTION_KEEP c;
        flags \<leftarrow> flags_value c fl;
        let c = set_stringlist ''flags'' flags c;
        c \<leftarrow> do_and_end cl SIEVE2_ACTION_KEEP c;
        Some (SIEVE2_OK, c)
      })"

definition libsieve_do_discard :: "'w client \<Rightarrow> 'w sieve2_context \<Rightarrow> (int \<times> 'w sieve2_context) option" where
  "libsieve_do_discard cl c =
     do {
       let c = c\<lparr>actions := (actions c)\<lparr>a_discard := True\<rparr>\<rparr>;
       let c = begin_call SIEVE2_ACTION_DISCARD c;
       c \<leftarrow> do_and_end cl SIEVE2_ACTION_DISCARD c;
       Some (SIEVE2_OK, c)
     }"

definition libsieve_do_vacation ::
  "'w client \<Rightarrow> 'w sieve2_context \<Rightarrow> string option \<Rightarrow> string option \<Rightarrow> string \<Rightarrow> string \<Rightarrow> string
     \<Rightarrow> int \<Rightarrow> int \<Rightarrow> (int \<times> 'w sieve2_context) option" where
  "libsieve_do_vacation cl c addr fromaddr subj msg handle days mime =
     (if a_reject (actions c) then Some (SIEVE2_ERROR_EXEC, c)
      else do {
        let c = c\<lparr>actions := (actions c)\<lparr>a_vacation := True\<rparr>\<rparr>;
        let c = begin_call SIEVE2_ACTION_VACATION c;
        let c = set_string ''address'' addr c;
        let c = set_string ''fromaddr'' fromaddr c;
        let c = set_string ''subject'' (Some subj) c;
        let c = set_string ''message'' (Some msg) c;
        let c = set_string ''hash'' (Some handle) c;
        let c = set_int ''days'' days c;
        let c = set_int ''mime'' mime c;
        c \<leftarrow> do_and_end cl SIEVE2_ACTION_VACATION c;
        Some (SIEVE2_OK, c)
      })"

definition libsieve_do_notify ::
  "'w client \<Rightarrow> 'w sieve2_context \<Rightarrow> string option \<Rightarrow> string option \<Rightarrow> string list \<Rightarrow> string \<Rightarrow> string
     \<Rightarrow> (int \<times> 'w sieve2_context) option" where
  "libsieve_do_notify cl c ident method options priority msg =
     do {
       let c = c\<lparr>actions := (actions c)\<lparr>a_notify := True\<rparr>\<rparr>;
       let c = begin_call SIEVE2_ACTION_NOTIFY c;
       optionstring \<leftarrow> stringlist_array options;
       let c = set_stringlist ''options'' optionstring c;
       let c = set_string ''id'' ident c;
       let c = set_string ''method'' method c;
       let c = set_string ''priority'' (Some priority) c;
       let c = set_string ''message'' (Some msg) c;
       c \<leftarrow> do_and_end cl SIEVE2_ACTION_NOTIFY c;
       Some (SIEVE2_OK, c)
     }"

section \<open>Errors and traces\<close>

definition libsieve_do_error_exec :: "'w client \<Rightarrow> 'w sieve2_context \<Rightarrow> string \<Rightarrow> (int \<times> 'w sieve2_context) option" where
  "libsieve_do_error_exec cl c msg =
     do {
       let c = begin_call SIEVE2_ERRCALL_RUNTIME c;
       let c = set_string ''message'' (Some msg) c;
       c \<leftarrow> do_and_end cl SIEVE2_ERRCALL_RUNTIME c;
       Some (SIEVE2_OK, c)
     }"

definition libsieve_do_error_parse ::
  "'w client \<Rightarrow> 'w sieve2_context \<Rightarrow> int \<Rightarrow> string \<Rightarrow> (int \<times> 'w sieve2_context) option" where
  "libsieve_do_error_parse cl c lineno msg =
     do {
       let c = begin_call SIEVE2_ERRCALL_PARSE c;
       let c = set_int ''lineno'' lineno c;
       let c = set_string ''message'' (Some msg) c;
       c \<leftarrow> do_and_end cl SIEVE2_ERRCALL_PARSE c;
       Some (SIEVE2_OK, c)
     }"

definition libsieve_do_error_address ::
  "'w client \<Rightarrow> 'w sieve2_context \<Rightarrow> string \<Rightarrow> (int \<times> 'w sieve2_context) option" where
  "libsieve_do_error_address cl c msg =
     do {
       let c = begin_call SIEVE2_ERRCALL_ADDRESS c;
       let c = set_string ''message'' (Some msg) c;
       c \<leftarrow> do_and_end cl SIEVE2_ERRCALL_ADDRESS c;
       Some (SIEVE2_OK, c)
     }"

definition libsieve_do_error_header ::
  "'w client \<Rightarrow> 'w sieve2_context \<Rightarrow> int \<Rightarrow> string \<Rightarrow> (int \<times> 'w sieve2_context) option" where
  "libsieve_do_error_header cl c lineno msg =
     do {
       let c = begin_call SIEVE2_ERRCALL_HEADER c;
       let c = set_int ''lineno'' lineno c;
       let c = set_string ''message'' (Some msg) c;
       c \<leftarrow> do_and_end cl SIEVE2_ERRCALL_HEADER c;
       Some (SIEVE2_OK, c)
     }"

text \<open>
  \<open>formatted\<close> is what the format and its arguments expand to, \<open>None\<close> where \<^verbatim>\<open>vsnprintf\<close>
  reports an error. The buffer takes 1022 characters of it.
\<close>

definition libsieve_do_debug_trace ::
  "'w client \<Rightarrow> 'w sieve2_context option \<Rightarrow> int \<Rightarrow> string \<Rightarrow> string \<Rightarrow> string \<Rightarrow> string option
     \<Rightarrow> (int \<times> 'w sieve2_context option) option" where
  "libsieve_do_debug_trace cl context level module file function formatted =
     (case context of
        None \<Rightarrow> Some (SIEVE2_OK, None)
      | Some c \<Rightarrow>
          (if cb_debug_trace (callbacks c) = None then Some (SIEVE2_OK, Some c)
           else do {
             let c = begin_call SIEVE2_DEBUG_TRACE c;
             let c = set_int ''level'' level c;
             let c = set_string ''module'' (Some module) c;
             let c = set_string ''file'' (Some file) c;
             let c = set_string ''function'' (Some function) c;
             let msg =
               (case formatted of
                  None \<Rightarrow> ''A Sieve error occurred, but the error message is not available.''
                | Some s \<Rightarrow>
                    if 1023 < length s
                    then ''A Sieve error occurred, but the error message is not available.''
                    else take 1022 s);
             let c = set_string ''message'' (Some msg) c;
             c \<leftarrow> do_and_end cl SIEVE2_DEBUG_TRACE c;
             Some (SIEVE2_OK, Some c)
           }))"

section \<open>Questions\<close>

definition libsieve_do_getscript ::
  "'w client \<Rightarrow> 'w sieve2_context \<Rightarrow> string \<Rightarrow> string
     \<Rightarrow> (int \<times> string option \<times> int \<times> 'w sieve2_context) option" where
  "libsieve_do_getscript cl c path name =
     do {
       let c = begin_call SIEVE2_SCRIPT_GETSCRIPT c;
       let c = set_string ''path'' (Some path) c;
       let c = set_string ''name'' (Some name) c;
       (_, c) \<leftarrow> libsieve_callback_do cl c SIEVE2_SCRIPT_GETSCRIPT;
       script \<leftarrow> sieve2_getvalue_string c (Some ''script'');
       let scriptlen = (case script of None \<Rightarrow> 0 | Some s \<Rightarrow> to_int32 (int (length s)));
       (_, c) \<leftarrow> libsieve_callback_end c SIEVE2_SCRIPT_GETSCRIPT;
       Some (if script = None then SIEVE2_ERROR_EXEC else SIEVE2_OK, script, scriptlen, c)
     }"

definition libsieve_do_getallheaders ::
  "'w client \<Rightarrow> 'w sieve2_context \<Rightarrow> (int \<times> string option \<times> 'w sieve2_context) option" where
  "libsieve_do_getallheaders cl c =
     do {
       let c = begin_call SIEVE2_MESSAGE_GETALLHEADERS c;
       (_, c) \<leftarrow> libsieve_callback_do cl c SIEVE2_MESSAGE_GETALLHEADERS;
       header \<leftarrow> sieve2_getvalue_string c (Some ''allheaders'');
       (_, c) \<leftarrow> libsieve_callback_end c SIEVE2_MESSAGE_GETALLHEADERS;
       Some (SIEVE2_OK, header, c)
     }"

definition libsieve_do_getheader ::
  "'w client \<Rightarrow> 'w sieve2_context \<Rightarrow> string \<Rightarrow> (int \<times> charpp \<times> 'w sieve2_context) option" where
  "libsieve_do_getheader cl c header =
     do {
       let c = begin_call SIEVE2_MESSAGE_GETHEADER c;
       let c = set_string ''header'' (Some header) c;
       (_, c) \<leftarrow> libsieve_callback_do cl c SIEVE2_MESSAGE_GETHEADER;
       body \<leftarrow> sieve2_getvalue_stringlist c (Some ''body'');
       (_, c) \<leftarrow> libsieve_callback_end c SIEVE2_MESSAGE_GETHEADER;
       (case body of
          None \<Rightarrow> Some (SIEVE2_DONE, Notfound, c)
        | Some a \<Rightarrow>
            do {
              first \<leftarrow> array_read c a 0;
              Some (if first = None then (SIEVE2_DONE, Notfound, c) else (SIEVE2_OK, a, c))
            })
     }"

definition libsieve_do_getsize :: "'w client \<Rightarrow> 'w sieve2_context \<Rightarrow> (int \<times> int \<times> 'w sieve2_context) option" where
  "libsieve_do_getsize cl c =
     do {
       let c = begin_call SIEVE2_MESSAGE_GETSIZE c;
       (_, c) \<leftarrow> libsieve_callback_do cl c SIEVE2_MESSAGE_GETSIZE;
       sz \<leftarrow> sieve2_getvalue_int c (Some ''size'');
       (_, c) \<leftarrow> libsieve_callback_end c SIEVE2_MESSAGE_GETSIZE;
       Some (SIEVE2_OK, sz, c)
     }"

text \<open>
  The output of \<^verbatim>\<open>libsieve_do_getenvelope\<close> is written for names that start with \<^verbatim>\<open>f\<close> or
  \<^verbatim>\<open>t\<close> only; the inner \<open>None\<close> says that it is left as it was.
\<close>

definition libsieve_do_getenvelope ::
  "'w client \<Rightarrow> 'w sieve2_context \<Rightarrow> string \<Rightarrow> (int \<times> string option option \<times> 'w sieve2_context) option" where
  "libsieve_do_getenvelope cl c f =
     do {
       let c = begin_call SIEVE2_MESSAGE_GETENVELOPE c;
       let c = set_string ''env'' (Some f) c;
       (_, c) \<leftarrow> libsieve_callback_do cl c SIEVE2_MESSAGE_GETENVELOPE;
       e \<leftarrow> (case f of
              [] \<Rightarrow> Some None
            | x # _ \<Rightarrow>
                (if x = CHR ''f'' \<or> x = CHR ''F''
                 then map_option Some (sieve2_getvalue_string c (Some ''from''))
                 else if x = CHR ''t'' \<or> x = CHR ''T''
                 then map_option Some (sieve2_getvalue_string c (Some ''to''))
                 else Some None));
       (_, c) \<leftarrow> libsieve_callback_end c SIEVE2_MESSAGE_GETENVELOPE;
       Some (SIEVE2_OK, e, c)
     }"

record subaddress =
  sub_user :: "string option"
  sub_detail :: "string option"
  sub_localpart :: "string option"
  sub_domain :: "string option"

definition libsieve_do_getsubaddress ::
  "'w client \<Rightarrow> 'w sieve2_context \<Rightarrow> string \<Rightarrow> (int \<times> subaddress \<times> 'w sieve2_context) option" where
  "libsieve_do_getsubaddress cl c address =
     do {
       let c = begin_call SIEVE2_MESSAGE_GETSUBADDRESS c;
       let c = set_string ''address'' (Some address) c;
       (_, c) \<leftarrow> libsieve_callback_do cl c SIEVE2_MESSAGE_GETSUBADDRESS;
       u \<leftarrow> sieve2_getvalue_string c (Some ''user'');
       d \<leftarrow> sieve2_getvalue_string c (Some ''detail'');
       l \<leftarrow> sieve2_getvalue_string c (Some ''localpart'');
       dom \<leftarrow> sieve2_getvalue_string c (Some ''domain'');
       (_, c) \<leftarrow> libsieve_callback_end c SIEVE2_MESSAGE_GETSUBADDRESS;
       Some (SIEVE2_OK, \<lparr>sub_user = u, sub_detail = d, sub_localpart = l, sub_domain = dom\<rparr>, c)
     }"

section \<open>Frames\<close>

text \<open>An operation of the protocol changes the current call and the client's state only.\<close>

definition frame :: "'w sieve2_context \<Rightarrow> 'w sieve2_context \<Rightarrow> bool" where
  "frame c c' \<longleftrightarrow> c' = c\<lparr>call := call c', world := world c'\<rparr>"

named_theorems protocol \<open>the frame and the state of the call under the operations of the protocol\<close>

lemma frame_fields:
  assumes "frame c c'"
  shows "message c' = message c" "slflags c' = slflags c" "callbacks c' = callbacks c" "support c' = support c"
    "require c' = require c" "actions c' = actions c" "script c' = script c" "notfound c' = notfound c"
    "user_data c' = user_data c" "addr_scan c' = addr_scan c" "header_scan c' = header_scan c" "parse_errors c' = parse_errors c" "exec_errors c' = exec_errors c"
    "sieve_scan c' = sieve_scan c" "sieve_ret c' = sieve_ret c"
proof -
  obtain k w where "c' = c\<lparr>call := k, world := w\<rparr>" using assms by (auto simp: frame_def)
  then show "message c' = message c" "slflags c' = slflags c" "callbacks c' = callbacks c" "support c' = support c"
    "require c' = require c" "actions c' = actions c" "script c' = script c" "notfound c' = notfound c"
    "user_data c' = user_data c" "addr_scan c' = addr_scan c" "header_scan c' = header_scan c" "parse_errors c' = parse_errors c" "exec_errors c' = exec_errors c"
    "sieve_scan c' = sieve_scan c" "sieve_ret c' = sieve_ret c"
    by simp_all
qed

lemma frameI: "c' = c\<lparr>call := k, world := w\<rparr> \<Longrightarrow> frame c c'"
  by (simp add: frame_def)

lemma frame_refl [simp]: "frame c c"
  by (simp add: frame_def)

lemma frame_trans [trans]: "frame a b \<Longrightarrow> frame b c \<Longrightarrow> frame a c"
  unfolding frame_def by (cases a; cases b; cases c) simp

definition idle :: "'w sieve2_context \<Rightarrow> bool" where
  "idle c \<longleftrightarrow> call_begin (call c) = call_end (call c)"

definition in_call :: "sieve2_values \<Rightarrow> 'w sieve2_context \<Rightarrow> bool" where
  "in_call callback c \<longleftrightarrow> call_begin (call c) \<and> \<not> call_end (call c) \<and> call_code (call c) = callback \<and>
     Freed \<notin> fst ` set (call_values (call c))"

lemma begin_in_call: "idle c \<Longrightarrow> in_call callback (begin_call callback c)"
proof -
  have "fst (clear_slot s) = NoName" for s by (cases s rule: clear_slot.cases) auto
  then show "idle c \<Longrightarrow> in_call callback (begin_call callback c)"
    by (auto simp: idle_def in_call_def libsieve_callback_begin_def image_iff)
qed

lemma begin_frame: "frame c (begin_call callback c)"
  by (auto simp: libsieve_callback_begin_def frame_def)

lemma set_slot_unfreed: "set_slot vs name v = Some vs' \<Longrightarrow> Freed \<notin> fst ` set vs \<Longrightarrow> Freed \<notin> fst ` set vs'"
proof (induction vs arbitrary: vs')
  case (Cons s vs)
  obtain n w where s: "s = (n, w)" by (cases s)
  show ?case
  proof (cases "n = NoName")
    case True
    then show ?thesis using Cons.prems s by auto
  next
    case False
    then obtain ws where ws: "set_slot vs name v = Some ws" "vs' = (n, w) # ws" using Cons.prems s by auto
    then show ?thesis using Cons.IH [OF ws(1)] Cons.prems(2) s by simp
  qed
qed simp

lemma setvalue_frame: "frame c (snd (setvalue name v c))"
  by (auto simp: setvalue_def with_values_def frame_def split: option.splits)

lemma setvalue_in_call: "in_call callback c \<Longrightarrow> in_call callback (snd (setvalue name v c))"
  by (auto simp: setvalue_def with_values_def in_call_def dest: set_slot_unfreed split: option.splits)

lemma setvalue_world [simp]: "world (snd (setvalue name v c)) = world c"
  by (auto simp: setvalue_def with_values_def split: option.splits)

lemma set_frame [protocol]:
  "frame c (snd (sieve2_setvalue_string n s c))" "frame c (snd (sieve2_setvalue_int n i c))"
  "frame c (snd (sieve2_setvalue_stringlist n l c))"
  by (auto simp: sieve2_setvalue_string_def sieve2_setvalue_int_def sieve2_setvalue_stringlist_def
      setvalue_frame split: option.splits)

lemma set_in_call [protocol]:
  "in_call callback c \<Longrightarrow> in_call callback (snd (sieve2_setvalue_string n s c))"
  "in_call callback c \<Longrightarrow> in_call callback (snd (sieve2_setvalue_int n i c))"
  "in_call callback c \<Longrightarrow> in_call callback (snd (sieve2_setvalue_stringlist n l c))"
  by (auto simp: sieve2_setvalue_string_def sieve2_setvalue_int_def sieve2_setvalue_stringlist_def
      setvalue_in_call split: option.splits)

lemma set_world [simp]:
  "world (snd (sieve2_setvalue_string n s c)) = world c" "world (snd (sieve2_setvalue_int n i c)) = world c"
  "world (snd (sieve2_setvalue_stringlist n l c)) = world c"
  by (auto simp: sieve2_setvalue_string_def sieve2_setvalue_int_def sieve2_setvalue_stringlist_def split: option.splits)

lemma begin_world [simp]: "world (begin_call callback c) = world c"
  by (simp add: libsieve_callback_begin_def)

lemma request_protocol:
  "frame c (apply_request r c) \<and> (in_call callback c \<longrightarrow> in_call callback (apply_request r c)) \<and>
   world (apply_request r c) = world c"
  by (cases r) (auto simp: protocol)

lemma requests_protocol:
  "frame c (fold apply_request rs c) \<and> (in_call callback c \<longrightarrow> in_call callback (fold apply_request rs c)) \<and>
   world (fold apply_request rs c) = world c"
proof (induction rs arbitrary: c)
  case (Cons r rs)
  from Cons [of "apply_request r c"] show ?case
    using request_protocol [of c r] frame_trans [of c "apply_request r c"] by auto
qed simp

lemma getheader_protocol:
  "libsieve_message2_getheader c = Some (r, c') \<Longrightarrow> frame c c' \<and> (in_call callback c \<longrightarrow> in_call callback c') \<and> world c' = world c"
  by (auto simp: libsieve_message2_getheader_def bind_eq_Some_conv protocol)

lemma do_protocol:
  assumes "libsieve_callback_do cl c callback = Some (r, c')"
  shows "frame c c' \<and> (in_call callback' c \<longrightarrow> in_call callback' c')"
proof (cases "callback_of callback (callbacks c)")
  case None
  then show ?thesis using assms by (simp add: libsieve_callback_do_def)
next
  case (Some f)
  show ?thesis
  proof (cases f)
    case (User i)
    obtain rs w where "cl_call cl i (user_data c) (call c) (world c) = (rs, w)" by fastforce
    then have c': "c' = fold apply_request rs (c\<lparr>world := w\<rparr>)"
      using assms Some User by (simp add: libsieve_callback_do_def run_callback_def)
    have "frame c (c\<lparr>world := w\<rparr>)" by (simp add: frame_def)
    moreover have "in_call callback' c \<longrightarrow> in_call callback' (c\<lparr>world := w\<rparr>)" by (simp add: in_call_def)
    ultimately show ?thesis
      using requests_protocol [of "c\<lparr>world := w\<rparr>" rs callback'] frame_trans unfolding c' by blast
  next
    case Message2_getheader
    then show ?thesis
      using assms Some getheader_protocol [of c _ c' callback']
      by (auto simp: libsieve_callback_do_def run_callback_def bind_eq_Some_conv)
  qed
qed

lemma free_slot_code: "call_begin (call c) \<Longrightarrow> idle (c\<lparr>call := (call c)\<lparr>call_end := True, call_code := x, call_values := y\<rparr>\<rparr>)"
  by (simp add: idle_def)

lemma end_protocol:
  "in_call callback c \<Longrightarrow> \<exists>c'. libsieve_callback_end c callback = Some (SIEVE2_OK, c') \<and> idle c' \<and> frame c c' \<and> world c' = world c"
  by (auto simp: in_call_def libsieve_callback_end_def idle_def frame_def)

lemma do_and_end_protocol:
  assumes "in_call callback c" and "do_and_end cl callback c = Some c'"
  shows "idle c' \<and> frame c c'"
proof -
  obtain r c1 where "libsieve_callback_do cl c callback = Some (r, c1)"
    and e: "\<exists>r. libsieve_callback_end c1 callback = Some (r, c')"
    using assms(2) by (auto simp: do_and_end_def bind_eq_Some_conv)
  then have "frame c c1" "in_call callback c1" using do_protocol assms(1) by blast+
  then show ?thesis using e end_protocol [of callback c1] frame_trans by fastforce
qed

section \<open>The actions as a group\<close>

datatype action =
    AReject string
  | AFileinto string "string list"
  | ARedirect string
  | AKeep "string list"
  | ADiscard
  | AVacation "string option" "string option" string string string int int
  | ANotify "string option" "string option" "string list" string string

definition run_action :: "'w client \<Rightarrow> action \<Rightarrow> 'w sieve2_context \<Rightarrow> (int \<times> 'w sieve2_context) option" where
  "run_action cl a c =
     (case a of
        AReject msg \<Rightarrow> libsieve_do_reject cl c msg
      | AFileinto mbox fl \<Rightarrow> libsieve_do_fileinto cl c mbox fl
      | ARedirect addr \<Rightarrow> libsieve_do_redirect cl c addr
      | AKeep fl \<Rightarrow> libsieve_do_keep cl c fl
      | ADiscard \<Rightarrow> libsieve_do_discard cl c
      | AVacation addr fromaddr subj msg handle days mime \<Rightarrow>
          libsieve_do_vacation cl c addr fromaddr subj msg handle days mime
      | ANotify ident method opts priority msg \<Rightarrow> libsieve_do_notify cl c ident method opts priority msg)"

fun action_call :: "action \<Rightarrow> sieve2_values" where
  "action_call (AReject _) = SIEVE2_ACTION_REJECT"
| "action_call (AFileinto _ _) = SIEVE2_ACTION_FILEINTO"
| "action_call (ARedirect _) = SIEVE2_ACTION_REDIRECT"
| "action_call (AKeep _) = SIEVE2_ACTION_KEEP"
| "action_call ADiscard = SIEVE2_ACTION_DISCARD"
| "action_call (AVacation _ _ _ _ _ _ _) = SIEVE2_ACTION_VACATION"
| "action_call (ANotify _ _ _ _ _) = SIEVE2_ACTION_NOTIFY"

text \<open>The compatibility table of the comments of \<^verbatim>\<open>callbacks2.c\<close>.\<close>

fun compatible :: "sieve2_values \<Rightarrow> actions2 \<Rightarrow> bool" where
  "compatible SIEVE2_ACTION_REJECT a = (\<not> (a_fileinto a \<or> a_redirect a \<or> a_keep a \<or> a_reject a \<or> a_vacation a
     \<or> a_setflag a \<or> a_addflag a \<or> a_removeflag a))"
| "compatible SIEVE2_ACTION_DISCARD a = True"
| "compatible SIEVE2_ACTION_NOTIFY a = True"
| "compatible _ a = (\<not> a_reject a)"

fun mark :: "sieve2_values \<Rightarrow> actions2 \<Rightarrow> actions2" where
  "mark SIEVE2_ACTION_REJECT a = a\<lparr>a_reject := True\<rparr>"
| "mark SIEVE2_ACTION_FILEINTO a = a\<lparr>a_fileinto := True\<rparr>"
| "mark SIEVE2_ACTION_REDIRECT a = a\<lparr>a_redirect := True\<rparr>"
| "mark SIEVE2_ACTION_KEEP a = a\<lparr>a_keep := True\<rparr>"
| "mark SIEVE2_ACTION_DISCARD a = a\<lparr>a_discard := True\<rparr>"
| "mark SIEVE2_ACTION_VACATION a = a\<lparr>a_vacation := True\<rparr>"
| "mark SIEVE2_ACTION_NOTIFY a = a\<lparr>a_notify := True\<rparr>"
| "mark _ a = a"

text \<open>A client that also records the calls made of it.\<close>

definition logging :: "'w client \<Rightarrow> ('w \<times> sieve2_values list) client" where
  "logging cl =
     \<lparr>cl_call = (\<lambda>i ud cc (w, log). case cl_call cl i ud cc w of (rs, w) \<Rightarrow> (rs, (w, log @ [call_code cc]))),
      cl_written = (\<lambda>arr x (w, log). (cl_written cl arr x w, log)),
      cl_regexec = cl_regexec cl, cl_regcomp = cl_regcomp cl, cl_syntax_error = cl_syntax_error cl\<rparr>"

text \<open>
  What every action does from an idle context, with a registered function of the client: when it is
  incompatible with an earlier one nothing but the code \<^verbatim>\<open>SIEVE2_ERROR_EXEC\<close>; otherwise it marks
  itself, makes its one call, and leaves the context idle.
\<close>

definition makes_call :: "sieve2_values \<Rightarrow> ('w \<times> sieve2_values list) sieve2_context \<Rightarrow> ('w \<times> sieve2_values list) sieve2_context \<Rightarrow> bool" where
  "makes_call callback c c' \<longleftrightarrow> frame c c' \<and> idle c' \<and>
     snd (world c') = (if callback_of callback (callbacks c) = None then snd (world c) else snd (world c) @ [callback])"

lemma do_and_end_call:
  assumes "in_call callback c" and "callback_of callback (callbacks c) \<noteq> Some Message2_getheader"
  shows "\<exists>c'. do_and_end (logging cl) callback c = Some c' \<and> makes_call callback c c'"
proof -
  have "\<exists>c1. (\<exists>r. libsieve_callback_do (logging cl) c callback = Some (r, c1)) \<and> frame c c1 \<and> in_call callback c1 \<and>
    snd (world c1) = (if callback_of callback (callbacks c) = None then snd (world c) else snd (world c) @ [callback])"
  proof (cases "callback_of callback (callbacks c)")
    case None
    then show ?thesis using assms(1) by (simp add: libsieve_callback_do_def)
  next
    case (Some f)
    then obtain i where f: "f = User i" using assms(2) by (cases f) auto
    obtain rs w where run: "cl_call (logging cl) i (user_data c) (call c) (world c) = (rs, w)"
      and w: "snd w = snd (world c) @ [callback]"
    proof -
      obtain a log where w: "world c = (a, log)" by (cases "world c")
      obtain rs b where "cl_call cl i (user_data c) (call c) a = (rs, b)" by fastforce
      then show ?thesis using that [of rs "(b, log @ [callback])"] w assms(1)
        by (simp add: logging_def in_call_def)
    qed
    have "libsieve_callback_do (logging cl) c callback = Some (SIEVE2_OK, fold apply_request rs (c\<lparr>world := w\<rparr>))"
      using run by (simp add: libsieve_callback_do_def run_callback_def Some f)
    moreover from this have "frame c (fold apply_request rs (c\<lparr>world := w\<rparr>)) \<and>
        in_call callback (fold apply_request rs (c\<lparr>world := w\<rparr>))"
      using do_protocol assms(1) by blast
    moreover have "world (fold apply_request rs (c\<lparr>world := w\<rparr>)) = w"
      using requests_protocol [of "c\<lparr>world := w\<rparr>" rs] by simp
    ultimately show ?thesis using w Some by auto
  qed
  then obtain r c1 where c1: "libsieve_callback_do (logging cl) c callback = Some (r, c1)" "frame c c1" "in_call callback c1"
    "snd (world c1) = (if callback_of callback (callbacks c) = None then snd (world c) else snd (world c) @ [callback])"
    by blast
  from end_protocol [OF c1(3)] obtain c' where "libsieve_callback_end c1 callback = Some (SIEVE2_OK, c')"
    "idle c'" "frame c1 c'" "world c' = world c1" by blast
  then show ?thesis using c1 frame_trans [OF c1(2)] by (auto simp: do_and_end_def makes_call_def)
qed

lemma makes_call_frame:
  assumes "frame c c1" and "world c1 = world c" and "makes_call callback c1 c'"
  shows "makes_call callback c c'"
  using assms frame_trans [OF assms(1)] frame_fields(3) [OF assms(1)] by (simp add: makes_call_def)

text \<open>A call whose slots are filled by a chain of setters.\<close>

definition filled :: "sieve2_values \<Rightarrow> 'w sieve2_context \<Rightarrow> 'w sieve2_context \<Rightarrow> bool" where
  "filled callback c c' \<longleftrightarrow> frame c c' \<and> world c' = world c \<and> in_call callback c'"

lemma filled_begin [protocol]: "idle c \<Longrightarrow> filled callback c (begin_call callback c)"
  by (simp add: filled_def begin_in_call begin_frame)

lemma filled_set [protocol]:
  "filled callback c c' \<Longrightarrow> filled callback c (snd (sieve2_setvalue_string n s c'))"
  "filled callback c c' \<Longrightarrow> filled callback c (snd (sieve2_setvalue_int n i c'))"
  "filled callback c c' \<Longrightarrow> filled callback c (snd (sieve2_setvalue_stringlist n l c'))"
  by (auto simp: filled_def protocol elim: frame_trans [OF _ set_frame(1)] frame_trans [OF _ set_frame(2)]
      frame_trans [OF _ set_frame(3)])

lemma filled_call:
  assumes "filled callback c c1" and "callback_of callback (callbacks c) \<noteq> Some Message2_getheader"
  shows "\<exists>c'. do_and_end (logging cl) callback c1 = Some c' \<and> makes_call callback c c'"
  using do_and_end_call [of callback c1 cl] makes_call_frame [of c c1 callback] assms frame_fields(3) [of c c1]
  by (auto simp: filled_def)

lemma stringlist_array_total: "\<exists>r. stringlist_array sl = Some r"
proof -
  have "False \<notin> set (replicate n True)" for n by (induction n) auto
  then show ?thesis
    using chararray_result [of sl "replicate (1 + length sl div 4) True"]
    by (cases "sl = []") (auto simp: stringlist_array_def)
qed

definition internal_ok :: "callbacks2 \<Rightarrow> bool" where
  "internal_ok cb \<longleftrightarrow> (\<forall>v. v \<noteq> SIEVE2_MESSAGE_GETHEADER \<longrightarrow> callback_of v cb \<noteq> Some Message2_getheader)"

lemma idle_update [simp]: "idle (c\<lparr>actions := a\<rparr>) = idle c"
  by (simp add: idle_def)

text \<open>The actions that read the context's flags.\<close>

definition needs_flags :: "action \<Rightarrow> bool" where
  "needs_flags a = (case a of AFileinto _ fl \<Rightarrow> fl = [] | AKeep fl \<Rightarrow> fl = [] | _ \<Rightarrow> False)"

lemma flags_value_total:
  "(fl = [] \<Longrightarrow> flags_read (slflags c) \<noteq> None) \<Longrightarrow> \<exists>r. flags_value c fl = Some r"
  using stringlist_array_total by (cases "fl = []") (auto simp: flags_value_def)

lemma action_call_client:
  "internal_ok cb \<Longrightarrow> callback_of (action_call a) cb \<noteq> Some Message2_getheader"
  by (cases a) (auto simp: internal_ok_def)

lemma run_action_law:
  assumes "idle c" and "internal_ok (callbacks c)" and fl: "needs_flags a \<Longrightarrow> flags_read (slflags c) \<noteq> None"
  shows "if compatible (action_call a) (actions c)
    then \<exists>c'. run_action (logging cl) a c = Some (SIEVE2_OK, c') \<and>
           makes_call (action_call a) (c\<lparr>actions := mark (action_call a) (actions c)\<rparr>) c'
    else run_action (logging cl) a c = Some (SIEVE2_ERROR_EXEC, c)"
proof (cases "compatible (action_call a) (actions c)")
  case False
  then show ?thesis
    by (cases a) (auto simp: run_action_def libsieve_do_reject_def libsieve_do_fileinto_def libsieve_do_redirect_def
        libsieve_do_keep_def libsieve_do_vacation_def Let_def)
next
  case True
  define c0 where "c0 = c\<lparr>actions := mark (action_call a) (actions c)\<rparr>"
  have idle: "idle c0" using assms(1) by (simp add: c0_def)
  have client: "callback_of (action_call a) (callbacks c0) \<noteq> Some Message2_getheader"
    using action_call_client assms(2) by (simp add: c0_def)
  have flags: "\<exists>r. flags_value c1 l = Some r" if "filled callback c0 c1" and "l = [] \<Longrightarrow> needs_flags a" for callback c1 l
    using flags_value_total [of l c1] frame_fields(2) [of c0 c1] that fl by (simp add: filled_def c0_def)
  note prot = filled_begin [OF idle] filled_set
  have "\<exists>c'. run_action (logging cl) a c = Some (SIEVE2_OK, c') \<and> makes_call (action_call a) c0 c'"
  proof (cases a)
    case (AReject msg)
    have "filled SIEVE2_ACTION_REJECT c0 (set_string ''message'' (Some msg) (begin_call SIEVE2_ACTION_REJECT c0))"
      by (intro prot)
    from filled_call [OF this, of cl] client True show ?thesis
      by (auto simp: AReject run_action_def libsieve_do_reject_def Let_def c0_def)
  next
    case (AFileinto mbox l)
    let ?c = "set_string ''mailbox'' (Some mbox) (begin_call SIEVE2_ACTION_FILEINTO c0)"
    have f: "filled SIEVE2_ACTION_FILEINTO c0 ?c" by (intro prot)
    from flags [OF f, of l] obtain r where r: "flags_value ?c l = Some r" by (auto simp: needs_flags_def AFileinto)
    have "filled SIEVE2_ACTION_FILEINTO c0 (set_stringlist ''flags'' r ?c)" by (intro prot)
    from filled_call [OF this, of cl] client True r show ?thesis
      by (auto simp: AFileinto run_action_def libsieve_do_fileinto_def Let_def c0_def)
  next
    case (ARedirect addr)
    have "filled SIEVE2_ACTION_REDIRECT c0 (set_string ''address'' (Some addr) (begin_call SIEVE2_ACTION_REDIRECT c0))"
      by (intro prot)
    from filled_call [OF this, of cl] client True show ?thesis
      by (auto simp: ARedirect run_action_def libsieve_do_redirect_def Let_def c0_def)
  next
    case (AKeep l)
    let ?c = "begin_call SIEVE2_ACTION_KEEP c0"
    have f: "filled SIEVE2_ACTION_KEEP c0 ?c" by (intro prot)
    from flags [OF f, of l] obtain r where r: "flags_value ?c l = Some r" by (auto simp: needs_flags_def AKeep)
    have "filled SIEVE2_ACTION_KEEP c0 (set_stringlist ''flags'' r ?c)" by (intro prot)
    from filled_call [OF this, of cl] client True r show ?thesis
      by (auto simp: AKeep run_action_def libsieve_do_keep_def Let_def c0_def)
  next
    case ADiscard
    have "filled SIEVE2_ACTION_DISCARD c0 (begin_call SIEVE2_ACTION_DISCARD c0)" by (intro prot)
    from filled_call [OF this, of cl] client show ?thesis
      by (auto simp: ADiscard run_action_def libsieve_do_discard_def Let_def c0_def)
  next
    case (AVacation addr fromaddr subj msg handle days mime)
    let ?c = "set_int ''mime'' mime (set_int ''days'' days (set_string ''hash'' (Some handle)
        (set_string ''message'' (Some msg) (set_string ''subject'' (Some subj) (set_string ''fromaddr'' fromaddr
        (set_string ''address'' addr (begin_call SIEVE2_ACTION_VACATION c0)))))))"
    have "filled SIEVE2_ACTION_VACATION c0 ?c" by (intro prot)
    from filled_call [OF this, of cl] client True show ?thesis
      by (auto simp: AVacation run_action_def libsieve_do_vacation_def Let_def c0_def)
  next
    case (ANotify ident meth opts priority msg)
    obtain r where r: "stringlist_array opts = Some r" using stringlist_array_total by blast
    let ?c = "set_string ''message'' (Some msg) (set_string ''priority'' (Some priority)
        (set_string ''method'' meth (set_string ''id'' ident (set_stringlist ''options'' r
        (begin_call SIEVE2_ACTION_NOTIFY c0)))))"
    have "filled SIEVE2_ACTION_NOTIFY c0 ?c" by (intro prot)
    from filled_call [OF this, of cl] client r show ?thesis
      by (auto simp: ANotify run_action_def libsieve_do_notify_def Let_def c0_def)
  qed
  then show ?thesis using True by (simp add: c0_def)
qed

section \<open>Properties\<close>

fun run_actions :: "'w client \<Rightarrow> action list \<Rightarrow> 'w sieve2_context \<Rightarrow> (int list \<times> 'w sieve2_context) option" where
  "run_actions cl [] c = Some ([], c)"
| "run_actions cl (a # as) c =
     do {
       (r, c) \<leftarrow> run_action cl a c;
       (rs, c) \<leftarrow> run_actions cl as c;
       Some (r # rs, c)
     }"

definition exclusive_log :: "sieve2_values list \<Rightarrow> bool" where
  "exclusive_log log \<longleftrightarrow> count_list log SIEVE2_ACTION_REJECT \<le> 1 \<and>
     (SIEVE2_ACTION_REJECT \<in> set log \<longrightarrow>
        {SIEVE2_ACTION_FILEINTO, SIEVE2_ACTION_REDIRECT, SIEVE2_ACTION_KEEP, SIEVE2_ACTION_VACATION} \<inter> set log = {})"

definition exclusive_inv :: "('w \<times> sieve2_values list) sieve2_context \<Rightarrow> bool" where
  "exclusive_inv c \<longleftrightarrow> idle c \<and> internal_ok (callbacks c) \<and>
     (let a = actions c; log = snd (world c)
      in (SIEVE2_ACTION_REJECT \<in> set log \<longrightarrow> a_reject a) \<and> (SIEVE2_ACTION_FILEINTO \<in> set log \<longrightarrow> a_fileinto a) \<and>
         (SIEVE2_ACTION_REDIRECT \<in> set log \<longrightarrow> a_redirect a) \<and> (SIEVE2_ACTION_KEEP \<in> set log \<longrightarrow> a_keep a) \<and>
         (SIEVE2_ACTION_VACATION \<in> set log \<longrightarrow> a_vacation a) \<and>
         \<not> (a_reject a \<and> (a_fileinto a \<or> a_redirect a \<or> a_keep a \<or> a_vacation a)) \<and>
         count_list log SIEVE2_ACTION_REJECT \<le> 1)"

definition actions_inv :: "('w \<times> sieve2_values list) sieve2_context \<Rightarrow> bool" where
  "actions_inv c \<longleftrightarrow> exclusive_inv c \<and> flags_read (slflags c) \<noteq> None"

lemma exclusive_inv_log: "exclusive_inv c \<Longrightarrow> exclusive_log (snd (world c))"
  by (auto simp: exclusive_inv_def exclusive_log_def Let_def)

lemma exclusive_makes_call:
  assumes "exclusive_inv c" and "compatible (action_call a) (actions c)"
    and "makes_call (action_call a) (c\<lparr>actions := mark (action_call a) (actions c)\<rparr>) c'"
  shows "exclusive_inv c' \<and> slflags c' = slflags c"
proof -
  have fr: "callbacks c' = callbacks c" "slflags c' = slflags c" "actions c' = mark (action_call a) (actions c)"
    "idle c'" "snd (world c') \<in> {snd (world c), snd (world c) @ [action_call a]}"
    using assms(3) frame_fields [of "c\<lparr>actions := mark (action_call a) (actions c)\<rparr>" c'] by (auto simp: makes_call_def)
  have "exclusive_inv c'"
  proof (cases "snd (world c') = snd (world c)")
    case same: True
    show ?thesis using assms(1,2) unfolding exclusive_inv_def Let_def fr same
      by (cases a; simp only: action_call.simps mark.simps compatible.simps; simp add: fr; blast)
  next
    case False
    then have grown: "snd (world c') = snd (world c) @ [action_call a]" using fr(5) by simp
    show ?thesis using assms(1,2) unfolding exclusive_inv_def Let_def fr grown
      by (cases a; simp only: action_call.simps mark.simps compatible.simps; simp add: fr; blast)
  qed
  then show ?thesis using fr by simp
qed

text \<open>Without readable flags, an action that needs them has no result unless it is refused.\<close>

lemma run_action_flags:
  assumes "needs_flags a" and "flags_read (slflags c) = None" and "compatible (action_call a) (actions c)"
  shows "run_action cl a c = None"
proof -
  have none: "flags_value c1 [] = None" if "frame (c\<lparr>actions := x\<rparr>) c1" for c1 x
    using frame_fields(2) [OF that] assms(2) by (simp add: flags_value_def)
  have "flags_value (begin_call v (c\<lparr>actions := x\<rparr>)) [] = None"
    "flags_value (set_string n w (begin_call v (c\<lparr>actions := x\<rparr>))) [] = None" for v n w x
    using none [OF begin_frame] none [OF frame_trans [OF begin_frame set_frame(1)]] by blast+
  then show ?thesis
    using assms(1,3) by (auto simp: needs_flags_def run_action_def libsieve_do_fileinto_def libsieve_do_keep_def Let_def
        split: action.split_asm)
qed

lemma exclusive_step:
  assumes "exclusive_inv c" and "run_action (logging cl) a c = Some (r, c')"
  shows "exclusive_inv c' \<and> slflags c' = slflags c \<and> r \<in> {SIEVE2_OK, SIEVE2_ERROR_EXEC}"
proof (cases "compatible (action_call a) (actions c) \<and> needs_flags a \<and> flags_read (slflags c) = None")
  case True
  then show ?thesis using run_action_flags [of a c "logging cl"] assms(2) by simp
next
  case False
  have idle: "idle c" "internal_ok (callbacks c)" using assms(1) by (auto simp: exclusive_inv_def)
  show ?thesis
  proof (cases "compatible (action_call a) (actions c)")
    case True
    with run_action_law [OF idle, of a cl] False assms show ?thesis
      by (auto dest: exclusive_makes_call)
  next
    case no: False
    then have "run_action (logging cl) a c = Some (SIEVE2_ERROR_EXEC, c)"
      by (cases a) (auto simp: run_action_def libsieve_do_reject_def libsieve_do_fileinto_def libsieve_do_redirect_def
        libsieve_do_keep_def libsieve_do_vacation_def Let_def)
    then show ?thesis using assms by auto
  qed
qed

lemma actions_inv_step:
  assumes "actions_inv c"
  shows "\<exists>r c'. run_action (logging cl) a c = Some (r, c') \<and> actions_inv c' \<and> r \<in> {SIEVE2_OK, SIEVE2_ERROR_EXEC}"
proof -
  have "exclusive_inv c" "flags_read (slflags c) \<noteq> None" using assms by (auto simp: actions_inv_def)
  then have "\<exists>r c'. run_action (logging cl) a c = Some (r, c')"
    using run_action_law [of c a cl] by (fastforce simp: exclusive_inv_def split: if_splits)
  then show ?thesis using exclusive_step \<open>exclusive_inv c\<close> \<open>flags_read (slflags c) \<noteq> None\<close>
    unfolding actions_inv_def by metis
qed

lemma zero_actions_inv:
  "callbacks c = cb \<Longrightarrow> internal_ok cb \<Longrightarrow> c = (zero_context m (w, []))\<lparr>callbacks := cb\<rparr> \<Longrightarrow> actions_inv c"
  by (simp add: actions_inv_def exclusive_inv_def zero_context_def idle_def no_actions_def Let_def)

text \<open>
  C17. Any sequence of actions on a newly allocated context, with functions of the client registered
  for any of them: every action returns \<^verbatim>\<open>SIEVE2_OK\<close> or \<^verbatim>\<open>SIEVE2_ERROR_EXEC\<close>, no access
  is undefined, the context is idle again at the end, reject is called at most once, and a client
  that is called with reject is never called with fileinto, redirect, keep or vacation, in either order.
\<close>
theorem actions_exclusive:
  assumes "internal_ok cb"
  shows "\<exists>rs c'. run_actions (logging cl) as ((zero_context m (w, []))\<lparr>callbacks := cb\<rparr>) = Some (rs, c') \<and>
    set rs \<subseteq> {SIEVE2_OK, SIEVE2_ERROR_EXEC} \<and> idle c' \<and> exclusive_log (snd (world c'))"
proof -
  have "actions_inv c \<Longrightarrow> \<exists>rs c'. run_actions (logging cl) as c = Some (rs, c') \<and>
    set rs \<subseteq> {SIEVE2_OK, SIEVE2_ERROR_EXEC} \<and> actions_inv c'" for c
  proof (induction as arbitrary: c)
    case (Cons a as)
    from actions_inv_step [OF Cons.prems, of cl a] obtain r c1 where
      c1: "run_action (logging cl) a c = Some (r, c1)" "actions_inv c1" "r \<in> {SIEVE2_OK, SIEVE2_ERROR_EXEC}" by blast
    from Cons.IH [OF c1(2)] show ?case using c1 by fastforce
  qed simp
  from this [OF zero_actions_inv [OF _ assms refl]] show ?thesis
    using exclusive_inv_log by (fastforce simp: actions_inv_def exclusive_inv_def)
qed

definition one_callback :: "callbacks2" where
  "one_callback = no_callbacks\<lparr>cb_reject := Some (User 0), cb_keep := Some (User 0), cb_discard := Some (User 0)\<rparr>"

definition silent_client :: "unit client" where
  "silent_client = \<lparr>cl_call = (\<lambda>_ _ _ w. ([], w)), cl_written = (\<lambda>_ _ w. w),
     cl_regexec = (\<lambda>_ _. 1), cl_regcomp = (\<lambda>_ _. None), cl_syntax_error = ''syntax error''\<rparr>"

lemma actions_exclusive_witness:
  "\<exists>rs c'. run_actions (logging silent_client) [AReject ''no'', AKeep [], ADiscard]
      ((zero_context no_message ((), []))\<lparr>callbacks := one_callback\<rparr>) = Some (rs, c') \<and>
    set rs \<subseteq> {SIEVE2_OK, SIEVE2_ERROR_EXEC} \<and> idle c' \<and> exclusive_log (snd (world c'))"
proof (rule actions_exclusive)
  show "internal_ok one_callback"
    unfolding internal_ok_def
  proof (intro allI impI)
    show "callback_of v one_callback \<noteq> Some Message2_getheader" for v
      by (cases v) (simp_all add: callback_of_def one_callback_def no_callbacks_def)
  qed
qed

lemma get_slot_fold:
  assumes "\<forall>s \<in> set ws. fst s = NoName"
  shows "get_slot as_string (map (\<lambda>(n, v). (Name n, ValString (Some v))) kvs @ ws) q
    = Some (map_option (\<lambda>kv. Some (snd kv)) (find (\<lambda>(n, v). strcasecmp n q = 0) kvs))"
proof (induction kvs)
  case Nil
  show ?case using assms by (induction ws) (auto split: option.splits)
next
  case (Cons kv kvs)
  then show ?case by (cases kv) auto
qed

lemma set_slot_append:
  "\<forall>s \<in> set us. fst s \<noteq> NoName \<Longrightarrow> fst w = NoName \<Longrightarrow>
   set_slot (us @ w # ws) n v = Some (us @ (Name n, v) # ws)"
proof (induction us)
  case Nil
  then show ?case by (cases w) simp
qed (auto simp: prod_eq_iff)

lemma set_slot_full: "\<forall>s \<in> set us. fst s \<noteq> NoName \<Longrightarrow> set_slot us n v = None"
  by (induction us) auto

lemma set_strings_fold:
  assumes "call_values (call c) = map (\<lambda>(n, v). (Name n, ValString (Some v))) done @ ws"
    and "\<forall>s \<in> set ws. fst s = NoName" and "length kvs \<le> length ws"
  shows "call_values (call (fold (\<lambda>(n, v). set_string n (Some v)) kvs c))
    = map (\<lambda>(n, v). (Name n, ValString (Some v))) (done @ kvs) @ drop (length kvs) ws"
  using assms
proof (induction kvs arbitrary: c "done" ws)
  case (Cons kv kvs)
  obtain n v where kv: "kv = (n, v)" by (cases kv)
  obtain w ws' where ws: "ws = w # ws'" using Cons.prems(3) by (cases ws) auto
  let ?us = "map (\<lambda>(n, v). (Name n, ValString (Some v))) done"
  have "set_slot (?us @ w # ws') n (ValString (Some v)) = Some (?us @ (Name n, ValString (Some v)) # ws')"
    by (rule set_slot_append) (use Cons.prems(2) ws in auto)
  then have "call_values (call (set_string n (Some v) c))
      = map (\<lambda>(n, v). (Name n, ValString (Some v))) (done @ [kv]) @ ws'"
    using Cons.prems(1) by (simp add: sieve2_setvalue_string_def setvalue_def with_values_def ws kv)
  from Cons.IH [OF this] show ?case using Cons.prems(2,3) by (simp add: kv ws)
qed simp

text \<open>Calls keep the number of slots.\<close>

abbreviation slots :: "'w sieve2_context \<Rightarrow> nat" where "slots c \<equiv> length (call_values (call c))"

lemma set_slot_length: "set_slot vs n v = Some vs' \<Longrightarrow> length vs' = length vs"
  by (induction vs arbitrary: vs') (auto split: if_splits)

lemma slots_set [simp]:
  "slots (snd (sieve2_setvalue_string n s c)) = slots c" "slots (snd (sieve2_setvalue_int n i c)) = slots c"
  "slots (snd (sieve2_setvalue_stringlist n l c)) = slots c"
  by (auto simp: sieve2_setvalue_string_def sieve2_setvalue_int_def sieve2_setvalue_stringlist_def setvalue_def
      with_values_def set_slot_length split: option.splits)

lemma slots_requests [simp]: "slots (fold apply_request rs c) = slots c"
proof (induction rs arbitrary: c)
  case (Cons r rs)
  then show ?case by (cases r) simp_all
qed simp

lemma slots_end: "libsieve_callback_end c v = Some (r, c') \<Longrightarrow> slots c' = slots c"
  by (auto simp: libsieve_callback_end_def split: if_splits)

abbreviation string_slots :: "(string \<times> string) list \<Rightarrow> call_slot list" where
  "string_slots kvs \<equiv> map (\<lambda>(n, v). (Name n, ValString (Some v))) kvs"

text \<open>The function of the client answers with one string; the call around it ends without an error.\<close>

lemma string_answer:
  assumes "in_call v c" and "callback_of v (callbacks c) = Some (User i)"
    and "fst (cl_call cl i (user_data c) (call c) (world c)) = [SetString (Some n) (Some h)]"
    and "call_values (call c) = string_slots kvs @ ws" and "ws \<noteq> []" and "\<forall>s \<in> set ws. fst s = NoName"
    and "find (\<lambda>(m, v). strcasecmp m n = 0) kvs = None"
  shows "\<exists>c1 c'. libsieve_callback_do cl c v = Some (SIEVE2_OK, c1) \<and>
    sieve2_getvalue_string c1 (Some n) = Some (Some h) \<and> libsieve_callback_end c1 v = Some (SIEVE2_OK, c') \<and>
    frame c c' \<and> idle c' \<and> slots c' = slots c \<and> world c' = snd (cl_call cl i (user_data c) (call c) (world c))"
proof -
  obtain w where w: "cl_call cl i (user_data c) (call c) (world c) = ([SetString (Some n) (Some h)], w)"
    using assms(3) by (metis prod.collapse)
  obtain x ws' where ws: "ws = x # ws'" using assms(5) by (cases ws) auto
  have set: "set_slot (call_values (call c)) n (ValString (Some h)) = Some (string_slots (kvs @ [(n, h)]) @ ws')"
    using set_slot_append [of "string_slots kvs" x ws' n] assms(6) by (auto simp: assms(4) ws case_prod_beta)
  let ?c1 = "with_values (string_slots (kvs @ [(n, h)]) @ ws') (c\<lparr>world := w\<rparr>)"
  have run: "libsieve_callback_do cl c v = Some (SIEVE2_OK, ?c1)"
    using set w by (simp add: libsieve_callback_do_def run_callback_def assms(2) sieve2_setvalue_string_def setvalue_def
        del: map_append)
  have found: "find (\<lambda>(m, v). strcasecmp m n = 0) (kvs @ [(n, h)]) = Some (n, h)"
    using assms(7) by (induction kvs) (auto simp: strcasecmp_eq_0_iff split: if_splits)
  have get: "sieve2_getvalue_string ?c1 (Some n) = Some (Some h)"
    using get_slot_fold [of ws' "kvs @ [(n, h)]" n] found assms(6) ws
    by (simp add: sieve2_getvalue_string_def with_values_def)
  have f: "frame c ?c1" "in_call v ?c1" using do_protocol [OF run] assms(1) by blast+
  have len: "slots ?c1 = slots c" by (simp add: with_values_def assms(4) ws)
  from end_protocol [OF f(2)] obtain c' where c': "libsieve_callback_end ?c1 v = Some (SIEVE2_OK, c')" "idle c'"
    "frame ?c1 c'" "world c' = world ?c1" by blast
  show ?thesis
    using run get c'(1,2,4) frame_trans [OF f(1) c'(3)] slots_end [OF c'(1)] len w
    by (intro exI [of _ ?c1] exI [of _ c']) (simp add: with_values_def)
qed

text \<open>
  C18. The value slots of a call: after \<^verbatim>\<open>begin\<close> up to ten strings can be set, and reading a name
  gives the first value set under it, names compared without regard to case, or \<^verbatim>\<open>NULL\<close>. Once ten
  are set, every further one is refused with \<^verbatim>\<open>SIEVE2_ERROR_FAIL\<close> and changes nothing.
\<close>
theorem value_slots:
  assumes "idle c" and "length (call_values (call c)) = MAX_VALUES" and "length kvs \<le> MAX_VALUES"
    and "c1 = fold (\<lambda>(n, v). set_string n (Some v)) kvs (begin_call callback c)"
  shows "sieve2_getvalue_string c1 (Some q) = Some (map_option snd (find (\<lambda>(n, v). strcasecmp n q = 0) kvs)) \<and>
    (if length kvs = MAX_VALUES then sieve2_setvalue_string (Some n) (Some v) c1 = (SIEVE2_ERROR_FAIL, c1)
     else fst (sieve2_setvalue_string (Some n) (Some v) c1) = SIEVE2_OK)"
proof -
  let ?ws = "map clear_slot (call_values (call c))"
  have "fst (clear_slot s) = NoName" for s by (cases s rule: clear_slot.cases) auto
  then have names: "\<forall>s \<in> set ?ws. fst s = NoName" by simp
  have "call_values (call (begin_call callback c)) = ?ws"
    using assms(1) by (simp add: libsieve_callback_begin_def idle_def)
  then have vals: "call_values (call c1) = map (\<lambda>(n, v). (Name n, ValString (Some v))) kvs @ drop (length kvs) ?ws"
    using set_strings_fold [of "begin_call callback c" "[]" ?ws kvs] names assms by simp
  have rest: "\<forall>s \<in> set (drop (length kvs) ?ws). fst s = NoName" using names by (meson in_set_dropD)
  have "sieve2_getvalue_string c1 (Some q) = Some (map_option snd (find (\<lambda>(n, v). strcasecmp n q = 0) kvs))"
    unfolding sieve2_getvalue_string_def vals
    by (simp add: get_slot_fold [OF rest] split: option.splits)
  moreover have "sieve2_setvalue_string (Some n) (Some v) c1 = (SIEVE2_ERROR_FAIL, c1)" if "length kvs = MAX_VALUES"
    using that assms(2) set_slot_full [of "map (\<lambda>(n, v). (Name n, ValString (Some v))) kvs" n "ValString (Some v)"]
    by (auto simp: split_beta sieve2_setvalue_string_def setvalue_def vals)
  moreover have "fst (sieve2_setvalue_string (Some n) (Some v) c1) = SIEVE2_OK" if "length kvs \<noteq> MAX_VALUES"
  proof -
    have "\<not> length (call_values (call c)) \<le> length kvs" using that assms(2,3) by linarith
    then have "drop (length kvs) ?ws \<noteq> []" by simp
    then obtain w ws' where ws: "drop (length kvs) ?ws = w # ws'" by (meson neq_Nil_conv)
    have "set_slot (map (\<lambda>(n, v). (Name n, ValString (Some v))) kvs @ w # ws') n (ValString (Some v)) \<noteq> None"
      by (subst set_slot_append) (use rest ws in auto)
    then show ?thesis by (auto simp: sieve2_setvalue_string_def setvalue_def vals ws)
  qed
  ultimately show ?thesis by auto
qed

lemma value_slots_witness:
  "sieve2_getvalue_string (fold (\<lambda>(n, v). set_string n (Some v)) [(''From'', ''a''), (''to'', ''b''), (''FROM'', ''c'')]
      (begin_call SIEVE2_ACTION_KEEP (zero_context no_message ()))) (Some ''from'') = Some (Some ''a'')"
proof -
  have cmp: "strcasecmp ''From'' ''from'' = 0" by code_simp
  show ?thesis
    using value_slots [of "zero_context no_message ()" "[(''From'', ''a''), (''to'', ''b''), (''FROM'', ''c'')]" _
        SIEVE2_ACTION_KEEP "''from''", OF _ _ _ refl] cmp
    by (simp add: zero_context_def idle_def MAX_VALUES_def del: strcasecmp.simps)
qed

text \<open>
  C37. A value cannot be read once its call has ended: \<^verbatim>\<open>libsieve_callback_end\<close> frees the names of
  the slots and leaves the pointers, so after a call that had a string value every
  \<^verbatim>\<open>sieve2_getvalue_string\<close> compares with freed memory.
\<close>
theorem getvalue_after_end:
  assumes "in_call callback c" and "sieve2_getvalue_string c (Some n) = Some (Some v)"
    and "libsieve_callback_end c callback = Some (r, c')"
  shows "sieve2_getvalue_string c' (Some q) = None"
proof -
  have "get_slot as_string vs n = Some (Some x) \<Longrightarrow> get_slot as_string (map free_slot vs) q = None" for vs x
  proof (induction vs)
    case (Cons s vs)
    obtain m w where s: "s = (m, w)" by (cases s)
    then show ?case using Cons by (cases m; cases w) (auto split: if_splits)
  qed simp
  moreover obtain x where "get_slot as_string (call_values (call c)) n = Some (Some x)"
    using assms(2) by (auto simp: sieve2_getvalue_string_def split: option.splits)
  moreover have "call_values (call c') = map free_slot (call_values (call c))"
    using assms(1,3) by (auto simp: libsieve_callback_end_def in_call_def)
  ultimately show ?thesis by (simp add: sieve2_getvalue_string_def)
qed

lemma getvalue_after_end_witness:
  "sieve2_getvalue_string (the (map_option snd (libsieve_callback_end
      (set_string ''path'' (Some ''x'') (begin_call SIEVE2_SCRIPT_GETSCRIPT (zero_context no_message ()))) SIEVE2_SCRIPT_GETSCRIPT)))
     (Some ''script'') = None"
proof -
  let ?c = "set_string ''path'' (Some ''x'') (begin_call SIEVE2_SCRIPT_GETSCRIPT (zero_context no_message ()))"
  have idle: "idle (zero_context no_message ())" by (simp add: zero_context_def idle_def)
  have inc: "in_call SIEVE2_SCRIPT_GETSCRIPT ?c"
    by (intro set_in_call begin_in_call idle)
  obtain c' where c': "libsieve_callback_end ?c SIEVE2_SCRIPT_GETSCRIPT = Some (SIEVE2_OK, c')"
    using end_protocol [OF inc] by blast
  have "sieve2_getvalue_string ?c (Some ''path'') = Some (Some ''x'')"
    using value_slots [of "zero_context no_message ()" "[(''path'', ''x'')]" ?c SIEVE2_SCRIPT_GETSCRIPT "''path''"] idle
    by (simp add: zero_context_def MAX_VALUES_def)
  from getvalue_after_end [OF inc this c'] show ?thesis by (simp add: c')
qed

end
