(* ===== verification/Address.thy ===== *)
theory Address
  imports Callbacks
begin

text \<open>
  Addresses in headers, \<^verbatim>\<open>src/sv_interface/message.c\<close>, and the wrapper of the address parser in
  \<^verbatim>\<open>src/sv_parser/addr.y\<close>: parsing a header body into a marker over a list of addresses, and
  taking the addresses from the marker one by one.
\<close>

section \<open>Parsing\<close>

definition libsieve_addrerror :: "'w client \<Rightarrow> string \<Rightarrow> 'w sieve2_context \<Rightarrow> 'w sieve2_context option" where
  "libsieve_addrerror cl msg c =
     do {
       (_, c) \<leftarrow> libsieve_do_error_address cl (c\<lparr>exec_errors := exec_errors c + 1\<rparr>) msg;
       Some c
     }"

fun report_address_errors :: "'w client \<Rightarrow> string list \<Rightarrow> 'w sieve2_context \<Rightarrow> 'w sieve2_context option" where
  "report_address_errors cl [] c = Some c"
| "report_address_errors cl (m # ms) c =
     do { c \<leftarrow> libsieve_addrerror cl m c; report_address_errors cl ms c }"

text \<open>
  The struct on top of the list, which the grammar leaves for a next mailbox, is dropped. The empty
  list is \<^verbatim>\<open>NULL\<close>, for a parse error and for a group without members.
\<close>

definition libsieve_addr_parse_buffer ::
  "'w client \<Rightarrow> 'w sieve2_context \<Rightarrow> string \<Rightarrow> (address list \<times> 'w sieve2_context) option" where
  "libsieve_addr_parse_buffer cl c s =
     do {
       (addrs, scan, msgs) \<leftarrow> addr_parse (cl_syntax_error cl) (addr_scan c) s;
       c \<leftarrow> report_address_errors cl msgs (c\<lparr>addr_scan := scan\<rparr>);
       Some (case addrs of None \<Rightarrow> [] | Some as \<Rightarrow> tl as, c)
     }"

definition libsieve_parse_address ::
  "'w client \<Rightarrow> 'w sieve2_context \<Rightarrow> string \<Rightarrow> (int \<times> address list option \<times> 'w sieve2_context) option" where
  "libsieve_parse_address cl c header =
     do {
       (newdata, c) \<leftarrow> libsieve_addr_parse_buffer cl c header;
       Some (if newdata = [] then (SIEVE2_ERROR_EXEC, None, c) else (SIEVE2_OK, Some newdata, c))
     }"

section \<open>Taking addresses\<close>

datatype address_part = ADDRESS_ALL | ADDRESS_LOCALPART | ADDRESS_DOMAIN | ADDRESS_USER | ADDRESS_DETAIL

text \<open>
  \<^verbatim>\<open>libsieve_get_address\<close>. The marker is \<^verbatim>\<open>NULL\<close> (\<open>None\<close>) or points to the list that
  is left. A struct with a domain and no mailbox takes \<^verbatim>\<open>strlen(NULL)\<close>.
\<close>

definition address_string :: "int \<Rightarrow> address \<Rightarrow> string option option" where
  "address_string canon a =
     (let dom = map_option (\<lambda>d. if canon \<noteq> 0 then libsieve_strtolower d (length d) else d) (ad_domain a)
      in if ad_mailbox a = None \<and> dom = None then Some None
         else do {
           m \<leftarrow> ad_mailbox a;
           (if m = [] \<and> dom = None then Some (Some [])
            else map_option Some (strconcat_str [m, ''@'', (case dom of None \<Rightarrow> ''unspecified-domain'' | Some d \<Rightarrow> d)]))
         })"

definition libsieve_get_address ::
  "'w client \<Rightarrow> 'w sieve2_context \<Rightarrow> address_part \<Rightarrow> address list option \<Rightarrow> int
     \<Rightarrow> (string option \<times> address list option \<times> 'w sieve2_context) option" where
  "libsieve_get_address cl c addrpart marker canon_domain =
     (case marker of
        None \<Rightarrow> Some (None, None, c)
      | Some [] \<Rightarrow> Some (None, Some [], c)
      | Some (a # as) \<Rightarrow>
          do {
            address \<leftarrow> address_string canon_domain a;
            (case address of
               None \<Rightarrow> Some (None, Some as, c)
             | Some address \<Rightarrow>
                 (if addrpart = ADDRESS_ALL then Some (Some address, Some as, c)
                  else do {
                    (r, sub, c) \<leftarrow> libsieve_do_getsubaddress cl c address;
                    Some (if r \<noteq> SIEVE2_OK then None
                          else (case addrpart of
                                  ADDRESS_LOCALPART \<Rightarrow> sub_localpart sub
                                | ADDRESS_DOMAIN \<Rightarrow> sub_domain sub
                                | ADDRESS_USER \<Rightarrow> sub_user sub
                                | ADDRESS_DETAIL \<Rightarrow> sub_detail sub
                                | ADDRESS_ALL \<Rightarrow> None),
                          Some as, c)
                  }))
          })"

end
