(* ===== verification/Script.thy ===== *)
theory Script
  imports Address
begin

text \<open>
  The evaluation of a script, \<^verbatim>\<open>src/sv_interface/script.c\<close>: the tests, the commands, and the
  long sequence of checks in front of a vacation reply. Everything returns an \<open>option\<close>, with
  \<open>None\<close> for an undefined access.
\<close>

section \<open>Addresses of the user\<close>

definition sysaddr :: "string \<Rightarrow> bool" where
  "sysaddr addr =
     (if strncasecmp addr ''MAILER-DAEMON'' 13 = 0 then True
      else if strncasecmp addr ''LISTSERV'' 8 = 0 then True
      else if strncasecmp addr ''majordomo'' 9 = 0 then True
      else if strstr addr ''-request'' then True
      else if take 6 addr = ''owner-'' then True
      else False)"

text \<open>
  \<^verbatim>\<open>look_for_me\<close>: the loop over the alternative addresses (\<^verbatim>\<open>strcasecmp\<close> with the
  \<^verbatim>\<open>NULL\<close> of one that has no address is undefined), over the addresses of a body, and over the
  bodies of the header. The calls of \<^verbatim>\<open>libsieve_get_address\<close> ask for the whole address and
  never use their context.
\<close>

fun look_for_alternative ::
  "'w client \<Rightarrow> 'w sieve2_context \<Rightarrow> string \<Rightarrow> string list \<Rightarrow> (string option \<times> 'w sieve2_context) option" where
  "look_for_alternative cl c addr [] = Some (None, c)"
| "look_for_alternative cl c addr (s # sl) =
     do {
       (_, altmarker, c) \<leftarrow> libsieve_parse_address cl c s;
       (altaddr, _, c) \<leftarrow> libsieve_get_address cl c ADDRESS_ALL altmarker 1;
       altaddr \<leftarrow> altaddr;
       (if strcasecmp addr altaddr = 0 then Some (Some s, c) else look_for_alternative cl c addr sl)
     }"

fun look_in_addresses ::
  "'w client \<Rightarrow> 'w sieve2_context \<Rightarrow> string \<Rightarrow> string list \<Rightarrow> address list
     \<Rightarrow> (string option \<times> 'w sieve2_context) option" where
  "look_in_addresses cl c myaddr myaddrs [] = Some (None, c)"
| "look_in_addresses cl c myaddr myaddrs (a # as) =
     do {
       (addr, _, c) \<leftarrow> libsieve_get_address cl c ADDRESS_ALL (Some (a # as)) 1;
       (case addr of
          None \<Rightarrow> Some (None, c)
        | Some addr \<Rightarrow>
            (if strcasecmp addr myaddr = 0 then Some (Some myaddr, c)
             else do {
               (found, c) \<leftarrow> look_for_alternative cl c addr myaddrs;
               (if found \<noteq> None then Some (found, c) else look_in_addresses cl c myaddr myaddrs as)
             }))
     }"

fun look_in_bodies ::
  "'w client \<Rightarrow> 'w sieve2_context \<Rightarrow> string \<Rightarrow> string list \<Rightarrow> string option option list
     \<Rightarrow> (string option \<times> 'w sieve2_context) option" where
  "look_in_bodies cl c myaddr myaddrs [] = None"
| "look_in_bodies cl c myaddr myaddrs (cell # cells) =
     do {
       body \<leftarrow> cell;
       (case body of
          None \<Rightarrow> Some (None, c)
        | Some body \<Rightarrow>
            do {
              (_, marker, c) \<leftarrow> libsieve_parse_address cl c body;
              (found, c) \<leftarrow> look_in_addresses cl c myaddr myaddrs (case marker of None \<Rightarrow> [] | Some as \<Rightarrow> as);
              (if found \<noteq> None then Some (found, c) else look_in_bodies cl c myaddr myaddrs cells)
            })
     }"

definition look_for_me ::
  "'w client \<Rightarrow> 'w sieve2_context \<Rightarrow> string option \<Rightarrow> string list \<Rightarrow> charpp
     \<Rightarrow> (string option \<times> 'w sieve2_context) option" where
  "look_for_me cl c myaddr myaddrs body =
     (case myaddr of
        None \<Rightarrow> Some (None, c)
      | Some myaddr \<Rightarrow> do { cells \<leftarrow> array_cells c body; look_in_bodies cl c myaddr myaddrs cells })"

section \<open>Tests\<close>

definition countstr :: "nat \<Rightarrow> string" where
  "countstr n = take 18 (dec_string n)"

text \<open>
  The innermost loop of an address test: \<open>val\<close> is the current address (or the part of it), \<open>as\<close>
  what the marker still has, \<open>n\<close> the count.
\<close>

fun val_loop ::
  "'w client \<Rightarrow> address_part \<Rightarrow> bool \<Rightarrow> comparator \<Rightarrow> pattern \<Rightarrow> 'w sieve2_context \<Rightarrow> string option
     \<Rightarrow> address list \<Rightarrow> nat \<Rightarrow> (nat \<times> bool \<times> 'w sieve2_context) option" where
  "val_loop cl addrpart counting cmp p c None as n = Some (n, False, c)"
| "val_loop cl addrpart counting cmp p c (Some v) as n =
     do {
       res \<leftarrow> (if counting then Some False else run_comparator (cl_regexec cl) cmp p v);
       let n = (if counting then n + 1 else n);
       (v', _, c) \<leftarrow> libsieve_get_address cl c addrpart (Some as) 0;
       (if res then Some (n, True, c)
        else (case as of [] \<Rightarrow> Some (n, False, c) | _ # as \<Rightarrow> val_loop cl addrpart counting cmp p c v' as n))
     }"

fun address_bodies ::
  "'w client \<Rightarrow> address_part \<Rightarrow> bool \<Rightarrow> comparator \<Rightarrow> pattern \<Rightarrow> 'w sieve2_context
     \<Rightarrow> string option option list \<Rightarrow> nat \<Rightarrow> (nat \<times> bool \<times> 'w sieve2_context) option" where
  "address_bodies cl addrpart counting cmp p c [] n = None"
| "address_bodies cl addrpart counting cmp p c (cell # cells) n =
     do {
       body \<leftarrow> cell;
       (case body of
          None \<Rightarrow> Some (n, False, c)
        | Some body \<Rightarrow>
            do {
              (_, marker, c) \<leftarrow> libsieve_parse_address cl c body;
              (val, marker, c) \<leftarrow> libsieve_get_address cl c addrpart marker 0;
              (n, res, c) \<leftarrow> val_loop cl addrpart counting cmp p c val (case marker of None \<Rightarrow> [] | Some as \<Rightarrow> as) n;
              (if res then Some (n, True, c) else address_bodies cl addrpart counting cmp p c cells n)
            })
     }"

text \<open>The loop over the patterns; the count of an address test runs on from pattern to pattern.\<close>

fun address_patterns ::
  "'w client \<Rightarrow> address_part \<Rightarrow> bool \<Rightarrow> comparator \<Rightarrow> 'w sieve2_context \<Rightarrow> string option option list
     \<Rightarrow> pattern list \<Rightarrow> nat \<Rightarrow> (bool \<times> 'w sieve2_context) option" where
  "address_patterns cl addrpart counting cmp c cells [] n = Some (False, c)"
| "address_patterns cl addrpart counting cmp c cells (p # pl) n =
     do {
       (n, res, c) \<leftarrow> address_bodies cl addrpart counting cmp p c cells n;
       res' \<leftarrow> (if counting then run_comparator (cl_regexec cl) cmp p (countstr n) else Some False);
       (if res \<or> res' then Some (True, c) else address_patterns cl addrpart counting cmp c cells pl n)
     }"

definition address_part_of :: "int \<Rightarrow> address_part" where
  "address_part_of tag =
     (if tag = tok_LOCALPART then ADDRESS_LOCALPART
      else if tag = tok_DOMAIN then ADDRESS_DOMAIN
      else if tag = tok_USER then ADDRESS_USER
      else if tag = tok_DETAIL then ADDRESS_DETAIL
      else ADDRESS_ALL)"

text \<open>
  The loop over the names. For an envelope the local pointer \<^verbatim>\<open>envelope\<close> is read although
  \<^verbatim>\<open>libsieve_do_getenvelope\<close> may have left it unset.
\<close>

fun address_names ::
  "'w client \<Rightarrow> bool \<Rightarrow> int \<Rightarrow> comparator \<Rightarrow> pattern list \<Rightarrow> address_part \<Rightarrow> 'w sieve2_context
     \<Rightarrow> string list \<Rightarrow> (bool \<times> 'w sieve2_context) option" where
  "address_names cl env comptag cmp pl addrpart c [] = Some (False, c)"
| "address_names cl env comptag cmp pl addrpart c (s # sl) =
     do {
       (r, body, c) \<leftarrow>
         (if env then
            do {
              (r, e, c) \<leftarrow> libsieve_do_getenvelope cl c s;
              e \<leftarrow> e;
              Some (r, Memory [e, None], c)
            }
          else libsieve_do_getheader cl c s);
       (if r \<noteq> SIEVE2_OK then address_names cl env comptag cmp pl addrpart c sl
        else do {
          cells \<leftarrow> array_cells c body;
          (res, c) \<leftarrow> address_patterns cl addrpart (libsieve_relational_count comptag) cmp c cells pl 0;
          (if res then Some (True, c) else address_names cl env comptag cmp pl addrpart c sl)
        })
     }"

text \<open>The loops of a header test; here the count starts again for every pattern.\<close>

fun header_values ::
  "'w client \<Rightarrow> bool \<Rightarrow> comparator \<Rightarrow> pattern \<Rightarrow> string option option list \<Rightarrow> nat \<Rightarrow> (nat \<times> bool) option" where
  "header_values cl counting cmp p [] n = None"
| "header_values cl counting cmp p (cell # cells) n =
     do {
       v \<leftarrow> cell;
       (case v of
          None \<Rightarrow> Some (n, False)
        | Some v \<Rightarrow>
            do {
              res \<leftarrow> (if counting then Some False else run_comparator (cl_regexec cl) cmp p v);
              let n = (if counting then n + 1 else n);
              (if res then Some (n, True) else header_values cl counting cmp p cells n)
            })
     }"

fun header_patterns ::
  "'w client \<Rightarrow> bool \<Rightarrow> comparator \<Rightarrow> string option option list \<Rightarrow> pattern list \<Rightarrow> bool option" where
  "header_patterns cl counting cmp cells [] = Some False"
| "header_patterns cl counting cmp cells (p # pl) =
     do {
       (n, res) \<leftarrow> header_values cl counting cmp p cells 0;
       res' \<leftarrow> (if counting then run_comparator (cl_regexec cl) cmp p (countstr n) else Some False);
       (if res \<or> res' then Some True else header_patterns cl counting cmp cells pl)
     }"

fun header_names ::
  "'w client \<Rightarrow> int \<Rightarrow> comparator \<Rightarrow> pattern list \<Rightarrow> 'w sieve2_context \<Rightarrow> string list
     \<Rightarrow> (bool \<times> 'w sieve2_context) option" where
  "header_names cl comptag cmp pl c [] = Some (False, c)"
| "header_names cl comptag cmp pl c (s # sl) =
     do {
       (r, val, c) \<leftarrow> libsieve_do_getheader cl c s;
       (if r \<noteq> SIEVE2_OK then header_names cl comptag cmp pl c sl
        else do {
          cells \<leftarrow> array_cells c val;
          res \<leftarrow> header_patterns cl (libsieve_relational_count comptag) cmp cells pl;
          (if res then Some (True, c) else header_names cl comptag cmp pl c sl)
        })
     }"

fun exists_names ::
  "'w client \<Rightarrow> 'w sieve2_context \<Rightarrow> string list \<Rightarrow> (bool \<times> 'w sieve2_context) option" where
  "exists_names cl c [] = Some (True, c)"
| "exists_names cl c (s # sl) =
     do {
       (r, _, c) \<leftarrow> libsieve_do_getheader cl c s;
       (if r \<noteq> SIEVE2_OK then Some (False, c) else exists_names cl c sl)
     }"

fun flag_present :: "flaglist \<Rightarrow> string \<Rightarrow> bool option" where
  "flag_present FEnd s = Some False"
| "flag_present (FNode f l) s = (if strcasecmp f s = 0 then Some True else flag_present l s)"
| "flag_present FFreed s = None"

fun hasflag_names :: "flaglist \<Rightarrow> string list \<Rightarrow> bool option" where
  "hasflag_names fl [] = Some False"
| "hasflag_names fl (s # sl) =
     do { b \<leftarrow> flag_present fl s; (if b then Some True else hasflag_names fl sl) }"

text \<open>
  \<^verbatim>\<open>static_evaltest\<close>; \<^verbatim>\<open>anyof\<close> and \<^verbatim>\<open>allof\<close> run over their lists, the latter
  evaluating each test twice while it holds.
\<close>

fun static_evaltest :: "'w client \<Rightarrow> 'w sieve2_context \<Rightarrow> test option \<Rightarrow> (bool \<times> 'w sieve2_context) option"
  and evaltest_node :: "'w client \<Rightarrow> 'w sieve2_context \<Rightarrow> test \<Rightarrow> (bool \<times> 'w sieve2_context) option"
  and evaltest_any :: "'w client \<Rightarrow> 'w sieve2_context \<Rightarrow> test option list \<Rightarrow> (bool \<times> 'w sieve2_context) option"
  and evaltest_all :: "'w client \<Rightarrow> 'w sieve2_context \<Rightarrow> test option list \<Rightarrow> (bool \<times> 'w sieve2_context) option"
  where
  "static_evaltest cl c None = Some (False, c)"
| "static_evaltest cl c (Some t) = evaltest_node cl c t"
| "evaltest_node cl c (Address comptag cmp sl pl addrpart) =
     address_names cl False comptag cmp pl (address_part_of addrpart) c sl"
| "evaltest_node cl c (Envelope comptag cmp sl pl addrpart) =
     address_names cl True comptag cmp pl (address_part_of addrpart) c sl"
| "evaltest_node cl c (Anyof ts) = evaltest_any cl c ts"
| "evaltest_node cl c (Allof ts) = evaltest_all cl c ts"
| "evaltest_node cl c (Exists sl) = exists_names cl c sl"
| "evaltest_node cl c Sfalse = Some (False, c)"
| "evaltest_node cl c Strue = Some (True, c)"
| "evaltest_node cl c (Header comptag cmp sl pl) = header_names cl comptag cmp pl c sl"
| "evaltest_node cl c (Hasflag _ sl) = do { b \<leftarrow> hasflag_names (slflags c) sl; Some (b, c) }"
| "evaltest_node cl c (Tnot t) = do { (b, c) \<leftarrow> static_evaltest cl c t; Some (\<not> b, c) }"
| "evaltest_node cl c (Tsize tag n) =
     do {
       (r, sz, c) \<leftarrow> libsieve_do_getsize cl c;
       Some (if r \<noteq> SIEVE2_OK then False else if tag = tok_OVER then n < sz else sz < n, c)
     }"
| "evaltest_any cl c [] = Some (False, c)"
| "evaltest_any cl c (t # ts) =
     do { (b, c) \<leftarrow> static_evaltest cl c t; (if b then Some (True, c) else evaltest_any cl c ts) }"
| "evaltest_all cl c [] = Some (True, c)"
| "evaltest_all cl c (t # ts) =
     do {
       (res, c) \<leftarrow> static_evaltest cl c t;
       (again, c) \<leftarrow> static_evaltest cl c t;
       (if again \<and> res then evaltest_all cl c ts else Some (False, c))
     }"

end
