(* ===== verification/Vacation.thy ===== *)
theory Vacation
  imports Script
begin

text \<open>
  The vacation command of \<^verbatim>\<open>libsieve_eval\<close>, \<^verbatim>\<open>src/sv_interface/script.c\<close>: the headers
  that suppress a reply, the checks on the envelope, the search for the user's address in the
  message, subject and handle of the reply. The local \<^verbatim>\<open>body\<close> is a \<open>charpp\<close>; it is written
  through, which changes the header in the table, the static array \<^verbatim>\<open>notfound\<close> or the array of a
  client.
\<close>

section \<open>Writing through body\<close>

definition cell_of :: "string option \<Rightarrow> body_cell" where
  "cell_of v = (case v of None \<Rightarrow> BodyNull | Some b \<Rightarrow> Body b)"

text \<open>\<^verbatim>\<open>body[0] = v\<close>: the array as it is then, and the context.\<close>

definition array_write0 ::
  "'w client \<Rightarrow> 'w sieve2_context \<Rightarrow> charpp \<Rightarrow> string option \<Rightarrow> (charpp \<times> 'w sieve2_context) option" where
  "array_write0 cl c a v =
     (case a of
        Contents i \<Rightarrow>
          (if i < length (m_hash (message c))
           then (case m_hash (message c) ! i of
                   None \<Rightarrow> None
                 | Some h \<Rightarrow>
                     (if h_contents h = [] then None
                      else Some (a, c\<lparr>message := (message c)\<lparr>m_hash :=
                             (m_hash (message c))[i := Some (h\<lparr>h_contents := (h_contents h)[0 := cell_of v]\<rparr>)]\<rparr>\<rparr>)))
           else None)
      | Notfound \<Rightarrow> (if notfound c = [] then None else Some (a, c\<lparr>notfound := (notfound c)[0 := v]\<rparr>))
      | Memory l \<Rightarrow>
          (if l = [] then None else Some (Memory (l[0 := v]), c\<lparr>world := cl_written cl l v (world c)\<rparr>)))"

text \<open>The loop that skips leading white space; \<^verbatim>\<open>body[0]\<close> is not \<^verbatim>\<open>NULL\<close> where it is used.\<close>

definition skip_white ::
  "'w client \<Rightarrow> 'w sieve2_context \<Rightarrow> charpp \<Rightarrow> (string option \<times> charpp \<times> 'w sieve2_context) option" where
  "skip_white cl c body =
     do {
       s \<leftarrow> array_read c body 0;
       (case s of
          None \<Rightarrow> Some (None, body, c)
        | Some s \<Rightarrow>
            (case s of
               [] \<Rightarrow> Some (Some s, body, c)
             | x # _ \<Rightarrow>
                 (if c_isspace x
                  then do {
                    (body, c) \<leftarrow> array_write0 cl c body (Some (dropWhile c_isspace s));
                    Some (Some (dropWhile c_isspace s), body, c)
                  }
                  else Some (Some s, body, c))))
     }"

section \<open>Headers that suppress a reply\<close>

definition vacation_auto_submitted ::
  "'w client \<Rightarrow> 'w sieve2_context \<Rightarrow> (int \<times> 'w sieve2_context) option" where
  "vacation_auto_submitted cl c =
     do {
       (r, body, c) \<leftarrow> libsieve_do_getheader cl c ''auto-submitted'';
       (if r = SIEVE2_OK
        then do {
          (s, body, c) \<leftarrow> skip_white cl c body;
          s \<leftarrow> s;
          Some (if strcasecmp s ''no'' \<noteq> 0 then SIEVE2_DONE else SIEVE2_OK, c)
        }
        else Some (SIEVE2_OK, c))
     }"

fun vacation_list_headers ::
  "'w client \<Rightarrow> 'w sieve2_context \<Rightarrow> int \<Rightarrow> string list \<Rightarrow> (int \<times> 'w sieve2_context) option" where
  "vacation_list_headers cl c l [] = Some (l, c)"
| "vacation_list_headers cl c l (name # names) =
     (if l = SIEVE2_OK
      then do {
        (r, _, c) \<leftarrow> libsieve_do_getheader cl c name;
        vacation_list_headers cl c (if r = SIEVE2_OK then SIEVE2_DONE else l) names
      }
      else vacation_list_headers cl c l names)"

definition list_header_names :: "string list" where
  "list_header_names =
     [''List-Id'', ''List-Help'', ''List-Subscribe'', ''List-Unsubscribe'', ''List-Post'', ''List-Owner'',
      ''List-Archive'']"

text \<open>The header \<^verbatim>\<open>precedence\<close> is always asked for, and its array stays in \<^verbatim>\<open>body\<close>.\<close>

definition vacation_precedence ::
  "'w client \<Rightarrow> 'w sieve2_context \<Rightarrow> int \<Rightarrow> (int \<times> charpp \<times> 'w sieve2_context) option" where
  "vacation_precedence cl c l =
     do {
       (r, body, c) \<leftarrow> libsieve_do_getheader cl c ''precedence'';
       (if r = SIEVE2_OK
        then do {
          (s, body, c) \<leftarrow> skip_white cl c body;
          s \<leftarrow> s;
          Some (if strcasecmp s ''junk'' = 0 \<or> strcasecmp s ''bulk'' = 0 \<or> strcasecmp s ''list'' = 0
                then SIEVE2_DONE else l, body, c)
        }
        else Some (l, body, c))
     }"

definition vacation_suppressed ::
  "'w client \<Rightarrow> 'w sieve2_context \<Rightarrow> (int \<times> charpp \<times> 'w sieve2_context) option" where
  "vacation_suppressed cl c =
     do {
       (l, c) \<leftarrow> vacation_auto_submitted cl c;
       (l, c) \<leftarrow> vacation_list_headers cl c l list_header_names;
       vacation_precedence cl c l
     }"

section \<open>The envelope\<close>

text \<open>The first address of an envelope value, as a copy; \<open>None\<close> inside for \<^verbatim>\<open>NULL\<close>.\<close>

definition envelope_address ::
  "'w client \<Rightarrow> 'w sieve2_context \<Rightarrow> string \<Rightarrow> (string option \<times> 'w sieve2_context) option" where
  "envelope_address cl c s =
     do {
       (_, marker, c) \<leftarrow> libsieve_parse_address cl c s;
       (tmp, _, c) \<leftarrow> libsieve_get_address cl c ADDRESS_ALL marker 1;
       Some (tmp, c)
     }"

text \<open>
  \<^verbatim>\<open>libsieve_do_getenvelope(context, name, body)\<close>: the answer is written to \<^verbatim>\<open>body[0]\<close>, and
  read back from there.
\<close>

definition envelope_to_body ::
  "'w client \<Rightarrow> 'w sieve2_context \<Rightarrow> string \<Rightarrow> charpp \<Rightarrow> (int \<times> string option \<times> charpp \<times> 'w sieve2_context) option" where
  "envelope_to_body cl c name body =
     do {
       (l, e, c) \<leftarrow> libsieve_do_getenvelope cl c name;
       (body, c) \<leftarrow> (case e of None \<Rightarrow> Some (body, c) | Some v \<Rightarrow> array_write0 cl c body v);
       v \<leftarrow> array_read c body 0;
       Some (l, v, body, c)
     }"

definition vacation_my_address ::
  "'w client \<Rightarrow> 'w sieve2_context \<Rightarrow> int \<Rightarrow> charpp \<Rightarrow> (int \<times> string option \<times> charpp \<times> 'w sieve2_context) option" where
  "vacation_my_address cl c l body =
     (if l = SIEVE2_OK
      then do {
        (l, v, body, c) \<leftarrow> envelope_to_body cl c ''to'' body;
        (case v of
           None \<Rightarrow> Some (l, None, body, c)
         | Some s \<Rightarrow> do { (myaddr, c) \<leftarrow> envelope_address cl c s; Some (l, myaddr, body, c) })
      }
      else Some (l, None, body, c))"

text \<open>The checks on the sender, in the order of the code.\<close>

definition vacation_sender_ok :: "string option \<Rightarrow> string option \<Rightarrow> string list \<Rightarrow> int" where
  "vacation_sender_ok myaddr reply_to addresses =
     (case reply_to of
        None \<Rightarrow> SIEVE2_DONE
      | Some reply_to \<Rightarrow>
          (let l = (if myaddr = Some reply_to then SIEVE2_DONE else SIEVE2_OK);
               l = (if l = SIEVE2_OK \<and> list_ex (\<lambda>s. s = reply_to) addresses then SIEVE2_DONE else l);
               l = (if l = SIEVE2_OK
                    then (if list_ex (\<lambda>s. myaddr = Some s) addresses then SIEVE2_OK else SIEVE2_DONE) else l)
           in if l = SIEVE2_OK \<and> sysaddr reply_to then SIEVE2_DONE else l))"

definition vacation_sender ::
  "'w client \<Rightarrow> 'w sieve2_context \<Rightarrow> int \<Rightarrow> charpp \<Rightarrow> string option \<Rightarrow> string list
     \<Rightarrow> (int \<times> string option \<times> 'w sieve2_context) option" where
  "vacation_sender cl c l body myaddr addresses =
     (if l = SIEVE2_OK
      then do {
        (l, v, body, c) \<leftarrow> envelope_to_body cl c ''from'' body;
        (case v of
           None \<Rightarrow> Some (l, None, c)
         | Some s \<Rightarrow>
             (if l = SIEVE2_OK
              then do {
                (reply_to, c) \<leftarrow> envelope_address cl c s;
                Some (vacation_sender_ok myaddr reply_to addresses, reply_to, c)
              }
              else Some (l, None, c)))
      }
      else Some (l, None, c))"

section \<open>The reply\<close>

definition recipient_header_names :: "string list" where
  "recipient_header_names = [''to'', ''cc'', ''bcc'', ''Resent-To'', ''Resent-Cc'', ''Resent-Bcc'']"

fun vacation_found ::
  "'w client \<Rightarrow> 'w sieve2_context \<Rightarrow> string option \<Rightarrow> string option \<Rightarrow> string list \<Rightarrow> string list
     \<Rightarrow> (string option \<times> 'w sieve2_context) option" where
  "vacation_found cl c found myaddr addresses [] = Some (found, c)"
| "vacation_found cl c found myaddr addresses (name # names) =
     (if found = None
      then do {
        (r, body, c) \<leftarrow> libsieve_do_getheader cl c name;
        (found, c) \<leftarrow> (if r = SIEVE2_OK then look_for_me cl c myaddr addresses body else Some (None, c));
        vacation_found cl c found myaddr addresses names
      }
      else Some (found, c))"

text \<open>The subject, in a buffer of 128 bytes.\<close>

definition vacation_subject ::
  "'w client \<Rightarrow> 'w sieve2_context \<Rightarrow> string option \<Rightarrow> (string \<times> 'w sieve2_context) option" where
  "vacation_subject cl c subject =
     (case subject of
        None \<Rightarrow>
          do {
            (r, s, c) \<leftarrow> libsieve_do_getheader cl c ''subject'';
            (if r \<noteq> SIEVE2_OK then Some (''Automated reply'', c)
             else do {
               s0 \<leftarrow> array_read c s 0;
               Some (case s0 of None \<Rightarrow> ''Automated reply'' | Some s0 \<Rightarrow> take 127 (''Auto: '' @ s0), c)
             })
          }
      | Some subject \<Rightarrow> Some (take 127 subject, c))"

text \<open>
  The handle. Its size \<^verbatim>\<open>j\<close> is an \<^verbatim>\<open>int\<close>; \<^verbatim>\<open>sprintf\<close> writes the string and its NUL into
  the block of \<^verbatim>\<open>j\<close> bytes. A negative size is refused by \<^verbatim>\<open>malloc\<close>, and the string would be
  written through \<^verbatim>\<open>NULL\<close>. The tree keeps the handle, which no later evaluation of the same tree
  reads: a tree is parsed, evaluated once and freed.
\<close>

definition int_string :: "int \<Rightarrow> string" where
  "int_string i = (if i < 0 then CHR ''-'' # dec_string (nat (- i)) else dec_string (nat i))"

definition or_empty :: "string option \<Rightarrow> string" where
  "or_empty p = (case p of None \<Rightarrow> [] | Some s \<Rightarrow> s)"

definition handle_text :: "vacation \<Rightarrow> string" where
  "handle_text v = or_empty (v_subject v) @ '':'' @ or_empty (v_from v) @ '':'' @ v_message v @ '':'' @ int_string (v_mime v)"

definition vacation_handle :: "vacation \<Rightarrow> string option" where
  "vacation_handle v =
     (case v_handle v of
        Some h \<Rightarrow> Some h
      | None \<Rightarrow>
          (let j = to_int32 (int (length (or_empty (v_subject v)) + length (or_empty (v_from v)) + length (v_message v) + 5))
           in if j < 0 then None
              else do {
                b \<leftarrow> blk_write (replicate (nat j) None) 0 (handle_text v @ [CHR 0x00]);
                block_cstr b
              }))"

definition eval_vacation ::
  "'w client \<Rightarrow> 'w sieve2_context \<Rightarrow> vacation \<Rightarrow> (int \<times> 'w sieve2_context) option" where
  "eval_vacation cl c v =
     do {
       (l, body, c) \<leftarrow> vacation_suppressed cl c;
       (l, myaddr, body, c) \<leftarrow> vacation_my_address cl c l body;
       (l, reply_to, c) \<leftarrow> vacation_sender cl c l body myaddr (v_addresses v);
       (found, c) \<leftarrow>
         (if l = SIEVE2_OK
          then vacation_found cl c (v_from v) myaddr (v_addresses v) recipient_header_names
          else Some (None, c));
       let l = (if l = SIEVE2_OK \<and> found = None then SIEVE2_DONE else l);
       (if l = SIEVE2_OK
        then do {
          (subj, c) \<leftarrow> vacation_subject cl c (v_subject v);
          handle \<leftarrow> vacation_handle v;
          libsieve_do_vacation cl c reply_to found subj (v_message v) handle (v_days v) (v_mime v)
        }
        else Some (if l \<noteq> SIEVE2_DONE then - 1 else 0, c))
     }"

end
