(* ===== verification/Eval.thy ===== *)
theory Eval
  imports Vacation
begin

text \<open>
  The commands of a script, \<^verbatim>\<open>libsieve_eval\<close> in \<^verbatim>\<open>src/sv_interface/script.c\<close>: the actions, the
  flag commands on the context's list, and the loop with its nested blocks.
\<close>

section \<open>Flags\<close>

text \<open>\<^verbatim>\<open>libsieve_free_sl_only\<close> of the context's list reads every node.\<close>

definition free_flags :: "flaglist \<Rightarrow> unit option" where
  "free_flags l = map_option (\<lambda>_. ()) (flags_read l)"

text \<open>
  \<^verbatim>\<open>setflag\<close> frees the nodes and then links the new one to the first of them, if there was one.
\<close>

definition eval_setflag :: "flaglist \<Rightarrow> string list \<Rightarrow> flaglist option" where
  "eval_setflag fl sl =
     (case sl of
        [] \<Rightarrow> None
      | s # _ \<Rightarrow> do { free_flags fl; Some (FNode s (if fl = FEnd then FEnd else FFreed)) })"

fun eval_addflag :: "flaglist \<Rightarrow> string list \<Rightarrow> flaglist option" where
  "eval_addflag fl [] = Some fl"
| "eval_addflag fl (s # sl) =
     do { found \<leftarrow> flag_present fl s; eval_addflag (if found then fl else FNode s fl) sl }"

text \<open>
  \<^verbatim>\<open>removeflag\<close>: a node behind another one is unlinked and freed, a match at the head frees the
  whole list.
\<close>

fun unlink_flag :: "flaglist \<Rightarrow> string \<Rightarrow> flaglist option" where
  "unlink_flag FEnd s = Some FEnd"
| "unlink_flag (FNode f l) s = (if strcasecmp f s = 0 then Some l else map_option (FNode f) (unlink_flag l s))"
| "unlink_flag FFreed s = None"

fun remove_flag :: "flaglist \<Rightarrow> string \<Rightarrow> flaglist option" where
  "remove_flag FEnd s = Some FEnd"
| "remove_flag (FNode f l) s =
     (if strcasecmp f s = 0 then do { free_flags (FNode f l); Some FEnd }
      else map_option (FNode f) (unlink_flag l s))"
| "remove_flag FFreed s = None"

fun eval_removeflag :: "flaglist \<Rightarrow> string list \<Rightarrow> flaglist option" where
  "eval_removeflag fl [] = Some fl"
| "eval_removeflag fl (s # sl) = do { fl \<leftarrow> remove_flag fl s; eval_removeflag fl sl }"

section \<open>Commands\<close>

definition with_errmsg ::
  "string \<Rightarrow> string option \<Rightarrow> int \<times> 'w sieve2_context \<Rightarrow> int \<times> string option \<times> 'w sieve2_context" where
  "with_errmsg msg errmsg rc = (fst rc, if fst rc = SIEVE2_ERROR_EXEC then Some msg else errmsg, snd rc)"

definition with_flags :: "string option \<Rightarrow> 'w sieve2_context \<Rightarrow> flaglist \<Rightarrow> int \<times> string option \<times> 'w sieve2_context" where
  "with_flags errmsg c fl = (0, errmsg, c\<lparr>slflags := fl\<rparr>)"

text \<open>
  \<^verbatim>\<open>libsieve_eval\<close>: the result, the out parameter \<^verbatim>\<open>errmsg\<close> and the context. The loop stops at
  the first command with a result other than 0.
\<close>

fun libsieve_eval ::
  "'w client \<Rightarrow> 'w sieve2_context \<Rightarrow> command list \<Rightarrow> string option
     \<Rightarrow> (int \<times> string option \<times> 'w sieve2_context) option"
  and eval_command ::
  "'w client \<Rightarrow> 'w sieve2_context \<Rightarrow> command \<Rightarrow> string option
     \<Rightarrow> (int \<times> string option \<times> 'w sieve2_context) option" where
  "libsieve_eval cl c [] errmsg = Some (0, errmsg, c)"
| "libsieve_eval cl c (cmd # cmds) errmsg =
     do {
       (res, errmsg, c) \<leftarrow> eval_command cl c cmd errmsg;
       (if res \<noteq> 0 then Some (res, errmsg, c) else libsieve_eval cl c cmds errmsg)
     }"
| "eval_command cl c (Cond t y n) errmsg =
     do {
       (b, c) \<leftarrow> static_evaltest cl c t;
       (if b then libsieve_eval cl c y errmsg else libsieve_eval cl c n errmsg)
     }"
| "eval_command cl c (Rejct msg) errmsg =
     map_option (with_errmsg ''Reject can not be used with any other action'' errmsg) (libsieve_do_reject cl c msg)"
| "eval_command cl c (Fileinto mailbox fl) errmsg =
     map_option (with_errmsg ''Fileinto can not be used with Reject'' errmsg) (libsieve_do_fileinto cl c mailbox fl)"
| "eval_command cl c (Redirect addr) errmsg =
     map_option (with_errmsg ''Redirect can not be used with Reject'' errmsg) (libsieve_do_redirect cl c addr)"
| "eval_command cl c (Keep fl) errmsg =
     map_option (with_errmsg ''Keep can not be used with Reject'' errmsg) (libsieve_do_keep cl c fl)"
| "eval_command cl c (Vacation v) errmsg =
     map_option (with_errmsg ''Vacation can not be used with Reject or Vacation'' errmsg) (eval_vacation cl c v)"
| "eval_command cl c Stop errmsg = Some (1, errmsg, c)"
| "eval_command cl c Discard errmsg =
     do { (res, c) \<leftarrow> libsieve_do_discard cl c; Some (res, errmsg, c) }"
| "eval_command cl c (Setflag sl) errmsg = map_option (with_flags errmsg c) (eval_setflag (slflags c) sl)"
| "eval_command cl c (Addflag sl) errmsg = map_option (with_flags errmsg c) (eval_addflag (slflags c) sl)"
| "eval_command cl c (Removeflag sl) errmsg = map_option (with_flags errmsg c) (eval_removeflag (slflags c) sl)"
| "eval_command cl c (Notify n) errmsg =
     do {
       (res, c) \<leftarrow> libsieve_do_notify cl c (n_id n) (n_method n) (n_options n) (n_priority n) (n_message n);
       Some (res, errmsg, c)
     }"
| "eval_command cl c Validnotif errmsg = Some (0, errmsg, c)"

end
