(* ===== verification/Exceptions.thy ===== *)
theory Exceptions
  imports Prelude
begin

text \<open>
  The exception macros of \<^verbatim>\<open>src/sv_util/exception.h\<close> and the functions of
  \<^verbatim>\<open>exception.c\<close>. A \<^verbatim>\<open>try\<close> block has a local \<^verbatim>\<open>struct _exceptionContext_\<close>, here a number (its
  address) that is mapped to its contents while the block is active; the global
  \<^verbatim>\<open>_currentExceptionContext_\<close> is such a number or \<^verbatim>\<open>NULL\<close>. Following it to a block
  that is gone is undefined (\<open>None\<close>). A protected pointer is the pair of its number and the number of
  its function.
\<close>

type_synonym protected_ptr = "nat \<times> nat"

record exception_context =
  ec_next :: "nat option"
  ec_stack :: "protected_ptr list"

record exceptions =
  ex_current :: "nat option"
  ex_frames :: "nat \<Rightarrow> exception_context option"

definition no_exceptions :: exceptions where
  "no_exceptions = \<lparr>ex_current = None, ex_frames = (\<lambda>_. None)\<rparr>"

text \<open>
  \<^verbatim>\<open>try\<close>: the local context becomes the current one, and \<^verbatim>\<open>setjmp\<close> returns 0. The second
  component is the local \<^verbatim>\<open>_returnExceptionContext_\<close>, the outermost context a function entered
  with; \<open>outer\<close> is that of the enclosing block, if there is one.
\<close>

definition exc_try :: "nat \<Rightarrow> nat option \<Rightarrow> exceptions \<Rightarrow> exceptions \<times> nat option" where
  "exc_try a outer e =
     (e\<lparr>ex_frames := (ex_frames e)(a \<mapsto> \<lparr>ec_next = ex_current e, ec_stack = []\<rparr>), ex_current := Some a\<rparr>,
      if outer = None then ex_current e else outer)"

text \<open>\<^verbatim>\<open>catch\<close>, once its code has matched: the current context is popped.\<close>

definition exc_pop :: "exceptions \<Rightarrow> exceptions option" where
  "exc_pop e =
     do {
       a \<leftarrow> ex_current e;
       f \<leftarrow> ex_frames e a;
       Some (e\<lparr>ex_current := ec_next f\<rparr>)
     }"

text \<open>\<^verbatim>\<open>endtry\<close> pops the block's own context if it still is the current one; the block ends.\<close>

definition exc_endtry :: "nat \<Rightarrow> exceptions \<Rightarrow> exceptions option" where
  "exc_endtry a e =
     do {
       e \<leftarrow> (if ex_current e = Some a then exc_pop e else Some e);
       Some (e\<lparr>ex_frames := (ex_frames e)(a := None)\<rparr>)
     }"

text \<open>
  Leaving a block with a plain \<^verbatim>\<open>return\<close> ends the block and touches nothing else;
  \<^verbatim>\<open>return_try\<close> also resets the current context.
\<close>

definition exc_return :: "nat \<Rightarrow> exceptions \<Rightarrow> exceptions" where
  "exc_return a e = e\<lparr>ex_frames := (ex_frames e)(a := None)\<rparr>"

definition exc_return_try :: "nat \<Rightarrow> nat option \<Rightarrow> exceptions \<Rightarrow> exceptions" where
  "exc_return_try a ret e = exc_return a (e\<lparr>ex_current := ret\<rparr>)"

text \<open>
  \<^verbatim>\<open>_exceptionThrow_\<close>: the process exits when there is no context; otherwise the functions of the
  protected pointers run in stack order and control jumps to the block.
\<close>

datatype thrown = Exit int | Jump nat "protected_ptr list"

definition exceptionThrow :: "int \<Rightarrow> exceptions \<Rightarrow> thrown option" where
  "exceptionThrow exn e =
     (case ex_current e of
        None \<Rightarrow> Some (Exit exn)
      | Some a \<Rightarrow> map_option (\<lambda>f. Jump a (ec_stack f)) (ex_frames e a))"

definition protectPtr :: "nat \<Rightarrow> nat \<Rightarrow> exceptions \<Rightarrow> exceptions option" where
  "protectPtr p fn e =
     (case ex_current e of
        None \<Rightarrow> Some e
      | Some a \<Rightarrow>
          do {
            f \<leftarrow> ex_frames e a;
            Some (e\<lparr>ex_frames := (ex_frames e)(a \<mapsto> f\<lparr>ec_stack := (p, fn) # ec_stack f\<rparr>)\<rparr>)
          })"

definition unprotectPtr :: "nat \<Rightarrow> exceptions \<Rightarrow> exceptions option" where
  "unprotectPtr p e =
     (case ex_current e of
        None \<Rightarrow> Some e
      | Some a \<Rightarrow>
          do {
            f \<leftarrow> ex_frames e a;
            Some (case ec_stack f of
                    [] \<Rightarrow> e
                  | (q, _) # st \<Rightarrow>
                      (if q = p then e\<lparr>ex_frames := (ex_frames e)(a \<mapsto> f\<lparr>ec_stack := st\<rparr>)\<rparr> else e))
          })"

section \<open>Properties\<close>

fun protect_all :: "protected_ptr list \<Rightarrow> exceptions \<Rightarrow> exceptions option" where
  "protect_all [] e = Some e"
| "protect_all ((p, fn) # ps) e = Option.bind (protectPtr p fn e) (protect_all ps)"

lemma protect_all_stack:
  assumes "ex_current e = Some a" and "ex_frames e a = Some f"
  shows "\<exists>e'. protect_all ps e = Some e' \<and> ex_current e' = Some a \<and>
    ex_frames e' = (ex_frames e)(a \<mapsto> f\<lparr>ec_stack := rev ps @ ec_stack f\<rparr>)"
  using assms
proof (induction ps arbitrary: e f)
  case Nil
  then show ?case by (simp add: fun_upd_idem)
next
  case (Cons x ps)
  obtain p fn where x: "x = (p, fn)" by (cases x)
  let ?f = "f\<lparr>ec_stack := (p, fn) # ec_stack f\<rparr>"
  let ?e = "e\<lparr>ex_frames := (ex_frames e)(a \<mapsto> ?f)\<rparr>"
  have "protectPtr p fn e = Some ?e" using Cons.prems by (simp add: protectPtr_def)
  then show ?case using Cons.IH [of ?e ?f] Cons.prems x by (auto simp: fun_eq_iff)
qed

text \<open>
  C22. A \<^verbatim>\<open>try\<close> block, after any pointers were protected in it: an exception runs their functions
  in the reverse order of protection and jumps to the block; \<^verbatim>\<open>endtry\<close> makes the enclosing block
  current again, so that blocks nest. But when the block is left by a plain \<^verbatim>\<open>return\<close> before
  an exception, as \<^verbatim>\<open>sieve2_execute\<close> leaves its block, the current context points to a frame
  that is gone, and the next exception thrown or pointer protected outside a new block reads it.
\<close>
theorem try_block:
  assumes "fst (exc_try a outer e) = e1"
  shows "\<exists>e2. protect_all ps e1 = Some e2 \<and> exceptionThrow exn e2 = Some (Jump a (rev ps)) \<and>
    (\<exists>e3. exc_endtry a e2 = Some e3 \<and> ex_current e3 = ex_current e \<and> ex_frames e3 = (ex_frames e)(a := None)) \<and>
    exceptionThrow exn (exc_return a e2) = None \<and> protectPtr p fn (exc_return a e2) = None"
proof -
  let ?f = "\<lparr>ec_next = ex_current e, ec_stack = []\<rparr>"
  have e1: "ex_current e1 = Some a" "ex_frames e1 = (ex_frames e)(a \<mapsto> ?f)" using assms by (auto simp: exc_try_def)
  from protect_all_stack [of e1 a ?f ps] e1 obtain e2 where "protect_all ps e1 = Some e2" "ex_current e2 = Some a"
    "ex_frames e2 = (ex_frames e)(a \<mapsto> ?f\<lparr>ec_stack := rev ps\<rparr>)" by auto
  then show ?thesis
    by (simp add: exceptionThrow_def exc_endtry_def exc_pop_def exc_return_def protectPtr_def)
qed

lemma try_block_witness:
  "\<exists>e2. protect_all [(1, 10), (2, 20)] (fst (exc_try 7 None no_exceptions)) = Some e2 \<and>
    exceptionThrow 5 e2 = Some (Jump 7 [(2, 20), (1, 10)]) \<and> exceptionThrow 5 (exc_return 7 e2) = None"
  using try_block [OF HOL.refl, of "[(1, 10), (2, 20)]" 7 None no_exceptions 5] by auto

end
