(* ===== verification/Interface.thy ===== *)
theory Interface
  imports Eval Exceptions
begin

text \<open>
  The public functions of \<^verbatim>\<open>src/sv_interface/script2.c\<close>, and the function of
  \<^verbatim>\<open>message2.c\<close> that fills the header table of the context. The script parser
  (\<^verbatim>\<open>libsieve_sieve_parse_buffer\<close>) is an argument, which \<open>script_parser\<close> of \<open>Sieve_Trees\<close> instantiates: for
  a context it gives the commands, \<open>[]\<close> for \<^verbatim>\<open>NULL\<close>, or the exception it throws, and the context it leaves.
  A context pointer is an \<open>option\<close>; the outer \<open>None\<close> is an undefined access.
\<close>

section \<open>Error texts\<close>

definition sieve2_error_text :: "string option list" where
  "sieve2_error_text =
     [Some ''Sieve OK'', Some ''Sieve DONE'', Some ''Sieve Error: unspecified error'',
      Some ''Sieve Error: incomplete callbacks'', Some ''Sieve Error: parse error'',
      Some ''Sieve Error: execution error'', Some ''Sieve Error: internal error'',
      Some ''Sieve Error: out of memory'', Some ''Sieve Error: unsupported feature'',
      Some ''Sieve Error: incorrect argument passed'', Some ''Sieve Error: no more interpreters available'',
      Some ''Sieve Error: header could not be parsed'', Some ''Sieve Error: script was not retrieved'',
      Some ''Sieve Error: address could not be parsed'', None]"

definition sieve2_errstr :: "int \<Rightarrow> string option option" where
  "sieve2_errstr i =
     (if i < SIEVE2_OK \<or> SIEVE2_ERROR_LAST < i then Some (Some ''Invalid error code.'')
      else if nat i < length sieve2_error_text then Some (sieve2_error_text ! nat i) else None)"

section \<open>Allocating and freeing a context\<close>

text \<open>
  \<open>ok\<close> says whether the context could be allocated, \<open>okm\<close> and \<open>okh\<close> the same of the message and
  its table, whose failure the code does not look at: the context then has no message, and whatever
  uses it follows \<^verbatim>\<open>NULL\<close>. That context is the inner \<open>None\<close>, the outer one is \<^verbatim>\<open>NULL\<close>.
\<close>

definition sieve2_alloc :: "bool \<Rightarrow> bool \<Rightarrow> bool \<Rightarrow> 'w \<Rightarrow> int \<times> 'w sieve2_context option option" where
  "sieve2_alloc ok okm okh w =
     (if \<not> ok then (SIEVE2_ERROR_NOMEM, None)
      else (SIEVE2_OK, Some (map_option (\<lambda>m. zero_context m w) (snd (libsieve_message2_alloc okm okh)))))"

text \<open>\<^verbatim>\<open>freecache\<close>: the arrays of contents that are freed, slot by slot.\<close>

definition freecache :: "message \<Rightarrow> int \<times> body_cell list list" where
  "freecache m = (SIEVE2_OK, map h_contents (concat (map (\<lambda>h. case h of None \<Rightarrow> [] | Some h \<Rightarrow> [h]) (m_hash m))))"

definition libsieve_message2_free :: "message option \<Rightarrow> (int \<times> body_cell list list) option" where
  "libsieve_message2_free m = map_option freecache m"

text \<open>
  \<^verbatim>\<open>sieve2_free\<close>: the blocks of the tree and of the message; freeing the flags reads every node.
\<close>

definition sieve2_free ::
  "'w sieve2_context option option \<Rightarrow> (int \<times> heap_block list \<times> body_cell list list) option" where
  "sieve2_free context =
     (case context of
        None \<Rightarrow> Some (SIEVE2_ERROR_BADARGS, [], [])
      | Some c \<Rightarrow>
          do {
            c \<leftarrow> c;
            let tree = libsieve_free_tree (script_cmds (script c));
            (_, cache) \<leftarrow> libsieve_message2_free (Some (message c));
            free_flags (slflags c);
            Some (SIEVE2_OK, tree, cache)
          })"

section \<open>Callbacks\<close>

definition static_check_support :: "'w sieve2_context \<Rightarrow> 'w sieve2_context" where
  "static_check_support c =
     (let cb = callbacks c; s = support c;
          s = (if cb_fileinto cb \<noteq> None then s\<lparr>s_fileinto := True\<rparr> else s);
          s = (if cb_reject cb \<noteq> None then s\<lparr>s_reject := True\<rparr> else s);
          s = (if cb_getenvelope cb \<noteq> None then s\<lparr>s_envelope := True\<rparr> else s);
          s = (if cb_getsubaddress cb \<noteq> None then s\<lparr>s_subaddress := True\<rparr> else s);
          s = (if cb_vacation cb \<noteq> None then s\<lparr>s_vacation := True\<rparr> else s);
          s = (if cb_notify cb \<noteq> None then s\<lparr>s_notify := True\<rparr> else s)
      in c\<lparr>support := s\<rparr>)"

text \<open>The cases of \<^verbatim>\<open>CBCASE\<close>; the others are the \<^verbatim>\<open>default\<close> of the switch.\<close>

definition set_callback :: "sieve2_values \<Rightarrow> callback_func option \<Rightarrow> callbacks2 \<Rightarrow> callbacks2 option" where
  "set_callback v f cb =
     (case v of
        SIEVE2_ACTION_REDIRECT \<Rightarrow> Some (cb\<lparr>cb_redirect := f\<rparr>)
      | SIEVE2_ACTION_REJECT \<Rightarrow> Some (cb\<lparr>cb_reject := f\<rparr>)
      | SIEVE2_ACTION_DISCARD \<Rightarrow> Some (cb\<lparr>cb_discard := f\<rparr>)
      | SIEVE2_ACTION_FILEINTO \<Rightarrow> Some (cb\<lparr>cb_fileinto := f\<rparr>)
      | SIEVE2_ACTION_KEEP \<Rightarrow> Some (cb\<lparr>cb_keep := f\<rparr>)
      | SIEVE2_ACTION_NOTIFY \<Rightarrow> Some (cb\<lparr>cb_notify := f\<rparr>)
      | SIEVE2_ACTION_VACATION \<Rightarrow> Some (cb\<lparr>cb_vacation := f\<rparr>)
      | SIEVE2_ERRCALL_RUNTIME \<Rightarrow> Some (cb\<lparr>cb_err_runtime := f\<rparr>)
      | SIEVE2_ERRCALL_PARSE \<Rightarrow> Some (cb\<lparr>cb_err_parse := f\<rparr>)
      | SIEVE2_ERRCALL_HEADER \<Rightarrow> Some (cb\<lparr>cb_err_header := f\<rparr>)
      | SIEVE2_ERRCALL_ADDRESS \<Rightarrow> Some (cb\<lparr>cb_err_address := f\<rparr>)
      | SIEVE2_DEBUG_TRACE \<Rightarrow> Some (cb\<lparr>cb_debug_trace := f\<rparr>)
      | SIEVE2_SCRIPT_GETSCRIPT \<Rightarrow> Some (cb\<lparr>cb_getscript := f\<rparr>)
      | SIEVE2_MESSAGE_GETHEADER \<Rightarrow> Some (cb\<lparr>cb_getheader := f\<rparr>)
      | SIEVE2_MESSAGE_GETALLHEADERS \<Rightarrow> Some (cb\<lparr>cb_getallheaders := f\<rparr>)
      | SIEVE2_MESSAGE_GETSUBADDRESS \<Rightarrow> Some (cb\<lparr>cb_getsubaddress := f\<rparr>)
      | SIEVE2_MESSAGE_GETENVELOPE \<Rightarrow> Some (cb\<lparr>cb_getenvelope := f\<rparr>)
      | SIEVE2_MESSAGE_GETSIZE \<Rightarrow> Some (cb\<lparr>cb_getsize := f\<rparr>)
      | SIEVE2_MESSAGE_GETBODY \<Rightarrow> Some (cb\<lparr>cb_getbody := f\<rparr>)
      | _ \<Rightarrow> None)"

text \<open>
  The loop over the array of pairs, which ends at the value 0; running past the end of the array is
  undefined. A value without a case ends the registration at once.
\<close>

fun callbacks_loop ::
  "'w sieve2_context \<Rightarrow> (sieve2_values \<times> callback_func option) list \<Rightarrow> (int \<times> 'w sieve2_context) option" where
  "callbacks_loop c [] = None"
| "callbacks_loop c ((v, f) # cbs) =
     (if v = SIEVE2_VALUE_FIRST then Some (SIEVE2_OK, static_check_support c)
      else (case set_callback v f (callbacks c) of
              None \<Rightarrow> Some (SIEVE2_ERROR_UNSUPPORTED, c)
            | Some cb \<Rightarrow> callbacks_loop (c\<lparr>callbacks := cb\<rparr>) cbs))"

definition sieve2_callbacks ::
  "'w sieve2_context option \<Rightarrow> (sieve2_values \<times> callback_func option) list option
     \<Rightarrow> (int \<times> 'w sieve2_context option) option" where
  "sieve2_callbacks context cbs =
     (case context of
        None \<Rightarrow> Some (SIEVE2_ERROR_BADARGS, None)
      | Some c \<Rightarrow>
          (case cbs of
             None \<Rightarrow> Some (SIEVE2_ERROR_BADARGS, Some c)
           | Some cbs \<Rightarrow> do { (r, c) \<leftarrow> callbacks_loop c cbs; Some (r, Some c) }))"

section \<open>Filling the header table\<close>

text \<open>
  \<^verbatim>\<open>libsieve_headererror\<close> reports the line of the scanner. The message text is bison's.
\<close>

definition libsieve_headererror ::
  "'w client \<Rightarrow> nat \<Rightarrow> string \<Rightarrow> 'w sieve2_context \<Rightarrow> 'w sieve2_context option" where
  "libsieve_headererror cl line s c =
     do { (_, c) \<leftarrow> libsieve_do_error_header cl c (to_int32 (int line)) s; Some c }"

definition libsieve_message2_parseheader ::
  "'w client \<Rightarrow> 'w sieve2_context \<Rightarrow> (int \<times> 'w sieve2_context) option" where
  "libsieve_message2_parseheader cl c =
     do {
       h \<leftarrow> m_header (message c);
       (hl, cond, line) \<leftarrow> header_parse_text (header_scan c) h;
       let c = c\<lparr>header_scan := cond\<rparr>;
       (case hl of
          None \<Rightarrow> do { c \<leftarrow> libsieve_headererror cl line (cl_syntax_error cl) c; Some (SIEVE2_ERROR_HEADER, c) }
        | Some hl \<Rightarrow>
            do {
              (r, m) \<leftarrow> hash_fill (replicate (length hl) True) (message c) hl;
              Some (r, c\<lparr>message := m\<rparr>)
            })
     }"

section \<open>Validating and executing\<close>

datatype parse_result = Commands "command list" | Throws int

definition start_script :: "nat \<Rightarrow> 'w sieve2_context \<Rightarrow> 'w sieve2_context" where
  "start_script ud c = c\<lparr>user_data := ud, script := (script c)\<lparr>error_count := 0, error_lineno := 1\<rparr>\<rparr>"

definition get_script :: "'w client \<Rightarrow> 'w sieve2_context \<Rightarrow> (int \<times> 'w sieve2_context) option" where
  "get_script cl c =
     do {
       (r, s, n, c) \<leftarrow> libsieve_do_getscript cl c [] [];
       Some (r, c\<lparr>script := (script c)\<lparr>script_text := s, script_length := n\<rparr>\<rparr>)
     }"

definition with_cmds :: "command list \<Rightarrow> 'w sieve2_context \<Rightarrow> 'w sieve2_context" where
  "with_cmds cmds c = c\<lparr>script := (script c)\<lparr>script_cmds := cmds\<rparr>\<rparr>"

text \<open>
  \<^verbatim>\<open>sieve2_validate\<close>. An exception other than \<^verbatim>\<open>SIEVE2_ERROR_INTERNAL\<close> ends the \<^verbatim>\<open>try\<close>
  block, and the function goes on behind it.
\<close>

definition sieve2_validate ::
  "'w client \<Rightarrow> ('w sieve2_context \<Rightarrow> (parse_result \<times> 'w sieve2_context) option)
     \<Rightarrow> 'w sieve2_context option \<Rightarrow> nat \<Rightarrow> (int \<times> 'w sieve2_context option) option" where
  "sieve2_validate cl parse context ud =
     (case context of
        None \<Rightarrow> Some (SIEVE2_ERROR_BADARGS, None)
      | Some c \<Rightarrow>
          do {
            (r, c) \<leftarrow> get_script cl (start_script ud c);
            (if r \<noteq> SIEVE2_OK then Some (SIEVE2_ERROR_GETSCRIPT, Some c)
             else do {
               (p, c) \<leftarrow> parse c;
               (if p = Throws SIEVE2_ERROR_INTERNAL then Some (SIEVE2_ERROR_INTERNAL, Some c)
                else do {
                  let c = (case p of Commands cmds \<Rightarrow> with_cmds [] c | Throws _ \<Rightarrow> c);
                  Some (if error_count (script c) > 0 then SIEVE2_ERROR_PARSE else SIEVE2_OK, Some c)
                })
             })
          })"

text \<open>The header part of \<^verbatim>\<open>sieve2_execute\<close>; \<open>Some\<close> code where the function returns it.\<close>

definition execute_headers ::
  "'w client \<Rightarrow> 'w sieve2_context \<Rightarrow> (int option \<times> 'w sieve2_context) option" where
  "execute_headers cl c =
     (if cb_getheader (callbacks c) = None
      then (if cb_getallheaders (callbacks c) = None then Some (Some SIEVE2_ERROR_NOT_FINALIZED, c)
            else do {
              (r, h, c) \<leftarrow> libsieve_do_getallheaders cl c;
              let c = c\<lparr>message := (message c)\<lparr>m_header := h\<rparr>\<rparr>;
              (if r \<noteq> SIEVE2_OK then Some (Some SIEVE2_ERROR_HEADER, c)
               else do {
                 let c = c\<lparr>callbacks := (callbacks c)\<lparr>cb_getheader := Some Message2_getheader\<rparr>\<rparr>;
                 (r, c) \<leftarrow> libsieve_message2_parseheader cl c;
                 Some (if r \<noteq> SIEVE2_OK then Some SIEVE2_ERROR_HEADER else None, c)
               })
            })
      else Some (None, c))"

definition sieve2_execute ::
  "'w client \<Rightarrow> ('w sieve2_context \<Rightarrow> (parse_result \<times> 'w sieve2_context) option)
     \<Rightarrow> 'w sieve2_context option \<Rightarrow> nat \<Rightarrow> (int \<times> 'w sieve2_context option) option" where
  "sieve2_execute cl parse context ud =
     (case context of
        None \<Rightarrow> Some (SIEVE2_ERROR_BADARGS, None)
      | Some c \<Rightarrow>
          do {
            (r, c) \<leftarrow> get_script cl (start_script ud c);
            (if r \<noteq> SIEVE2_OK then Some (SIEVE2_ERROR_GETSCRIPT, Some c)
             else do {
               (early, c) \<leftarrow> execute_headers cl c;
               (case early of
                  Some r \<Rightarrow> Some (r, Some c)
                | None \<Rightarrow>
                    do {
                      (p, c) \<leftarrow> parse c;
                      (case p of
                         Throws e \<Rightarrow> Some (if e = SIEVE2_ERROR_INTERNAL then SIEVE2_ERROR_INTERNAL else SIEVE2_OK, Some c)
                       | Commands cmds \<Rightarrow>
                           (let c = with_cmds cmds c
                            in if error_count (script c) > 0 then Some (SIEVE2_ERROR_PARSE, Some (with_cmds [] c))
                               else do {
                                 (r, _, c) \<leftarrow> libsieve_eval cl c cmds None;
                                 Some (if r < 0 then SIEVE2_ERROR_EXEC else SIEVE2_OK, Some c)
                               }))
                    })
             })
          })"

section \<open>Extensions\<close>

definition extension_pieces :: "support2 \<Rightarrow> string list" where
  "extension_pieces s =
     [''regex '', ''imap4flags '', ''relational '',
      if s_subaddress s then ''subaddress '' else '''',
      if s_fileinto s then ''fileinto '' else '''',
      if s_reject s then ''reject '' else '''',
      if s_envelope s then ''envelope '' else '''',
      if s_vacation s then ''vacation '' else '''',
      if s_notify s then ''notify '' else '''']"

definition sieve2_listextensions :: "'w sieve2_context \<Rightarrow> string option" where
  "sieve2_listextensions c = strconcat_str (extension_pieces (support c))"

section \<open>Texts\<close>

text \<open>The macro \<^verbatim>\<open>NL\<close> on Windows and elsewhere.\<close>

definition NL :: "bool \<Rightarrow> string" where
  "NL windows = (if windows then [CHR 0x0D, CHR 0x0A] else [CHR 0x0A])"

definition sieve2_credits :: "bool \<Rightarrow> string" where
  "sieve2_credits windows = concat
     [''libSieve is written and maintained by Aaron Stone'',
      '' with many thanks to those who have helped to debug'',
      '' and to secure this fine piece of software.'',
      NL windows,
      '' '',
      NL windows,
      '' Special thanks to:'',
      '' Timo Sirainen,'',
      '' Oliver Tappe,'',
      '' Brandon Knitter.'',
      NL windows,
      '' '',
      NL windows,
      '' Portions of libSieve are based on the Sieve support'',
      '' of the Cyrus Email Server by Carnegie Mellon University.'']"

definition sieve2_license :: "bool \<Rightarrow> string" where
  "sieve2_license windows = concat
     [''libSieve is Copyright 2002, 2003, 2005 by Aaron Stone'',
      '' and is licensed under the GNU Lesser General Public License,'',
      '' version 2.1 and (at the author's option, not yours)'',
      '' any later version. A copy of the license should have'',
      '' been distributed with libSieve, and if not, may be'',
      '' obtained by writing to the Free Software Foundation:'',
      NL windows,
      ''     Free Software Foundation, Inc.    '',
      NL windows,
      ''     59 Temple Place, Suite 330        '',
      NL windows,
      ''     Boston, MA  02111-1307  USA       '',
      NL windows,
      NL windows,
      '' '',
      NL windows,
      '' Portions of libSieve are based on the Sieve support of the'',
      '' Cyrus Email Server by Carnegie Mellon University and are '',
      '' Copyright 1994, 1995, 1996, 1999 by Carnegie Mellon University.'',
      NL windows,
      '' '',
      NL windows,
      '' While CMU's license is not the (L)GPL, it does not preclude such'',
      '' combination in a larger work, such as libSieve, in a manner'',
      '' which places the work as a whole under the GNU (L)GPL. You may'',
      '' take CMU-only portions of libSieve and use them without regard'',
      '' to the GNU (L)GPL, but you may not do so to (L)GPL portions'',
      '' nor to the work as a whole or in any part in combination with'',
      '' code that has been licensed under the GNU (L)GPL.'',
      NL windows,
      '' '',
      NL windows,
      '' The GNU LGPL can be briefly summarized as follows: you may use'',
      '' this software together free software, and you may use this'',
      '' software together with proprietary software; in both cases'',
      '' this software must be distributed with full rights to its'',
      '' source code and redistribution in both source and binary form.'',
      NL windows,
      '' '',
      NL windows,
      '' This program is distributed in the hope that it will be useful,'',
      '' but WITHOUT ANY WARRANTY; without even the implied warranty of'',
      '' MERCHANTABILITY or FITNESS FOR A PARTICULAR PURPOSE.  See the'',
      '' GNU Lesser General Public License for more details.'']"

end
