(* ===== verification/Observer.thy ===== *)
theory Observer
  imports Vacation
begin

text \<open>
  What the questions of a script do to the context: the locale \<open>observer\<close> collects the laws that the
  calls of \<^verbatim>\<open>callbacks2.c\<close> and the writes through \<^verbatim>\<open>body\<close> obey, its lemmas carry them through
  address parsing, the tests and the checks of a vacation, and its interpretation says that none of
  them calls an action of the client or touches the flags, the actions or the callbacks of the context.
\<close>


section \<open>What a run does to the context\<close>

text \<open>
  \<open>runs R f c m\<close>: if the computation \<open>m\<close>, started in the context \<open>c\<close>, has a result, the context \<open>f\<close>
  reads off it is related to \<open>c\<close>.
\<close>

definition runs :: "('c \<Rightarrow> 'c \<Rightarrow> bool) \<Rightarrow> ('a \<Rightarrow> 'c) \<Rightarrow> 'c \<Rightarrow> 'a option \<Rightarrow> bool" where
  "runs R f c m \<longleftrightarrow> (\<forall>x. m = Some x \<longrightarrow> R c (f x))"

abbreviation third :: "'a \<times> 'b \<times> 'c \<Rightarrow> 'c" where "third x \<equiv> snd (snd x)"
abbreviation fourth :: "'a \<times> 'b \<times> 'c \<times> 'd \<Rightarrow> 'd" where "fourth x \<equiv> snd (snd (snd x))"

text \<open>
  The contract of the questions of \<^verbatim>\<open>callbacks2.c\<close> and of the writes through \<^verbatim>\<open>body\<close>: a preorder
  on contexts that each of them respects. Everything a test or the checks of a vacation do is made of
  these.
\<close>

locale observer =
  fixes cl :: "'w client" and R :: "'w sieve2_context \<Rightarrow> 'w sieve2_context \<Rightarrow> bool"
  assumes R_refl: "R c c"
    and R_trans: "R c c' \<Longrightarrow> R c' c'' \<Longrightarrow> R c c''"
    and getheader: "runs R third c (libsieve_do_getheader cl c s)"
    and getenvelope: "runs R third c (libsieve_do_getenvelope cl c s)"
    and getsize: "runs R third c (libsieve_do_getsize cl c)"
    and getsubaddress: "runs R third c (libsieve_do_getsubaddress cl c s)"
    and error_address: "runs R snd c (libsieve_do_error_address cl c s)"
    and scan: "R c (c\<lparr>addr_scan := x\<rparr>)"
    and errors: "R c (c\<lparr>exec_errors := n\<rparr>)"
    and write0: "runs R snd c (array_write0 cl c arr w)"
begin

lemma runs_Some: "R c (f x) \<Longrightarrow> runs R f c (Some x)" by (simp add: runs_def)

lemma runs_None: "runs R f c None" by (simp add: runs_def)

lemma runs_bind0: "runs R (\<lambda>c. c) c m \<Longrightarrow> (\<And>c1. runs R f c1 (k c1)) \<Longrightarrow> runs R f c (Option.bind m k)"
  using R_trans by (fastforce simp: runs_def bind_eq_Some_conv)

lemma runs_bind1: "(\<And>x. runs R f c (k x)) \<Longrightarrow> runs R f c (Option.bind m k)"
  by (auto simp: runs_def bind_eq_Some_conv)

lemma runs_bind2: "runs R snd c m \<Longrightarrow> (\<And>a c1. runs R f c1 (k a c1)) \<Longrightarrow> runs R f c (Option.bind m (\<lambda>(a, c1). k a c1))"
  using R_trans by (fastforce simp: runs_def bind_eq_Some_conv)

lemma runs_bind3:
  "runs R third c m \<Longrightarrow> (\<And>a b c1. runs R f c1 (k a b c1)) \<Longrightarrow> runs R f c (Option.bind m (\<lambda>(a, b, c1). k a b c1))"
  using R_trans by (fastforce simp: runs_def bind_eq_Some_conv)

lemma runs_bind4:
  "runs R fourth c m \<Longrightarrow> (\<And>a b d c1. runs R f c1 (k a b d c1)) \<Longrightarrow>
   runs R f c (Option.bind m (\<lambda>(a, b, d, c1). k a b d c1))"
  using R_trans by (fastforce simp: runs_def bind_eq_Some_conv)

lemma runs_if: "(b \<Longrightarrow> runs R f c x) \<Longrightarrow> (\<not> b \<Longrightarrow> runs R f c y) \<Longrightarrow> runs R f c (if b then x else y)"
  by simp

lemma runs_option: "(z = None \<Longrightarrow> runs R f c x) \<Longrightarrow> (\<And>w. z = Some w \<Longrightarrow> runs R f c (y w)) \<Longrightarrow>
  runs R f c (case z of None \<Rightarrow> x | Some w \<Rightarrow> y w)"
  by (cases z) auto

lemma runs_list: "(z = [] \<Longrightarrow> runs R f c x) \<Longrightarrow> (\<And>w ws. z = w # ws \<Longrightarrow> runs R f c (y w ws)) \<Longrightarrow>
  runs R f c (case z of [] \<Rightarrow> x | w # ws \<Rightarrow> y w ws)"
  by (cases z) auto

lemma runs_let: "runs R f c (k x) \<Longrightarrow> runs R f c (let y = x in k y)" by simp

lemmas binds = runs_bind4 runs_bind3 runs_bind2 runs_bind0
lemmas steps = runs_None runs_if runs_option runs_list runs_let

lemma errors_report: "runs R (\<lambda>c. c) c (report_address_errors cl ms c)"
proof (induction ms arbitrary: c)
  case (Cons m ms)
  have "runs R (\<lambda>c. c) c (libsieve_addrerror cl m c)"
    using errors error_address R_trans by (fastforce simp: libsieve_addrerror_def runs_def bind_eq_Some_conv)
  then show ?case using Cons by (auto intro: runs_bind0)
qed (simp add: runs_def R_refl)

lemma parse_address: "runs R third c (libsieve_parse_address cl c s)"
proof -
  have "runs R snd c (libsieve_addr_parse_buffer cl c s)"
    using scan errors_report R_trans
    by (fastforce simp: libsieve_addr_parse_buffer_def runs_def bind_eq_Some_conv)
  then show ?thesis unfolding libsieve_parse_address_def
    by (intro runs_bind2) (auto simp: runs_def R_refl)
qed

lemma get_address: "runs R third c (libsieve_get_address cl c part marker canon)"
  unfolding libsieve_get_address_def
  by (intro steps runs_bind1 runs_bind3 runs_Some getsubaddress; simp add: R_refl)

lemma look_alternative: "runs R snd c (look_for_alternative cl c addr sl)"
proof (induction sl arbitrary: c)
  case (Cons s sl)
  then show ?case unfolding look_for_alternative.simps
    by (intro runs_bind3 runs_bind1 runs_if runs_Some parse_address get_address; simp add: R_refl)
qed (simp add: runs_def R_refl)

lemma look_addresses: "runs R snd c (look_in_addresses cl c myaddr myaddrs as)"
proof (induction as arbitrary: c)
  case (Cons a as)
  then show ?case unfolding look_in_addresses.simps
    by (intro runs_bind3 runs_bind2 runs_if runs_option runs_Some get_address look_alternative; simp add: R_refl)
qed (simp add: runs_def R_refl)

lemma look_bodies: "runs R snd c (look_in_bodies cl c myaddr myaddrs cells)"
proof (induction cells arbitrary: c)
  case (Cons cell cells)
  show ?case unfolding look_in_bodies.simps
    by (rule runs_bind1) (intro runs_option runs_bind3 runs_bind2 runs_if runs_Some parse_address look_addresses Cons; simp add: R_refl)
qed (simp add: runs_def)

lemma look_me: "runs R snd c (look_for_me cl c myaddr myaddrs body)"
  unfolding look_for_me_def by (intro runs_option runs_bind1 look_bodies runs_Some; simp add: R_refl)

lemma val: "runs R third c (val_loop cl part counting cmp p c v as n)"
proof (induction as arbitrary: c v n)
  case Nil
  show ?case
    by (cases v; simp only: val_loop.simps)
      (intro runs_Some runs_bind1 runs_let runs_bind3 runs_if runs_list get_address; simp add: R_refl)+
next
  case (Cons a as)
  show ?case
    by (cases v; simp only: val_loop.simps)
      (intro runs_Some runs_bind1 runs_let runs_bind3 runs_if runs_list get_address; simp add: R_refl Cons)+
qed

lemma bodies: "runs R third c (address_bodies cl part counting cmp p c cells n)"
proof (induction cells arbitrary: c n)
  case (Cons cell cells)
  show ?case unfolding address_bodies.simps
    by (rule runs_bind1) (intro runs_option runs_bind3 runs_if runs_Some parse_address get_address val Cons; simp add: R_refl)
qed (simp add: runs_def)

lemma patterns: "runs R snd c (address_patterns cl part counting cmp c cells pl n)"
proof (induction pl arbitrary: c n)
  case (Cons p pl)
  show ?case unfolding address_patterns.simps
    by (intro runs_bind3 runs_bind1 runs_if runs_Some bodies Cons; simp add: R_refl)
qed (simp add: runs_def R_refl)

lemma names: "runs R snd c (address_names cl env comptag cmp pl part c sl)"
proof (induction sl arbitrary: c)
  case (Cons s sl)
  show ?case unfolding address_names.simps
  proof (rule runs_bind3)
    show "runs R third c (if env
        then do { (r, e, c) \<leftarrow> libsieve_do_getenvelope cl c s; e \<leftarrow> e; Some (r, Memory [e, None], c) }
        else libsieve_do_getheader cl c s)"
      by (intro runs_if runs_bind3 runs_bind1 runs_Some getenvelope getheader; simp add: R_refl)
  qed (intro runs_if runs_bind1 runs_bind2 runs_Some patterns Cons; simp add: R_refl)
qed (simp add: runs_def R_refl)

lemma hnames: "runs R snd c (header_names cl comptag cmp pl c sl)"
proof (induction sl arbitrary: c)
  case (Cons s sl)
  show ?case unfolding header_names.simps
    by (intro runs_bind3 runs_if runs_bind1 runs_Some getheader Cons; simp add: R_refl)
qed (simp add: runs_def R_refl)

lemma enames: "runs R snd c (exists_names cl c sl)"
proof (induction sl arbitrary: c)
  case (Cons s sl)
  show ?case unfolding exists_names.simps
    by (intro runs_bind3 runs_if runs_Some getheader Cons; simp add: R_refl)
qed (simp add: runs_def R_refl)

lemma evaltest_runs:
  "cl' = cl \<Longrightarrow> runs R snd c (static_evaltest cl' c t)" "cl' = cl \<Longrightarrow> runs R snd c (evaltest_node cl' c u)"
  "cl' = cl \<Longrightarrow> runs R snd c (evaltest_any cl' c ts)" "cl' = cl \<Longrightarrow> runs R snd c (evaltest_all cl' c us)"
proof (induction cl' c t and cl' c u and cl' c ts and cl' c us
    rule: static_evaltest_evaltest_node_evaltest_any_evaltest_all.induct)
  case (13 cl' c tag n)
  then show ?case using getsize [of c] by (auto simp: runs_def bind_eq_Some_conv)
next
  case (12 cl' c t)
  then show ?case by (auto simp: runs_def bind_eq_Some_conv)
next
  case (15 cl' c t ts)
  then have one: "runs R snd c (static_evaltest cl c t)" by simp
  have "runs R snd c1 (evaltest_any cl c1 ts)" if "static_evaltest cl c t = Some (False, c1)" for c1
    using "15.IH"(2) [of "(False, c1)" False c1] that "15.prems" by simp
  then show ?case using one R_trans 15(3) by (fastforce simp: runs_def bind_eq_Some_conv split: if_splits)
next
  case (17 cl' c t ts)
  show ?case unfolding runs_def
  proof (intro allI impI)
    fix x assume x: "evaltest_all cl' c (t # ts) = Some x"
    then obtain b c1 b2 c2 where one: "static_evaltest cl c t = Some (b, c1)" and two: "static_evaltest cl c1 t = Some (b2, c2)"
      and rest: "(if b2 \<and> b then evaltest_all cl c2 ts else Some (False, c2)) = Some x"
      using "17.prems" by (auto simp: bind_eq_Some_conv)
    have "R c c1" using "17.IH"(1) one "17.prems" by (auto simp: runs_def)
    moreover have "R c1 c2" using "17.IH"(2) [of "(b, c1)" b c1] one two "17.prems" by (auto simp: runs_def)
    moreover have "R c2 (snd x)"
    proof (cases "b2 \<and> b")
      case True
      then show ?thesis
        using "17.IH"(3) [of "(b, c1)" b c1 "(b2, c2)" b2 c2] one two rest "17.prems"
        by (cases x) (simp add: runs_def)
    next
      case False
      then have "snd x = c2" using rest by auto
      then show ?thesis using R_refl by simp
    qed
    ultimately show "R c (snd x)" using R_trans by blast
  qed
next
  case (11 cl' c x sl)
  then show ?case by (auto simp: runs_def bind_eq_Some_conv R_refl)
qed (simp_all add: names hnames enames runs_Some R_refl)

lemmas evaltest = evaltest_runs(1) [OF HOL.refl]

lemma skip: "runs R third c (skip_white cl c body)"
  unfolding skip_white_def
  by (rule runs_bind1) (intro runs_option runs_list runs_if runs_bind2 runs_Some write0; simp add: R_refl)

lemma list_headers: "runs R snd c (vacation_list_headers cl c l ns)"
proof (induction ns arbitrary: c l)
  case (Cons n ns)
  show ?case unfolding vacation_list_headers.simps
    by (intro runs_if runs_bind3 getheader Cons)
qed (simp add: runs_def R_refl)

lemma suppressed: "runs R third c (vacation_suppressed cl c)"
  unfolding vacation_suppressed_def vacation_auto_submitted_def vacation_precedence_def
  by (intro runs_bind3 runs_bind2 runs_if runs_bind1 runs_Some getheader skip list_headers; simp add: R_refl)

lemma envelope: "runs R fourth c (envelope_to_body cl c name body)"
  unfolding envelope_to_body_def
  by (intro runs_bind3 runs_bind2 runs_option runs_bind1 runs_Some getenvelope write0; simp add: R_refl)

lemma env_address: "runs R snd c (envelope_address cl c s)"
  unfolding envelope_address_def
  by (intro runs_bind3 runs_Some parse_address get_address; simp add: R_refl)

lemma my_address: "runs R fourth c (vacation_my_address cl c l body)"
  unfolding vacation_my_address_def
  by (intro runs_if runs_bind4 runs_option runs_bind2 runs_Some envelope env_address; simp add: R_refl)

lemma sender: "runs R third c (vacation_sender cl c l body myaddr as)"
  unfolding vacation_sender_def
  by (intro runs_if runs_bind4 runs_option runs_bind2 runs_Some envelope env_address; simp add: R_refl)

lemma found: "runs R snd c (vacation_found cl c fnd myaddr as ns)"
proof (induction ns arbitrary: c fnd)
  case (Cons n ns)
  show ?case unfolding vacation_found.simps
    by (intro runs_if runs_bind3 runs_bind2 runs_Some getheader look_me Cons; simp add: R_refl)
qed (simp add: runs_def R_refl)

lemma subject: "runs R snd c (vacation_subject cl c s)"
  unfolding vacation_subject_def
  by (intro runs_option runs_bind3 runs_if runs_bind1 runs_Some getheader; simp add: R_refl)

end

section \<open>Questions call no action\<close>

definition action_values :: "sieve2_values set" where
  "action_values =
     {SIEVE2_ACTION_REDIRECT, SIEVE2_ACTION_REJECT, SIEVE2_ACTION_DISCARD, SIEVE2_ACTION_FILEINTO,
      SIEVE2_ACTION_KEEP, SIEVE2_ACTION_NOTIFY, SIEVE2_ACTION_VACATION}"

definition quiet ::
  "('w \<times> sieve2_values list) sieve2_context \<Rightarrow> ('w \<times> sieve2_values list) sieve2_context \<Rightarrow> bool" where
  "quiet c c' \<longleftrightarrow> (idle c \<longrightarrow> idle c' \<and> actions c' = actions c \<and> callbacks c' = callbacks c \<and> slflags c' = slflags c \<and>
     script c' = script c \<and> (\<exists>l. snd (world c') = snd (world c) @ l \<and> set l \<inter> action_values = {}))"

lemma quiet_refl: "quiet c c"
  by (simp add: quiet_def)

lemma quiet_trans: "quiet c c' \<Longrightarrow> quiet c' c'' \<Longrightarrow> quiet c c''"
proof -
  assume a: "quiet c c'" "quiet c' c''"
  show ?thesis unfolding quiet_def
  proof
    assume "idle c"
    with a obtain l l' where l: "snd (world c') = snd (world c) @ l" "set l \<inter> action_values = {}"
      and l': "snd (world c'') = snd (world c') @ l'" "set l' \<inter> action_values = {}"
      and r: "idle c''" "actions c'' = actions c" "callbacks c'' = callbacks c" "slflags c'' = slflags c" "script c'' = script c"
      by (auto simp: quiet_def)
    have "snd (world c'') = snd (world c) @ (l @ l')" "set (l @ l') \<inter> action_values = {}" using l l' by auto
    then show "idle c'' \<and> actions c'' = actions c \<and> callbacks c'' = callbacks c \<and> slflags c'' = slflags c \<and> script c'' = script c \<and>
        (\<exists>l. snd (world c'') = snd (world c) @ l \<and> set l \<inter> action_values = {})" using r by blast
  qed
qed

lemma do_log:
  assumes "in_call v c" and "libsieve_callback_do (logging cl) c v = Some (r, c')"
  shows "frame c c' \<and> in_call v c' \<and> snd (world c') \<in> {snd (world c), snd (world c) @ [v]}"
proof -
  have fr: "frame c c'" "in_call v c'" using do_protocol [OF assms(2)] assms(1) by auto
  have "snd (world c') \<in> {snd (world c), snd (world c) @ [v]}"
  proof (cases "callback_of v (callbacks c)")
    case None
    then show ?thesis using assms(2) by (simp add: libsieve_callback_do_def)
  next
    case (Some f)
    show ?thesis
    proof (cases f)
      case (User i)
      obtain w log where w: "world c = (w, log)" by (cases "world c")
      obtain rs w' where run: "cl_call cl i (user_data c) (call c) w = (rs, w')" by fastforce
      have "c' = fold apply_request rs (c\<lparr>world := (w', log @ [call_code (call c)])\<rparr>)"
        using assms(2) run by (simp add: libsieve_callback_do_def run_callback_def Some User logging_def w)
      then have "world c' = (w', log @ [v])"
        using assms(1) requests_protocol [of "c\<lparr>world := (w', log @ [v])\<rparr>" rs] by (simp add: in_call_def)
      then show ?thesis by (simp add: w)
    next
      case Message2_getheader
      then show ?thesis using assms(2) getheader_protocol [of c _ c' v]
        by (auto simp: libsieve_callback_do_def run_callback_def Some bind_eq_Some_conv)
    qed
  qed
  then show ?thesis using fr by blast
qed

lemma question_quiet:
  assumes "idle c \<Longrightarrow> filled v c c1" and "v \<notin> action_values"
    and "libsieve_callback_do (logging cl) c1 v = Some (r, c2)" and "libsieve_callback_end c2 v = Some (r', c3)"
  shows "quiet c c3"
  unfolding quiet_def
proof
  assume "idle c"
  then have f: "frame c c1" "world c1 = world c" "in_call v c1" using assms(1) by (auto simp: filled_def)
  note d = do_log [OF f(3) assms(3)]
  have e: "idle c3" "frame c2 c3" "world c3 = world c2" using end_protocol [of v c2] d assms(4) by auto
  have fr: "frame c c3" using f(1) d e(2) frame_trans by blast
  have "\<exists>l. snd (world c3) = snd (world c) @ l \<and> set l \<inter> action_values = {}"
    using d e(3) f(2) assms(2) by (elim conjE insertE) auto
  then show "idle c3 \<and> actions c3 = actions c \<and> callbacks c3 = callbacks c \<and> slflags c3 = slflags c \<and> script c3 = script c \<and>
      (\<exists>l. snd (world c3) = snd (world c) @ l \<and> set l \<inter> action_values = {})"
    using e(1) frame_fields [OF fr] by simp
qed

lemma filled_chain [protocol]:
  "idle c \<Longrightarrow> filled v c (snd (sieve2_setvalue_string n s (begin_call v c)))"
  by (intro protocol)

lemma getheader_quiet: "runs quiet third c (libsieve_do_getheader (logging cl) c s)"
proof -
  have v: "SIEVE2_MESSAGE_GETHEADER \<notin> action_values" by (simp add: action_values_def)
  show ?thesis
    using question_quiet [OF filled_chain v, of c]
    by (auto simp: runs_def libsieve_do_getheader_def Let_def bind_eq_Some_conv split: option.split_asm if_splits)
qed

lemma getenvelope_quiet: "runs quiet third c (libsieve_do_getenvelope (logging cl) c s)"
proof -
  have v: "SIEVE2_MESSAGE_GETENVELOPE \<notin> action_values" by (simp add: action_values_def)
  show ?thesis
    using question_quiet [OF filled_chain v, of c]
    by (auto simp: runs_def libsieve_do_getenvelope_def Let_def bind_eq_Some_conv)
qed

lemma getsubaddress_quiet: "runs quiet third c (libsieve_do_getsubaddress (logging cl) c s)"
proof -
  have v: "SIEVE2_MESSAGE_GETSUBADDRESS \<notin> action_values" by (simp add: action_values_def)
  show ?thesis
    using question_quiet [OF filled_chain v, of c]
    by (auto simp: runs_def libsieve_do_getsubaddress_def Let_def bind_eq_Some_conv)
qed

lemma getsize_quiet: "runs quiet third c (libsieve_do_getsize (logging cl) c)"
proof -
  have v: "SIEVE2_MESSAGE_GETSIZE \<notin> action_values" by (simp add: action_values_def)
  show ?thesis
    using question_quiet [OF filled_begin v, of c]
    by (auto simp: runs_def libsieve_do_getsize_def Let_def bind_eq_Some_conv)
qed

lemma error_address_quiet: "runs quiet snd c (libsieve_do_error_address (logging cl) c s)"
proof -
  have v: "SIEVE2_ERRCALL_ADDRESS \<notin> action_values" by (simp add: action_values_def)
  show ?thesis
    using question_quiet [OF filled_chain v, of c]
    by (auto simp: runs_def libsieve_do_error_address_def do_and_end_def Let_def bind_eq_Some_conv)
qed

lemma write0_quiet: "runs quiet snd c (array_write0 (logging cl) c arr v)"
  by (cases "world c")
    (auto simp: runs_def array_write0_def quiet_def idle_def logging_def split: charpp.split_asm option.split_asm if_splits)

interpretation questions: observer "logging cl" quiet
proof
  show "quiet c c" for c :: "('a \<times> sieve2_values list) sieve2_context" by (rule quiet_refl)
  show "quiet c c' \<Longrightarrow> quiet c' c'' \<Longrightarrow> quiet c c''" for c c' c'' :: "('a \<times> sieve2_values list) sieve2_context"
    by (rule quiet_trans)
qed (rule getheader_quiet getenvelope_quiet getsize_quiet getsubaddress_quiet error_address_quiet write0_quiet
    | simp add: quiet_def idle_def)+

end
