(* ===== verification/Internal_Headers.thy ===== *)
theory Internal_Headers
  imports Callbacks
begin

text \<open>
  The internal header callback (\<^verbatim>\<open>libsieve_message2_getheader\<close>) seen from the tests: what
  \<^verbatim>\<open>libsieve_do_getheader\<close> does when the library answers itself from the header table.
\<close>


text \<open>The call in which the library asks itself for a header, its slots spelt out.\<close>

definition asking :: "'w sieve2_context \<Rightarrow> string \<Rightarrow> val \<Rightarrow> slot_name \<Rightarrow> call_slot list \<Rightarrow> 'w sieve2_context" where
  "asking c q w n ws = c\<lparr>call := \<lparr>call_begin = True, call_end = False, call_code = SIEVE2_MESSAGE_GETHEADER,
     call_values = (Name ''header'', ValString (Some q)) # (n, w) # ws\<rparr>\<rparr>"

lemma asking_begin:
  assumes "idle c" and "2 \<le> length (call_values (call c))"
  obtains w ws where "set_string ''header'' (Some q) (begin_call SIEVE2_MESSAGE_GETHEADER c) = asking c q w NoName ws"
    and "\<forall>s \<in> set ws. fst s = NoName" and "length ws + 2 = length (call_values (call c))"
proof -
  obtain s0 s1 vs where vs: "call_values (call c) = s0 # s1 # vs"
    using assms(2) by (metis (no_types) One_nat_def Suc_1 Suc_le_length_iff)
  have clear: "fst (clear_slot s) = NoName" for s by (cases s rule: clear_slot.cases) auto
  obtain w0 w1 where w: "clear_slot s0 = (NoName, w0)" "clear_slot s1 = (NoName, w1)"
    using clear by (metis prod.collapse)
  show ?thesis
  proof (rule that)
    show "set_string ''header'' (Some q) (begin_call SIEVE2_MESSAGE_GETHEADER c) = asking c q w1 NoName (map clear_slot vs)"
      using assms(1) by (simp add: libsieve_callback_begin_def idle_def asking_def sieve2_setvalue_string_def
          setvalue_def vs w with_values_def)
  qed (use clear vs in auto)
qed

lemma asking_in_call: "\<forall>s \<in> set ws. fst s = NoName \<Longrightarrow> n \<noteq> Freed \<Longrightarrow> in_call SIEVE2_MESSAGE_GETHEADER (asking c q w n ws)"
  by (auto simp: in_call_def asking_def image_iff)

lemma asking_simps [simp]:
  "message (asking c q w n ws) = message c" "callbacks (asking c q w n ws) = callbacks c"
  "sieve2_getvalue_string (asking c q w n ws) (Some ''header'') = Some (Some q)"
  by (simp_all add: asking_def sieve2_getvalue_string_def)

lemma asking_body:
  "set_stringlist ''body'' (Some a) (asking c q w NoName ws) = asking c q (ValStringlist (Some a)) (Name ''body'') ws"
  "sieve2_getvalue_stringlist (asking c q (ValStringlist (Some a)) (Name ''body'') ws) (Some ''body'') = Some (Some a)"
  by (simp_all add: asking_def sieve2_setvalue_stringlist_def setvalue_def with_values_def sieve2_getvalue_stringlist_def)

lemma asking_no_body:
  assumes "\<forall>s \<in> set ws. fst s = NoName"
  shows "sieve2_getvalue_stringlist (asking c q w NoName ws) (Some ''body'') = Some None"
proof -
  have "get_slot as_stringlist ws ''body'' = Some None" using assms by (induction ws) (auto split: option.splits)
  then show ?thesis by (simp add: sieve2_getvalue_stringlist_def asking_def split: option.splits)
qed

text \<open>The end of that call.\<close>

lemma asking_end:
  assumes "\<forall>s \<in> set ws. fst s = NoName" and "n \<noteq> Freed" and "length ws + 2 = length (call_values (call c))"
  obtains c' where "libsieve_callback_end (asking c q w n ws) SIEVE2_MESSAGE_GETHEADER = Some (SIEVE2_OK, c')"
    and "frame c c'" and "idle c'" and "world c' = world c" and "length (call_values (call c')) = length (call_values (call c))"
proof -
  have "in_call SIEVE2_MESSAGE_GETHEADER (asking c q w n ws)" by (rule asking_in_call [OF assms(1,2)])
  then have "libsieve_callback_end (asking c q w n ws) SIEVE2_MESSAGE_GETHEADER = Some (SIEVE2_OK,
      (asking c q w n ws)\<lparr>call := (call (asking c q w n ws))\<lparr>call_end := True, call_code := SIEVE2_VALUE_FIRST,
         call_values := map free_slot (call_values (call (asking c q w n ws)))\<rparr>\<rparr>)"
    by (auto simp: libsieve_callback_end_def in_call_def)
  then show ?thesis
    by (rule that) (use assms(3) in \<open>auto simp: frame_def asking_def idle_def\<close>)
qed

text \<open>
  The internal header callback under the protocol of the client's: from an idle context whose
  message holds a well-formed table, asking for a header of any 7-bit name is defined, leaves
  everything but the current call alone, and yields exactly the bodies that the table has for the
  lower-cased name.
\<close>

definition internal_headers :: "'w sieve2_context \<Rightarrow> bool" where
  "internal_headers c \<longleftrightarrow> idle c \<and> cb_getheader (callbacks c) = Some Message2_getheader \<and> table_inv (message c) \<and>
     2 \<le> length (call_values (call c))"

lemma internal_headers_frame:
  assumes "internal_headers c" and "frame c c'" and "idle c'" and "length (call_values (call c')) = length (call_values (call c))"
  shows "internal_headers c'"
  using assms frame_fields [OF assms(2)] by (simp add: internal_headers_def)

lemma getheader_absent:
  assumes inv: "internal_headers c" and q: "seven_bit q" and absent: "map c_tolower q \<notin> table_keys (message c)"
  obtains c' where "libsieve_do_getheader cl c q = Some (SIEVE2_DONE, Notfound, c')"
    and "frame c c'" and "idle c'" and "world c' = world c" and "length (call_values (call c')) = length (call_values (call c))"
proof -
  have I: "idle c" "cb_getheader (callbacks c) = Some Message2_getheader" "table_inv (message c)"
    "2 \<le> length (call_values (call c))" using inv by (auto simp: internal_headers_def)
  have k: "seven_bit (map c_tolower q)" by (rule seven_bit_tolower [OF q])
  have nonneg: "\<not> hashheader (map c_tolower q) (m_hashsize (message c)) < 0"
    using hashheader_range [OF k table_invD(1) [OF I(3)]] by simp
  from asking_begin [OF I(1,4), of q] obtain w ws where
    c1: "set_string ''header'' (Some q) (begin_call SIEVE2_MESSAGE_GETHEADER c) = asking c q w NoName ws"
    and ws: "\<forall>s \<in> set ws. fst s = NoName" "length ws + 2 = length (call_values (call c))" by blast
  have low: "libsieve_strtolower q (length q) = map c_tolower q" by simp
  have "libsieve_message2_getheader (asking c q w NoName ws) = Some (SIEVE2_ERROR_FAIL, asking c q w NoName ws)"
    using absent_probe [OF I(3) k absent] nonneg
    by (simp add: libsieve_message2_getheader_def getheader_def low Let_def sieve2_setvalue_stringlist_def del: strtolower_full)
  then have run: "libsieve_callback_do cl (asking c q w NoName ws) SIEVE2_MESSAGE_GETHEADER = Some (SIEVE2_OK, asking c q w NoName ws)"
    using I(2) by (simp add: libsieve_callback_do_def run_callback_def callback_of_def)
  from asking_end [OF ws(1) _ ws(2), of NoName q w] obtain c' where
    e: "libsieve_callback_end (asking c q w NoName ws) SIEVE2_MESSAGE_GETHEADER = Some (SIEVE2_OK, c')"
    and c': "frame c c'" "idle c'" "world c' = world c" "length (call_values (call c')) = length (call_values (call c))" by blast
  show ?thesis
    by (rule that [OF _ c']) (simp add: libsieve_do_getheader_def c1 run asking_no_body [OF ws(1)] e)
qed

lemma getheader_present:
  assumes inv: "internal_headers c" and q: "seven_bit q" and j: "j < m_hashsize (message c)"
    "key_at (m_hash (message c)) j = Some (map c_tolower q)"
    and e: "m_hash (message c) ! j = Some e" "entry_ok e bs"
  obtains c' where "libsieve_do_getheader cl c q = Some (SIEVE2_OK, Contents j, c')"
    and "array_cells c' (Contents j) = Some (map read_cell (h_contents e))"
    and "frame c c'" and "idle c'" and "world c' = world c" and "length (call_values (call c')) = length (call_values (call c))"
proof -
  let ?m = "message c" and ?k = "map c_tolower q"
  have I: "idle c" "cb_getheader (callbacks c) = Some Message2_getheader" "table_inv (message c)"
    "2 \<le> length (call_values (call c))" using inv by (auto simp: internal_headers_def)
  have k: "seven_bit ?k" by (rule seven_bit_tolower [OF q])
  have nonneg: "\<not> hashheader ?k (m_hashsize ?m) < 0" using hashheader_range [OF k table_invD(1) [OF I(3)]] by simp
  from asking_begin [OF I(1,4), of q] obtain w ws where
    c1: "set_string ''header'' (Some q) (begin_call SIEVE2_MESSAGE_GETHEADER c) = asking c q w NoName ws"
    and ws: "\<forall>s \<in> set ws. fst s = NoName" "length ws + 2 = length (call_values (call c))" by blast
  have low: "libsieve_strtolower q (length q) = ?k" by simp
  have "stops (m_hash ?m) ?k j" using j by (simp add: stops_def)
  then have probe: "lookup_probe (m_hashsize ?m) (m_hash ?m) (m_hashsize ?m) ?k
      (home (m_hashsize ?m) ?k) (home (m_hashsize ?m) ?k) = Some (Some j)"
    using path_probe [OF table_invD(3,2) [OF I(3)] k _ _ table_invD(1) [OF I(3)], of j] table_key [OF I(3) j] j(2) by simp
  let ?c2 = "asking c q (ValStringlist (Some (Contents j))) (Name ''body'') ws"
  have "libsieve_message2_getheader (asking c q w NoName ws) = Some (SIEVE2_OK, ?c2)"
    using probe nonneg by (simp add: libsieve_message2_getheader_def getheader_def low Let_def asking_body del: strtolower_full)
  then have run: "libsieve_callback_do cl (asking c q w NoName ws) SIEVE2_MESSAGE_GETHEADER = Some (SIEVE2_OK, ?c2)"
    using I(2) by (simp add: libsieve_callback_do_def run_callback_def callback_of_def)
  from asking_end [OF ws(1) _ ws(2), of "Name ''body''" q "ValStringlist (Some (Contents j))"] obtain c' where
    en: "libsieve_callback_end ?c2 SIEVE2_MESSAGE_GETHEADER = Some (SIEVE2_OK, c')"
    and c': "frame c c'" "idle c'" "world c' = world c" "length (call_values (call c')) = length (call_values (call c))" by blast
  have cells: "array_cells c' (Contents j) = Some (map read_cell (h_contents e))"
    using j(1) table_invD(2) [OF I(3)] e(1) frame_fields(1) [OF c'(1)] by (simp add: array_cells_def)
  have rb: "read_bodies (h_contents e) = Some bs" "bs \<noteq> []" using e(2) by (auto simp: entry_ok_def)
  from read_bodies_append [OF rb(1)] rb(2) obtain rest b bs' where "h_contents e = map Body bs @ BodyNull # rest" "bs = b # bs'"
    by (cases bs) auto
  then have "array_read c' (Contents j) 0 = Some (Some b)" by (simp add: array_read_def cells)
  then show ?thesis
    by (intro that [OF _ cells c']) (simp add: libsieve_do_getheader_def c1 run asking_body en)
qed

lemma getheader_cases:
  assumes inv: "internal_headers c" and q: "seven_bit q"
  obtains (absent) c' where "table_lookup (message c) (map c_tolower q) = Some []"
      and "libsieve_do_getheader cl c q = Some (SIEVE2_DONE, Notfound, c')"
      and "frame c c'" and "internal_headers c'" and "world c' = world c"
    | (present) j b bs rest c' where "table_lookup (message c) (map c_tolower q) = Some (b # bs)"
      and "libsieve_do_getheader cl c q = Some (SIEVE2_OK, Contents j, c')"
      and "array_cells c' (Contents j) = Some (map (\<lambda>b. Some (Some b)) (b # bs) @ Some None # rest)"
      and "frame c c'" and "internal_headers c'" and "world c' = world c"
proof (cases "map c_tolower q \<in> table_keys (message c)")
  case False
  have "table_lookup (message c) (map c_tolower q) = Some []"
    using lookup_absent [OF _ seven_bit_tolower [OF q] False] inv by (simp add: internal_headers_def)
  with getheader_absent [OF inv q False, of cl] show ?thesis
    using absent internal_headers_frame [OF inv] by metis
next
  case True
  have t: "table_inv (message c)" using inv by (simp add: internal_headers_def)
  obtain j where j: "j < m_hashsize (message c)" "key_at (m_hash (message c)) j = Some (map c_tolower q)"
    using True by (auto simp: table_keys_def)
  from table_slot [OF t j] obtain e bs where e: "m_hash (message c) ! j = Some e" "entry_ok e bs" .
  have rb: "read_bodies (h_contents e) = Some bs" "bs \<noteq> []" using e(2) by (auto simp: entry_ok_def)
  then obtain b bs' where bs: "bs = b # bs'" by (cases bs) auto
  from read_bodies_append [OF rb(1)] obtain rest where rest: "h_contents e = map Body bs @ BodyNull # rest" by blast
  have look: "table_lookup (message c) (map c_tolower q) = Some (b # bs')"
    using lookup_present [OF t j] e(1) rb(1) bs by simp
  from getheader_present [OF inv q j e, of cl] obtain c' where
    "libsieve_do_getheader cl c q = Some (SIEVE2_OK, Contents j, c')"
    "array_cells c' (Contents j) = Some (map read_cell (h_contents e))"
    and c': "frame c c'" "idle c'" "world c' = world c" "length (call_values (call c')) = length (call_values (call c))" .
  then show ?thesis
    using present [OF look _ _ c'(1) internal_headers_frame [OF inv c'(1,2,4)] c'(3), of j "map read_cell rest"] rest bs
    by (simp add: o_def)
qed

end
