(* ===== verification/Eval_Props.thy ===== *)
theory Eval_Props
  imports Interface Observer Internal_Headers
begin

text \<open>
  Properties of the evaluation of scripts and of the public functions.
\<close>

section \<open>Results of commands\<close>

named_theorems results \<open>the result codes of the actions\<close>

lemma do_results [results]:
  "libsieve_do_reject cl c msg = Some (r, c') \<Longrightarrow> r = SIEVE2_OK \<or> r = SIEVE2_ERROR_EXEC"
  "libsieve_do_fileinto cl c mbox fl = Some (r, c') \<Longrightarrow> r = SIEVE2_OK \<or> r = SIEVE2_ERROR_EXEC"
  "libsieve_do_redirect cl c addr = Some (r, c') \<Longrightarrow> r = SIEVE2_OK \<or> r = SIEVE2_ERROR_EXEC"
  "libsieve_do_keep cl c fl = Some (r, c') \<Longrightarrow> r = SIEVE2_OK \<or> r = SIEVE2_ERROR_EXEC"
  "libsieve_do_vacation cl c a f s m h d mi = Some (r, c') \<Longrightarrow> r = SIEVE2_OK \<or> r = SIEVE2_ERROR_EXEC"
  "libsieve_do_discard cl c = Some (r, c') \<Longrightarrow> r = SIEVE2_OK"
  "libsieve_do_notify cl c i me op pr msg = Some (r, c') \<Longrightarrow> r = SIEVE2_OK"
  by (auto simp: libsieve_do_reject_def libsieve_do_fileinto_def libsieve_do_redirect_def libsieve_do_keep_def
      libsieve_do_vacation_def libsieve_do_discard_def libsieve_do_notify_def Let_def bind_eq_Some_conv
      split: if_splits)

lemma getenvelope_result: "libsieve_do_getenvelope cl c f = Some (r, e, c') \<Longrightarrow> r = SIEVE2_OK"
  by (auto simp: libsieve_do_getenvelope_def bind_eq_Some_conv)

text \<open>The local \<^verbatim>\<open>l\<close> of a vacation is \<^verbatim>\<open>SIEVE2_OK\<close> or \<^verbatim>\<open>SIEVE2_DONE\<close> throughout.\<close>

abbreviation ok_or_done :: "int \<Rightarrow> bool" where
  "ok_or_done l \<equiv> l = SIEVE2_OK \<or> l = SIEVE2_DONE"

lemma list_headers_result:
  "vacation_list_headers cl c l ns = Some (l', c') \<Longrightarrow> ok_or_done l \<Longrightarrow> ok_or_done l'"
  by (induction ns arbitrary: c l) (auto simp: bind_eq_Some_conv split: if_splits)

lemma suppressed_result: "vacation_suppressed cl c = Some (l, body, c') \<Longrightarrow> ok_or_done l"
  by (auto simp: vacation_suppressed_def vacation_auto_submitted_def vacation_precedence_def bind_eq_Some_conv
      split: if_splits dest: list_headers_result)

lemma envelope_to_body_result: "envelope_to_body cl c n body = Some (l, v, body', c') \<Longrightarrow> l = SIEVE2_OK"
  by (auto simp: envelope_to_body_def bind_eq_Some_conv split: prod.splits dest: getenvelope_result)

lemma my_address_result: "vacation_my_address cl c l body = Some (l', a, body', c') \<Longrightarrow> ok_or_done l \<Longrightarrow> ok_or_done l'"
  by (auto simp: vacation_my_address_def bind_eq_Some_conv split: if_splits option.split_asm dest: envelope_to_body_result)

lemma sender_ok_result: "ok_or_done (vacation_sender_ok a r as)"
  by (auto simp: vacation_sender_ok_def Let_def split: option.splits)

lemma sender_result: "vacation_sender cl c l body a as = Some (l', r, c') \<Longrightarrow> ok_or_done l \<Longrightarrow> ok_or_done l'"
proof (cases "l = SIEVE2_OK")
  case True
  assume "vacation_sender cl c l body a as = Some (l', r, c')"
  then obtain l1 v body1 c1 where e: "envelope_to_body cl c ''from'' body = Some (l1, v, body1, c1)"
    and k: "(case v of None \<Rightarrow> Some (l1, None, c1)
      | Some s \<Rightarrow> (if l1 = SIEVE2_OK
           then do { (reply_to, c) \<leftarrow> envelope_address cl c1 s; Some (vacation_sender_ok a reply_to as, reply_to, c) }
           else Some (l1, None, c1))) = Some (l', r, c')"
    using True by (auto simp: vacation_sender_def bind_eq_Some_conv)
  then show ?thesis
    using envelope_to_body_result [OF e] sender_ok_result by (cases v) (auto simp: bind_eq_Some_conv)
qed (auto simp: vacation_sender_def)

lemma vacation_result [results]:
  assumes "eval_vacation cl c v = Some (r, c')"
  shows "r = SIEVE2_OK \<or> r = SIEVE2_ERROR_EXEC"
proof -
  obtain l body c1 l1 myaddr body1 c2 l2 reply_to c3 where run:
    "vacation_suppressed cl c = Some (l, body, c1)" "vacation_my_address cl c1 l body = Some (l1, myaddr, body1, c2)"
    "vacation_sender cl c2 l1 body1 myaddr (v_addresses v) = Some (l2, reply_to, c3)"
    using assms by (auto simp: eval_vacation_def bind_eq_Some_conv)
  have l2: "ok_or_done l2"
    using sender_result [OF run(3) my_address_result [OF run(2) suppressed_result [OF run(1)]]] .
  show ?thesis
    using assms run l2 do_results(5)
    by (auto simp: eval_vacation_def bind_eq_Some_conv Let_def SIEVE2_OK_def SIEVE2_DONE_def split: if_splits; fastforce)
qed

fun is_cond :: "command \<Rightarrow> bool" where
  "is_cond (Cond _ _ _) = True" | "is_cond _ = False"

abbreviation result_ok :: "string option \<Rightarrow> int \<Rightarrow> string option \<Rightarrow> bool" where
  "result_ok e r e' \<equiv> r \<in> {0, 1, SIEVE2_ERROR_EXEC} \<and> (e' = e \<or> r = SIEVE2_ERROR_EXEC)"

lemma command_results:
  assumes "\<not> is_cond cmd" and "eval_command cl c cmd e = Some (r, e', c')"
  shows "result_ok e r e'"
  using assms
  by (cases cmd) (auto simp: bind_eq_Some_conv with_errmsg_def with_flags_def SIEVE2_OK_def split: if_splits dest!: results)

lemma eval_results:
  "libsieve_eval cl c cmds e = Some (r, e', c') \<Longrightarrow> result_ok e r e'"
  "eval_command cl c cmd e = Some (r, e', c') \<Longrightarrow> result_ok e r e'"
proof (induction cl c cmds e and cl c cmd e arbitrary: r e' c' and r e' c' rule: libsieve_eval_eval_command.induct)
  case (2 cl c cmd cmds e)
  from "2.prems" obtain r1 e1 c1 where c1: "eval_command cl c cmd e = Some (r1, e1, c1)" by (auto simp: bind_eq_Some_conv)
  have one: "result_ok e r1 e1" by (rule "2.IH"(1) [OF c1])
  show ?case
  proof (cases "r1 = 0")
    case True
    then have "libsieve_eval cl c1 cmds e1 = Some (r, e', c')" using "2.prems" c1 by simp
    from "2.IH"(2) [OF c1 refl refl _ this] show ?thesis using True one by (auto simp: SIEVE2_ERROR_EXEC_def)
  next
    case False
    then show ?thesis using "2.prems" c1 one by simp
  qed
next
  case (3 cl c t y n e)
  then show ?case by (auto simp: bind_eq_Some_conv split: if_splits)
qed (auto simp del: eval_command.simps dest: command_results [rotated])

section \<open>Exclusive actions of a script\<close>

lemma quiet_exclusive:
  assumes "exclusive_inv c" and "quiet c c'"
  shows "exclusive_inv c'"
proof -
  obtain l where l: "snd (world c') = snd (world c) @ l" "set l \<inter> action_values = {}"
    and same: "idle c'" "actions c' = actions c" "callbacks c' = callbacks c"
    using assms by (auto simp: quiet_def exclusive_inv_def)
  have not_in: "v \<notin> set l" if "v \<in> action_values" for v using that l(2) by auto
  then have "count_list l SIEVE2_ACTION_REJECT = 0" by (simp add: action_values_def count_list_0_iff)
  then show ?thesis using assms(1) not_in
    by (simp add: exclusive_inv_def l(1) same Let_def action_values_def)
qed

text \<open>
  The two ways a vacation ends: without a reply, or with one sent from a context that differs by
  questions only; the sender has then passed its checks.
\<close>

lemma vacation_ends:
  assumes "eval_vacation (logging cl) c v = Some (r, c')"
  obtains (silent) "quiet c c'" and "r = 0 \<or> r = - 1"
    | (reply) c2 l body myaddr reply_to c3 c5 fnd subj handle l0 body0 c1 where "quiet c c5"
      and "vacation_sender (logging cl) c2 l body myaddr (v_addresses v) = Some (SIEVE2_OK, reply_to, c3)"
      and "libsieve_do_vacation (logging cl) c5 reply_to fnd subj (v_message v) handle (v_days v) (v_mime v) = Some (r, c')"
      and "vacation_suppressed (logging cl) c = Some (l0, body0, c1)"
      and "vacation_my_address (logging cl) c1 l0 body0 = Some (l, myaddr, body, c2)"
proof -
  let ?cl = "logging cl"
  have via: "quiet c c2" if "quiet c c1" "runs quiet f c1 m" "m = Some x" "c2 = f x" for c1 c2 f m x
    using quiet_trans [OF that(1)] that(2-4) by (auto simp: runs_def)
  from assms obtain l body c1 l1 myaddr body1 c2 l2 reply_to c3 fnd c4 where
    s1: "vacation_suppressed ?cl c = Some (l, body, c1)"
    and s2: "vacation_my_address ?cl c1 l body = Some (l1, myaddr, body1, c2)"
    and s3: "vacation_sender ?cl c2 l1 body1 myaddr (v_addresses v) = Some (l2, reply_to, c3)"
    and s4: "(if l2 = SIEVE2_OK then vacation_found ?cl c3 (v_from v) myaddr (v_addresses v) recipient_header_names
        else Some (None, c3)) = Some (fnd, c4)"
    and rest: "(if (if l2 = SIEVE2_OK \<and> fnd = None then SIEVE2_DONE else l2) = SIEVE2_OK
        then do { (subj, c) \<leftarrow> vacation_subject ?cl c4 (v_subject v); handle \<leftarrow> vacation_handle v;
                  libsieve_do_vacation ?cl c reply_to fnd subj (v_message v) handle (v_days v) (v_mime v) }
        else Some (if (if l2 = SIEVE2_OK \<and> fnd = None then SIEVE2_DONE else l2) \<noteq> SIEVE2_DONE then - 1 else 0, c4))
        = Some (r, c')"
    by (auto simp: eval_vacation_def bind_eq_Some_conv Let_def)
  have i3: "quiet c c3"
    by (rule via [OF via [OF via [OF quiet_refl questions.suppressed s1] questions.my_address s2] questions.sender s3]) simp_all
  have i4: "quiet c c4"
    using s4 i3 via [OF i3 questions.found] by (auto split: if_splits)
  show ?thesis
  proof (cases "l2 = SIEVE2_OK \<and> fnd \<noteq> None")
    case True
    then obtain subj c5 handle where s5: "vacation_subject ?cl c4 (v_subject v) = Some (subj, c5)"
      and act: "libsieve_do_vacation ?cl c5 reply_to fnd subj (v_message v) handle (v_days v) (v_mime v) = Some (r, c')"
      using rest by (auto simp: bind_eq_Some_conv)
    have "quiet c c5" by (rule via [OF i4 questions.subject s5]) simp
    then show ?thesis using reply [of c5 c2 l1 body1 myaddr reply_to c3 fnd subj handle l body c1] s1 s2 s3 act True by simp
  next
    case False
    then show ?thesis using rest i4 silent by (auto split: if_splits simp: SIEVE2_OK_def SIEVE2_DONE_def)
  qed
qed

lemma vacation_exclusive:
  assumes "exclusive_inv c" and "eval_vacation (logging cl) c v = Some (r, c')"
  shows "exclusive_inv c'"
proof (cases rule: vacation_ends [OF assms(2)])
  case 1
  then show ?thesis using quiet_exclusive [OF assms(1)] by blast
next
  case (2 c2 l body myaddr reply_to c3 c5 fnd subj handle l0 body0 c1)
  have "exclusive_inv c5" by (rule quiet_exclusive [OF assms(1) 2(1)])
  moreover have "run_action (logging cl) (AVacation reply_to fnd subj (v_message v) handle (v_days v) (v_mime v)) c5 = Some (r, c')"
    using 2(3) by (simp add: run_action_def)
  ultimately show ?thesis by (blast dest: exclusive_step)
qed

text \<open>The action a command is, if it is one.\<close>

fun command_action :: "command \<Rightarrow> action option" where
  "command_action (Rejct msg) = Some (AReject msg)"
| "command_action (Fileinto mbox fl) = Some (AFileinto mbox fl)"
| "command_action (Redirect addr) = Some (ARedirect addr)"
| "command_action (Keep fl) = Some (AKeep fl)"
| "command_action Discard = Some ADiscard"
| "command_action (Notify n) = Some (ANotify (n_id n) (n_method n) (n_options n) (n_priority n) (n_message n))"
| "command_action _ = None"

lemma command_action_run:
  "command_action cmd = Some a \<Longrightarrow> eval_command cl c cmd e = Some (r, e', c') \<Longrightarrow> run_action cl a c = Some (r, c')"
  by (cases cmd) (auto simp: run_action_def with_errmsg_def bind_eq_Some_conv)

lemma exclusive_slflags: "exclusive_inv (c\<lparr>slflags := fl\<rparr>) = exclusive_inv c"
  by (simp add: exclusive_inv_def idle_def)

lemma command_exclusive:
  assumes "\<not> is_cond cmd" and "exclusive_inv c" and "eval_command (logging cl) c cmd e = Some (r, e', c')"
  shows "exclusive_inv c'"
proof (cases "command_action cmd")
  case (Some a)
  from exclusive_step [OF assms(2) command_action_run [OF Some assms(3)]] show ?thesis by simp
next
  case None
  then show ?thesis using assms
    by (cases cmd) (auto simp: with_flags_def with_errmsg_def exclusive_slflags dest: vacation_exclusive)
qed

lemma eval_exclusive:
  "cl' = logging cl \<Longrightarrow> libsieve_eval cl' c cmds e = Some (r, e', c') \<Longrightarrow> exclusive_inv c \<Longrightarrow> exclusive_inv c'"
  "cl' = logging cl \<Longrightarrow> eval_command cl' c cmd e = Some (r, e', c') \<Longrightarrow> exclusive_inv c \<Longrightarrow> exclusive_inv c'"
proof (induction cl' c cmds e and cl' c cmd e arbitrary: r e' c' and r e' c' rule: libsieve_eval_eval_command.induct)
  case (2 cl' c cmd cmds e)
  from "2.prems"(2) obtain r1 e1 c1 where c1: "eval_command cl' c cmd e = Some (r1, e1, c1)"
    and rest: "(if r1 \<noteq> 0 then Some (r1, e1, c1) else libsieve_eval cl' c1 cmds e1) = Some (r, e', c')"
    by (auto simp: bind_eq_Some_conv)
  have "exclusive_inv c1" by (rule "2.IH"(1) [OF "2.prems"(1) c1 "2.prems"(3)])
  then show ?case using "2.IH"(2) [OF c1 refl refl _ "2.prems"(1)] rest by (auto split: if_splits)
next
  case (3 cl' c t y n e)
  from "3.prems"(2) obtain b c1 where c1: "static_evaltest cl' c t = Some (b, c1)"
    and rest: "(if b then libsieve_eval cl' c1 y e else libsieve_eval cl' c1 n e) = Some (r, e', c')"
    by (auto simp: bind_eq_Some_conv)
  have "exclusive_inv c1"
    using quiet_exclusive [OF "3.prems"(3)] questions.evaltest [of c cl t] c1 "3.prems"(1) by (auto simp: runs_def)
  then show ?case using "3.IH" [OF c1 refl] rest "3.prems"(1) by (auto split: if_splits)
qed (auto simp del: eval_command.simps dest: command_exclusive [rotated 2])

text \<open>
  C5. Whatever a script does on a newly allocated context, with any functions of the client
  registered and with the library's own or the client's header callback: over the whole run, all
  conditionals and vacation checks included, reject is called at most once, and a client that is
  called with reject is never called with fileinto, redirect, keep or vacation. The context is idle
  at the end, the result is 0, 1 (stopped) or \<^verbatim>\<open>SIEVE2_ERROR_EXEC\<close>, and an error message is set
  only with the last.
\<close>
theorem script_actions_exclusive:
  assumes "internal_ok cb"
    and "libsieve_eval (logging cl) ((zero_context m (w, []))\<lparr>callbacks := cb\<rparr>) cmds None = Some (r, e, c')"
  shows "exclusive_log (snd (world c')) \<and> idle c' \<and> r \<in> {0, 1, SIEVE2_ERROR_EXEC} \<and> (e \<noteq> None \<longrightarrow> r = SIEVE2_ERROR_EXEC)"
proof -
  have "exclusive_inv ((zero_context m (w, []))\<lparr>callbacks := cb\<rparr>)"
    using zero_actions_inv [of "(zero_context m (w, []))\<lparr>callbacks := cb\<rparr>" cb m w] assms(1) by (simp add: actions_inv_def)
  from eval_exclusive(1) [OF HOL.refl assms(2) this] have "exclusive_inv c'" .
  then show ?thesis
    using exclusive_inv_log eval_results(1) [OF assms(2)] by (auto simp: exclusive_inv_def)
qed

lemma one_callback_internal: "internal_ok one_callback"
  unfolding internal_ok_def
proof (intro allI impI)
  show "callback_of v one_callback \<noteq> Some Message2_getheader" for v
    by (cases v) (simp_all add: callback_of_def one_callback_def no_callbacks_def)
qed

lemma script_actions_exclusive_witness:
  "\<exists>c'. libsieve_eval (logging silent_client) ((zero_context no_message ((), []))\<lparr>callbacks := one_callback\<rparr>)
      [Rejct ''no'', Keep []] None
      = Some (SIEVE2_ERROR_EXEC, Some ''Keep can not be used with Reject'', c') \<and>
    exclusive_log (snd (world c')) \<and> snd (world c') = [SIEVE2_ACTION_REJECT]"
proof -
  obtain c' where run: "libsieve_eval (logging silent_client) ((zero_context no_message ((), []))\<lparr>callbacks := one_callback\<rparr>)
      [Rejct ''no'', Keep []] None = Some (SIEVE2_ERROR_EXEC, Some ''Keep can not be used with Reject'', c')"
    and log: "snd (world c') = [SIEVE2_ACTION_REJECT]"
    by (simp add: libsieve_do_reject_def libsieve_do_keep_def zero_context_def no_actions_def with_errmsg_def
        do_and_end_def libsieve_callback_do_def run_callback_def callback_of_def one_callback_def no_callbacks_def
        logging_def silent_client_def libsieve_callback_begin_def libsieve_callback_end_def sieve2_setvalue_string_def
        setvalue_def with_values_def MAX_VALUES_def numeral_eq_Suc SIEVE2_OK_def SIEVE2_ERROR_EXEC_def)
  from script_actions_exclusive [OF one_callback_internal run] show ?thesis using run log by blast
qed

section \<open>Sequences of commands\<close>

lemma eval_append:
  "libsieve_eval cl c (xs @ ys) e =
     do {
       (r, e, c) \<leftarrow> libsieve_eval cl c xs e;
       (if r \<noteq> 0 then Some (r, e, c) else libsieve_eval cl c ys e)
     }"
proof (induction xs arbitrary: c e)
  case (Cons x xs)
  have if_bind: "Option.bind (if b then x else y) k = (if b then Option.bind x k else Option.bind y k)"
    for b and x y :: "'b option" and k by simp
  show ?case
  proof (cases "eval_command cl c x e")
    case (Some a)
    then show ?thesis using Cons by (cases a) simp
  qed simp
qed simp

text \<open>
  C19. No command behind one that stops the script is run: whatever stands behind a \<^verbatim>\<open>stop\<close> has no
  effect at all, on the client, the context or the result, and the same holds behind a refused action;
  blocks run in sequence, the second from the context the first leaves.
\<close>
theorem nothing_after_stop:
  "libsieve_eval cl c (xs @ Stop # ys) e = libsieve_eval cl c (xs @ [Stop]) e
   \<and> (libsieve_eval cl c xs e = Some (r, e', c')
      \<longrightarrow> libsieve_eval cl c (xs @ ys) e = (if r \<noteq> 0 then Some (r, e', c') else libsieve_eval cl c' ys e'))"
  by (cases "libsieve_eval cl c xs e") (auto simp: eval_append)

lemma nothing_after_stop_witness:
  "libsieve_eval silent_client (zero_context no_message ()) [Stop, Rejct ''no''] None
    = Some (1, None, zero_context no_message ())"
  using conjunct2 [OF nothing_after_stop [of silent_client "zero_context no_message ()" "[Stop]" "[Rejct ''no'']" None
      1 None "zero_context no_message ()"]] by simp

end
