(* ===== verification/Interface_Props.thy ===== *)
theory Interface_Props
  imports Eval_Props
begin

text \<open>
  Properties of the public functions of \<^verbatim>\<open>script2.c\<close> and of the commands they run: result codes,
  flags, tests under \<^verbatim>\<open>allof\<close>, the reply of a vacation, registration of callbacks.
\<close>

section \<open>Frames of the calls\<close>

lemma end_frame: "libsieve_callback_end c callback = Some (r, c') \<Longrightarrow> frame c c'"
  by (auto simp: libsieve_callback_end_def frame_def split: if_splits)

lemma do_frame: "libsieve_callback_do cl c callback = Some (r, c') \<Longrightarrow> frame c c'"
  using do_protocol by blast

lemma do_and_end_frame: "do_and_end cl callback c = Some c' \<Longrightarrow> frame c c'"
  by (auto simp: do_and_end_def bind_eq_Some_conv dest!: do_frame end_frame elim: frame_trans)

lemma frame_into:
  "frame c c1 \<Longrightarrow> frame c (snd (sieve2_setvalue_string n s c1))" "frame c c1 \<Longrightarrow> frame c (snd (sieve2_setvalue_int n i c1))"
  "frame c c1 \<Longrightarrow> libsieve_callback_do cl c1 k = Some (r, c2) \<Longrightarrow> frame c c2"
  "frame c c1 \<Longrightarrow> libsieve_callback_end c1 k = Some (r, c2) \<Longrightarrow> frame c c2"
  "frame c c1 \<Longrightarrow> do_and_end cl k c1 = Some c2 \<Longrightarrow> frame c c2"
  by (blast intro: frame_trans set_frame do_frame end_frame do_and_end_frame)+

lemma getscript_frame: "libsieve_do_getscript cl c p n = Some (r, s, l, c') \<Longrightarrow> frame c c'"
  by (auto simp: libsieve_do_getscript_def Let_def bind_eq_Some_conv intro!: begin_frame frame_into(1,2)
      elim!: frame_into(3,4) [rotated])

lemma getallheaders_frame: "libsieve_do_getallheaders cl c = Some (r, h, c') \<Longrightarrow> frame c c'"
  by (auto simp: libsieve_do_getallheaders_def Let_def bind_eq_Some_conv intro!: begin_frame elim!: frame_into(3,4) [rotated])

lemma error_header_frame: "libsieve_do_error_header cl c l msg = Some (r, c') \<Longrightarrow> frame c c'"
  by (auto simp: libsieve_do_error_header_def Let_def bind_eq_Some_conv intro!: begin_frame frame_into(1,2)
      elim!: frame_into(5) [rotated])

section \<open>Results of an execution\<close>

lemma parseheader_script:
  "libsieve_message2_parseheader cl c = Some (r, c') \<Longrightarrow> script c' = script c"
  by (auto simp: libsieve_message2_parseheader_def libsieve_headererror_def Let_def bind_eq_Some_conv
      dest!: error_header_frame dest: frame_fields split: option.split_asm)

lemma execute_headers_results:
  assumes "execute_headers cl c = Some (early, c')"
  shows "script c' = script c" and "early \<in> {None, Some SIEVE2_ERROR_NOT_FINALIZED, Some SIEVE2_ERROR_HEADER}"
  using assms by (auto simp: execute_headers_def Let_def bind_eq_Some_conv split: if_splits
      dest!: getallheaders_frame parseheader_script dest: frame_fields)

lemma get_script_results:
  assumes "get_script cl c = Some (r, c')"
  shows "error_count (script c') = error_count (script c)"
  using assms by (auto simp: get_script_def bind_eq_Some_conv dest!: getscript_frame dest: frame_fields)

text \<open>
  C15. The results of \<^verbatim>\<open>sieve2_execute\<close>. With a parser that leaves the error count of the context
  alone, as the actions of the grammar do, the function never returns \<^verbatim>\<open>SIEVE2_ERROR_EXEC\<close> or
  \<^verbatim>\<open>SIEVE2_ERROR_PARSE\<close>. Once the script is fetched, the headers are read and the script is
  parsed, the result is \<^verbatim>\<open>SIEVE2_OK\<close> whatever becomes of the evaluation: it ends with 0, 1 or the
  positive code 5 of \<^verbatim>\<open>SIEVE2_ERROR_EXEC\<close>, as it does when an action is refused with a message,
  and none of them is negative. An exception of the parser is reported only when it is
  \<^verbatim>\<open>SIEVE2_ERROR_INTERNAL\<close>.
\<close>
theorem execute_results:
  assumes "sieve2_execute cl parse (Some c) ud = Some (r, context)"
    and "\<And>c p c'. parse c = Some (p, c') \<Longrightarrow> error_count (script c') = error_count (script c)"
  shows "r \<in> {SIEVE2_OK, SIEVE2_ERROR_INTERNAL, SIEVE2_ERROR_GETSCRIPT, SIEVE2_ERROR_NOT_FINALIZED, SIEVE2_ERROR_HEADER} \<and>
    (\<forall>c1 c2. get_script cl (start_script ud c) = Some (SIEVE2_OK, c1) \<longrightarrow> execute_headers cl c1 = Some (None, c2) \<longrightarrow>
      (\<forall>cmds c3. parse c2 = Some (Commands cmds, c3) \<longrightarrow> r = SIEVE2_OK \<and>
        (\<exists>r1 e c4. libsieve_eval cl (with_cmds cmds c3) cmds None = Some (r1, e, c4) \<and> context = Some c4 \<and>
          r1 \<in> {0, 1, 5} \<and> (e = None \<or> r1 = 5))) \<and>
      (\<forall>x c3. parse c2 = Some (Throws x, c3) \<longrightarrow>
        r = (if x = SIEVE2_ERROR_INTERNAL then SIEVE2_ERROR_INTERNAL else SIEVE2_OK)))"
proof -
  from assms(1) obtain r1 c1 where c1: "get_script cl (start_script ud c) = Some (r1, c1)"
    and k: "(if r1 \<noteq> SIEVE2_OK then Some (SIEVE2_ERROR_GETSCRIPT, Some c1)
      else do {
        (early, c) \<leftarrow> execute_headers cl c1;
        (case early of
           Some r \<Rightarrow> Some (r, Some c)
         | None \<Rightarrow> do {
             (p, c) \<leftarrow> parse c;
             (case p of
                Throws e \<Rightarrow> Some (if e = SIEVE2_ERROR_INTERNAL then SIEVE2_ERROR_INTERNAL else SIEVE2_OK, Some c)
              | Commands cmds \<Rightarrow>
                  (let c = with_cmds cmds c
                   in if error_count (script c) > 0 then Some (SIEVE2_ERROR_PARSE, Some (with_cmds [] c))
                      else do {
                        (r, _, c) \<leftarrow> libsieve_eval cl c cmds None;
                        Some (if r < 0 then SIEVE2_ERROR_EXEC else SIEVE2_OK, Some c)
                      })) })
      }) = Some (r, context)"
    by (auto simp: sieve2_execute_def bind_eq_Some_conv)
  have n1: "error_count (script c1) = 0" using get_script_results [OF c1] by (simp add: start_script_def)
  show ?thesis
  proof (cases "r1 = SIEVE2_OK")
    case True
    then obtain early c2 where c2: "execute_headers cl c1 = Some (early, c2)" using k by (auto simp: bind_eq_Some_conv)
    note h = execute_headers_results [OF c2]
    show ?thesis
    proof (cases early)
      case (Some e)
      then show ?thesis using k True c1 c2 h(2) by auto
    next
      case None
      then obtain p c3 where c3: "parse c2 = Some (p, c3)" using k True c2 by (auto simp: bind_eq_Some_conv)
      have n3: "error_count (script c3) = 0" using assms(2) [OF c3] h(1) n1 by simp
      show ?thesis
      proof (cases p)
        case (Throws e)
        then show ?thesis using k True c1 c2 None c3 by auto
      next
        case (Commands cmds)
        have "error_count (script (with_cmds cmds c3)) = 0" using n3 by (simp add: with_cmds_def)
        then obtain r2 e c4 where run: "libsieve_eval cl (with_cmds cmds c3) cmds None = Some (r2, e, c4)"
          and end_r: "r = (if r2 < 0 then SIEVE2_ERROR_EXEC else SIEVE2_OK)" "context = Some c4"
          using k True c2 None c3 Commands by (auto simp: Let_def bind_eq_Some_conv)
        have "r2 \<in> {0, 1, 5}" "e = None \<or> r2 = 5" using eval_results(1) [OF run] by (auto simp: SIEVE2_ERROR_EXEC_def)
        then show ?thesis using run end_r c1 True c2 None c3 Commands by auto
      qed
    qed
  qed (use k c1 in auto)
qed

definition script_client :: "unit client" where
  "script_client = silent_client\<lparr>cl_call := (\<lambda>_ _ _ w. ([SetString (Some ''script'') (Some ''x'')], w))\<rparr>"

definition script_context :: "unit sieve2_context" where
  "script_context = (zero_context no_message ())\<lparr>callbacks := no_callbacks\<lparr>cb_getscript := Some (User 0),
     cb_getheader := Some (User 0), cb_reject := Some (User 0), cb_keep := Some (User 0)\<rparr>\<rparr>"

lemma execute_results_witness:
  "\<exists>c1 c2 c4 e. get_script script_client (start_script 0 script_context) = Some (SIEVE2_OK, c1) \<and>
    execute_headers script_client c1 = Some (None, c2) \<and>
    libsieve_eval script_client (with_cmds [Rejct ''no'', Keep []] c2) [Rejct ''no'', Keep []] None = Some (5, Some e, c4) \<and>
    sieve2_execute script_client (\<lambda>c. Some (Commands [Rejct ''no'', Keep []], c)) (Some script_context) 0
      = Some (SIEVE2_OK, Some c4)"
proof -
  let ?parse = "\<lambda>c. Some (Commands [Rejct ''no'', Keep []], c)"
  let ?run = "sieve2_execute script_client ?parse (Some script_context) 0"
  let ?eval = "do { (r, c) \<leftarrow> get_script script_client (start_script 0 script_context); (h, c) \<leftarrow> execute_headers script_client c;
      (r', e, c) \<leftarrow> libsieve_eval script_client (with_cmds [Rejct ''no'', Keep []] c) [Rejct ''no'', Keep []] None; Some (r, h, r', e) }"
  have "?eval = Some (0, None, 5, Some ''Keep can not be used with Reject'')" by code_simp
  then obtain c1 c2 e c4 where steps: "get_script script_client (start_script 0 script_context) = Some (SIEVE2_OK, c1)"
    "execute_headers script_client c1 = Some (None, c2)"
    "libsieve_eval script_client (with_cmds [Rejct ''no'', Keep []] c2) [Rejct ''no'', Keep []] None = Some (5, Some e, c4)"
    by (auto simp: bind_eq_Some_conv SIEVE2_OK_def simp del: libsieve_eval.simps)
  have "?run \<noteq> None" by code_simp
  then obtain r x where run: "?run = Some (r, x)" by (cases ?run) auto
  show ?thesis using execute_results [OF run] run steps by (auto simp del: libsieve_eval.simps)
qed

section \<open>Flags\<close>

definition has_flag :: "string list \<Rightarrow> string \<Rightarrow> bool" where
  "has_flag l s \<longleftrightarrow> (\<exists>f \<in> set l. strcasecmp f s = 0)"

lemma has_flag_Cons: "has_flag (f # l) s \<longleftrightarrow> strcasecmp f s = 0 \<or> has_flag l s"
  by (simp add: has_flag_def)

lemma flag_present_reads: "flags_read fl = Some l \<Longrightarrow> flag_present fl s = Some (has_flag l s)"
  by (induction fl arbitrary: l) (auto simp: has_flag_Cons has_flag_def)

lemma hasflag_reads: "flags_read fl = Some l \<Longrightarrow> hasflag_names fl sl = Some (\<exists>s \<in> set sl. has_flag l s)"
  by (induction sl) (auto simp: flag_present_reads)

definition folded :: "string list \<Rightarrow> string list" where
  "folded l = map (map c_tolower) l"

lemma has_flag_folded: "has_flag l s \<longleftrightarrow> map c_tolower s \<in> set (folded l)"
  by (auto simp: has_flag_def folded_def strcasecmp_eq_0_iff image_iff) metis+

lemma addflag_reads:
  assumes "flags_read fl = Some l"
  obtains fl' l' where "eval_addflag fl sl = Some fl'" and "flags_read fl' = Some l'"
    and "set (folded l') = set (folded l) \<union> set (folded sl)" and "distinct (folded l) \<longrightarrow> distinct (folded l')"
  using assms
proof (induction sl arbitrary: fl l thesis)
  case Nil
  then show ?case by (simp add: folded_def)
next
  case (Cons s sl)
  have present: "flag_present fl s = Some (has_flag l s)" by (rule flag_present_reads [OF Cons.prems(2)])
  show ?case
  proof (cases "has_flag l s")
    case True
    obtain fl' l' where "eval_addflag fl sl = Some fl'" "flags_read fl' = Some l'"
      "set (folded l') = set (folded l) \<union> set (folded sl)" "distinct (folded l) \<longrightarrow> distinct (folded l')"
      by (rule Cons.IH [OF _ Cons.prems(2)])
    moreover have "map c_tolower s \<in> set (folded l)" using True by (simp add: has_flag_folded)
    ultimately show ?thesis
      by (intro Cons.prems(1) [of fl' l']) (use present True in \<open>auto simp: folded_def\<close>)
  next
    case False
    have "flags_read (FNode s fl) = Some (s # l)" using Cons.prems(2) by simp
    from Cons.IH [OF _ this] obtain fl' l' where "eval_addflag (FNode s fl) sl = Some fl'" "flags_read fl' = Some l'"
      "set (folded l') = set (folded (s # l)) \<union> set (folded sl)" "distinct (folded (s # l)) \<longrightarrow> distinct (folded l')" by blast
    moreover have "map c_tolower s \<notin> set (folded l)" using False by (simp add: has_flag_folded)
    ultimately show ?thesis
      by (intro Cons.prems(1) [of fl' l']) (use present False in \<open>auto simp: folded_def\<close>)
  qed
qed

text \<open>
  C20. \<^verbatim>\<open>addflag\<close> and \<^verbatim>\<open>hasflag\<close> treat a list that was never freed as a set of flags compared
  without case: \<^verbatim>\<open>addflag\<close> adds exactly the flags given, never twice, and \<^verbatim>\<open>hasflag\<close> then finds
  those that were there or were added.
\<close>
theorem addflag_then_hasflag:
  assumes "flags_read (slflags c) = Some l"
  shows "\<exists>c' l'. eval_command cl c (Addflag sl) e = Some (0, e, c') \<and> flags_read (slflags c') = Some l' \<and>
    (distinct (folded l) \<longrightarrow> distinct (folded l')) \<and>
    static_evaltest cl c' (Some (Hasflag comptag names)) = Some (\<exists>s \<in> set names. has_flag l s \<or> has_flag sl s, c')"
proof -
  obtain fl' l' where a: "eval_addflag (slflags c) sl = Some fl'" "flags_read fl' = Some l'"
    "set (folded l') = set (folded l) \<union> set (folded sl)" "distinct (folded l) \<longrightarrow> distinct (folded l')"
    by (rule addflag_reads [OF assms])
  have "has_flag l' s = (has_flag l s \<or> has_flag sl s)" for s by (simp add: has_flag_folded a(3))
  then show ?thesis
    using a(1,2,4) by (simp add: with_flags_def hasflag_reads)
qed

lemma addflag_then_hasflag_witness:
  "\<exists>c' l'. eval_command silent_client (zero_context no_message ()) (Addflag [''A'', ''a'']) None = Some (0, None, c') \<and>
    flags_read (slflags c') = Some l' \<and> distinct (folded l') \<and>
    static_evaltest silent_client c' (Some (Hasflag None [''a''])) = Some (True, c')"
proof -
  have "flags_read (slflags (zero_context no_message ())) = Some []" by (simp add: zero_context_def)
  moreover have "strcasecmp ''A'' ''a'' = 0" by code_simp
  ultimately show ?thesis
    using addflag_then_hasflag [of "zero_context no_message ()" "[]" silent_client "[''A'', ''a'']" None None "[''a'']"]
    by (simp add: has_flag_def folded_def del: static_evaltest.simps eval_command.simps strcasecmp.simps)
qed

text \<open>
  C31. \<^verbatim>\<open>setflag\<close> with one flag or more keeps the first of its flags only. In a context without
  flags that is all that happens. When the context has flags already, none of them freed, the new node is linked to the
  nodes that were freed: a \<^verbatim>\<open>keep\<close> or \<^verbatim>\<open>fileinto\<close> without flags of its own, unless
  \<^verbatim>\<open>reject\<close> forbids it, a second \<^verbatim>\<open>setflag\<close>, and the final \<^verbatim>\<open>sieve2_free\<close> then
  read freed memory.
\<close>
theorem setflag_dangles:
  assumes "flags_read (slflags c) = Some l"
  shows "\<exists>c'. eval_command cl c (Setflag (s # sl)) e = Some (0, e, c') \<and>
    slflags c' = FNode s (if l = [] then FEnd else FFreed) \<and>
    (l \<noteq> [] \<longrightarrow> eval_command cl c' (Setflag (s' # sl')) e = None \<and> sieve2_free (Some (Some c')) = None \<and>
      (\<not> a_reject (actions c) \<longrightarrow> eval_command cl c' (Keep []) e = None \<and> eval_command cl c' (Fileinto mbox []) e = None))"
proof (cases l)
  case Nil
  then have "slflags c = FEnd" using assms by (cases "slflags c") auto
  then show ?thesis using Nil by (simp add: with_flags_def eval_setflag_def free_flags_def)
next
  case (Cons f l')
  then obtain fl where "slflags c = FNode f fl" using assms by (cases "slflags c") auto
  then have "eval_setflag (slflags c) (s # sl) = Some (FNode s FFreed)"
    using assms by (auto simp: eval_setflag_def free_flags_def)
  then show ?thesis using Cons
    by (simp add: with_flags_def eval_setflag_def free_flags_def libsieve_do_keep_def libsieve_do_fileinto_def flags_value_def Let_def
        sieve2_free_def libsieve_message2_free_def frame_fields(2) [OF begin_frame]
        frame_fields(2) [OF frame_trans [OF begin_frame set_frame(1)]])
qed

lemma setflag_dangles_witness:
  "\<exists>c'. eval_command silent_client ((zero_context no_message ())\<lparr>slflags := FNode ''a'' FEnd\<rparr>) (Setflag [''b'', ''c'']) None
      = Some (0, None, c') \<and> slflags c' = FNode ''b'' FFreed \<and> sieve2_free (Some (Some c')) = None \<and>
      eval_command silent_client c' (Fileinto ''in'' []) None = None"
  using setflag_dangles [of "(zero_context no_message ())\<lparr>slflags := FNode ''a'' FEnd\<rparr>" "[''a'']" silent_client
      "''b''" "[''c'']" None "''d''" "[]" "''in''"] by (auto simp: zero_context_def no_actions_def simp del: eval_command.simps)

lemma unlink_reads:
  "flags_read fl = Some l \<Longrightarrow> \<exists>fl'. unlink_flag fl s = Some fl' \<and>
     flags_read fl' = Some (takeWhile (\<lambda>f. strcasecmp f s \<noteq> 0) l @ tl (dropWhile (\<lambda>f. strcasecmp f s \<noteq> 0) l))"
proof (induction fl arbitrary: l)
  case (FNode f fl)
  then obtain l1 where l1: "flags_read fl = Some l1" "l = f # l1" by auto
  from FNode.IH [OF l1(1)] show ?case using l1 by (auto simp del: strcasecmp.simps)
qed simp_all

text \<open>
  C32. \<^verbatim>\<open>removeflag\<close> with one flag: a match behind the first flag of the list removes that flag and
  keeps the others in order, and no match keeps all of them; but a match with the first flag
  removes every flag of the list.
\<close>
theorem removeflag_meaning:
  assumes "flags_read (slflags c) = Some (f # l)"
  shows "\<exists>c'. eval_command cl c (Removeflag [s]) e = Some (0, e, c') \<and>
    flags_read (slflags c')
      = Some (if strcasecmp f s = 0 then []
              else f # takeWhile (\<lambda>f. strcasecmp f s \<noteq> 0) l @ tl (dropWhile (\<lambda>f. strcasecmp f s \<noteq> 0) l))"
proof -
  obtain fl where fl: "slflags c = FNode f fl" "flags_read fl = Some l" using assms by (cases "slflags c") auto
  show ?thesis
    using unlink_reads [OF fl(2), of s] fl
    by (auto simp: with_flags_def free_flags_def simp del: strcasecmp.simps)
qed

lemma removeflag_meaning_witness:
  "\<exists>c'. eval_command silent_client ((zero_context no_message ())\<lparr>slflags := FNode ''a'' (FNode ''b'' FEnd)\<rparr>) (Removeflag [''A'']) None
      = Some (0, None, c') \<and> flags_read (slflags c') = Some []"
proof -
  have "strcasecmp ''a'' ''A'' = 0" by code_simp
  then show ?thesis
    using removeflag_meaning [of "(zero_context no_message ())\<lparr>slflags := FNode ''a'' (FNode ''b'' FEnd)\<rparr>" "''a''" "[''b'']"
        silent_client "''A''" None]
    by (simp del: strcasecmp.simps eval_command.simps)
qed

section \<open>Vacation\<close>

lemma sender_no_addresses: "vacation_sender_ok myaddr reply_to [] = SIEVE2_DONE"
  by (simp add: vacation_sender_ok_def Let_def SIEVE2_OK_def SIEVE2_DONE_def split: option.splits)

lemma vacation_sender_no_addresses:
  assumes "vacation_sender cl c l body myaddr [] = Some (SIEVE2_OK, reply_to, c')"
  obtains body' where "l = SIEVE2_OK" and "reply_to = None"
    and "envelope_to_body cl c ''from'' body = Some (SIEVE2_OK, None, body', c')"
proof (cases "l = SIEVE2_OK")
  case True
  obtain l1 v body1 c1 where e: "envelope_to_body cl c ''from'' body = Some (l1, v, body1, c1)"
    using assms True by (auto simp: vacation_sender_def bind_eq_Some_conv)
  have "v = None" using assms True e envelope_to_body_result [OF e]
    by (cases v) (auto simp: vacation_sender_def bind_eq_Some_conv sender_no_addresses SIEVE2_OK_def SIEVE2_DONE_def)
  then show ?thesis
    using that [of body1] assms True e envelope_to_body_result [OF e] by (simp add: vacation_sender_def)
qed (use assms in \<open>simp add: vacation_sender_def\<close>)

lemma my_address_ok: "vacation_my_address cl c l body = Some (SIEVE2_OK, a, body', c') \<Longrightarrow> l = SIEVE2_OK"
  by (auto simp: vacation_my_address_def split: if_splits)

text \<open>
  C21. A vacation without \<^verbatim>\<open>:addresses\<close> never replies to a sender: the code looks for the user's
  own address in the list given there only, and does not find it in an empty list. Either the client
  is asked questions and no action is called, with the result 0; or no header suppressed the reply,
  and the question for the sender of the envelope, asked behind the one for its recipient, left
  \<^verbatim>\<open>NULL\<close>: then, after further questions and without an action before it,
  \<^verbatim>\<open>libsieve_do_vacation\<close> is called with the address \<^verbatim>\<open>NULL\<close>, and its result is the
  result.
\<close>
theorem vacation_without_addresses:
  assumes "eval_vacation (logging cl) c v = Some (r, c')" and "v_addresses v = []" and "idle c"
  shows "(\<exists>l. snd (world c') = snd (world c) @ l \<and> set l \<inter> action_values = {} \<and> r = 0) \<or>
    (\<exists>body c1 myaddr body2 c2 body3 c3 c5 l fnd subj h.
      vacation_suppressed (logging cl) c = Some (SIEVE2_OK, body, c1) \<and>
      vacation_my_address (logging cl) c1 SIEVE2_OK body = Some (SIEVE2_OK, myaddr, body2, c2) \<and>
      envelope_to_body (logging cl) c2 ''from'' body2 = Some (SIEVE2_OK, None, body3, c3) \<and>
      snd (world c5) = snd (world c) @ l \<and> set l \<inter> action_values = {} \<and> idle c5 \<and> actions c5 = actions c \<and>
      libsieve_do_vacation (logging cl) c5 None fnd subj (v_message v) h (v_days v) (v_mime v) = Some (r, c'))"
proof (cases rule: vacation_ends [OF assms(1)])
  case 1
  then show ?thesis using assms(3) vacation_result [OF assms(1)] by (auto simp: quiet_def SIEVE2_OK_def SIEVE2_ERROR_EXEC_def)
next
  case (2 c2 l body myaddr reply_to c3 c5 fnd subj handle l0 body0 c1)
  have "vacation_sender (logging cl) c2 l body myaddr [] = Some (SIEVE2_OK, reply_to, c3)" using 2(2) assms(2) by simp
  then obtain body' where ok: "l = SIEVE2_OK" "reply_to = None"
    "envelope_to_body (logging cl) c2 ''from'' body = Some (SIEVE2_OK, None, body', c3)"
    by (rule vacation_sender_no_addresses)
  have "l0 = SIEVE2_OK" using 2(5) ok(1) my_address_ok by simp
  moreover obtain ls where "snd (world c5) = snd (world c) @ ls" "set ls \<inter> action_values = {}" "idle c5" "actions c5 = actions c"
    using 2(1) assms(3) by (auto simp: quiet_def)
  ultimately show ?thesis using 2(3-5) ok by blast
qed

abbreviation plain_vacation :: vacation where
  "plain_vacation \<equiv> \<lparr>v_subject = None, v_days = 7, v_addresses = [], v_message = ''gone'', v_mime = 0, v_from = None, v_handle = None\<rparr>"

lemma vacation_without_addresses_witness:
  "\<exists>r c'. eval_vacation (logging silent_client) (zero_context no_message ((), [])) plain_vacation = Some (r, c') \<and>
    ((\<exists>l. snd (world c') = l \<and> set l \<inter> action_values = {} \<and> r = 0) \<or>
     (\<exists>c5 fnd subj h. libsieve_do_vacation (logging silent_client) c5 None fnd subj ''gone'' h 7 0 = Some (r, c')))"
proof -
  have "eval_vacation (logging silent_client) (zero_context no_message ((), [])) plain_vacation \<noteq> None" by code_simp
  then obtain r c' where run: "eval_vacation (logging silent_client) (zero_context no_message ((), [])) plain_vacation = Some (r, c')"
    by auto
  have start: "idle (zero_context no_message ((), []))" "snd (world (zero_context no_message ((), []))) = []"
    and none: "v_addresses plain_vacation = []"
    by (simp_all add: zero_context_def idle_def)
  from vacation_without_addresses [OF run none start(1), unfolded start(2) append_Nil] run show ?thesis
    by (elim disjE exE conjE) auto
qed

section \<open>The handle of a reply\<close>

lemma length_dec_string: "length (dec_string n) = 1 \<longleftrightarrow> n < 10"
  by (subst dec_string.simps) auto

text \<open>
  C30. The handle of a vacation that names none: with a \<^verbatim>\<open>:mime\<close> value of one digit its block holds
  subject, sender, message and value, separated by colons; with a value of more digits, as the
  token that the grammar stores for \<^verbatim>\<open>:mime\<close>, the text is written past the end of the block.
\<close>
theorem handle_fits_one_digit:
  assumes "v_handle v = None" and "0 \<le> v_mime v" and "nul_free (handle_text v)"
    and "length (or_empty (v_subject v)) + length (or_empty (v_from v)) + length (v_message v) + 5 < 2 ^ 31"
  shows "vacation_handle v = (if v_mime v < 10 then Some (handle_text v) else None)"
proof -
  let ?n = "length (or_empty (v_subject v)) + length (or_empty (v_from v)) + length (v_message v)"
  have j: "to_int32 (int ?n + 5) = int ?n + 5" using assms(4) by (intro to_int32_id) simp_all
  have len: "length (handle_text v) = ?n + 3 + length (dec_string (nat (v_mime v)))"
    using assms(2) by (simp add: handle_text_def int_string_def)
  show ?thesis
  proof (cases "v_mime v < 10")
    case True
    then have "length (handle_text v) = ?n + 4" using len length_dec_string [of "nat (v_mime v)"] assms(2) by simp
    then have "blk_write (replicate (?n + 5) None) 0 (handle_text v @ [CHR 0x00]) = Some (map Some (handle_text v @ [CHR 0x00]))"
      by (simp add: blk_write_def)
    moreover have "block_cstr (map Some (handle_text v @ [CHR 0x00])) = Some (handle_text v)"
      using assms(3) by (intro block_cstr_terminated [where n = "length (handle_text v)"]) (simp_all add: nth_append)
    ultimately show ?thesis using True assms(1) j by (simp add: vacation_handle_def Let_def nat_add_distrib)
  next
    case False
    then have "length (dec_string (nat (v_mime v))) \<noteq> 1" using length_dec_string by simp
    moreover have "length (dec_string (nat (v_mime v))) \<noteq> 0" by simp
    ultimately have "?n + 5 < length (handle_text v) + 1" using len by linarith
    then have "blk_write (replicate (?n + 5) None) 0 (handle_text v @ [CHR 0x00]) = None"
      by (simp add: blk_write_def)
    then show ?thesis using False assms(1) j by (simp add: vacation_handle_def Let_def nat_add_distrib)
  qed
qed

lemma handle_fits_one_digit_witness:
  "vacation_handle (plain_vacation\<lparr>v_mime := 307\<rparr>) = None"
proof -
  have "nul_free (handle_text (plain_vacation\<lparr>v_mime := 307\<rparr>))" by code_simp
  then show ?thesis using handle_fits_one_digit [of "plain_vacation\<lparr>v_mime := 307\<rparr>"] by (simp add: or_empty_def)
qed

section \<open>Nested tests\<close>

fun nested :: "nat \<Rightarrow> test \<Rightarrow> test" where
  "nested 0 t = t"
| "nested (Suc d) t = Allof [Some (nested d t)]"

text \<open>A test run \<open>n\<close> times in a row, each run with the result true.\<close>

fun run_times :: "'w client \<Rightarrow> test \<Rightarrow> nat \<Rightarrow> 'w sieve2_context \<Rightarrow> 'w sieve2_context option" where
  "run_times cl t 0 c = Some c"
| "run_times cl t (Suc n) c =
     do { (b, c) \<leftarrow> static_evaltest cl c (Some t); (if b then run_times cl t n c else None) }"

lemma run_times_add: "run_times cl t (m + n) c = Option.bind (run_times cl t m c) (run_times cl t n)"
proof (induction m arbitrary: c)
  case (Suc m)
  then show ?case by (cases "evaltest_node cl c t") (auto split: prod.split)
qed simp

text \<open>
  C29. A test in \<open>d\<close> nested \<^verbatim>\<open>allof\<close> is evaluated 2 to the power of \<open>d\<close> times in a row, with all
  that the evaluation asks of the client, when it succeeds each time: every \<^verbatim>\<open>allof\<close> evaluates a
  test that holds twice.
\<close>
theorem allof_doubles:
  assumes "run_times cl t (2 ^ d) c = Some c'"
  shows "static_evaltest cl c (Some (nested d t)) = Some (True, c')"
  using assms
proof (induction d arbitrary: c c')
  case 0
  then show ?case by (auto simp: bind_eq_Some_conv split: if_splits prod.splits)
next
  case (Suc d)
  have two: "(2 :: nat) ^ Suc d = 2 ^ d + 2 ^ d" by simp
  obtain c1 where c1: "run_times cl t (2 ^ d) c = Some c1" "run_times cl t (2 ^ d) c1 = Some c'"
    using Suc.prems unfolding two run_times_add by (auto simp: bind_eq_Some_conv)
  show ?case using Suc.IH [OF c1(1)] Suc.IH [OF c1(2)] by simp
qed

definition counting_client :: "nat client" where
  "counting_client = \<lparr>cl_call = (\<lambda>_ _ _ w. ([SetInt (Some ''size'') 5], w + 1)), cl_written = (\<lambda>_ _ w. w),
     cl_regexec = (\<lambda>_ _. 1), cl_regcomp = (\<lambda>_ _. None), cl_syntax_error = ''syntax error''\<rparr>"

lemma allof_doubles_witness:
  "map_option (\<lambda>(b, c). (b, world c))
     (static_evaltest counting_client ((zero_context no_message 0)\<lparr>callbacks := no_callbacks\<lparr>cb_getsize := Some (User 0)\<rparr>\<rparr>)
        (Some (nested 3 (Tsize tok_OVER 1)))) = Some (True, 8)"
proof -
  let ?c = "(zero_context no_message 0)\<lparr>callbacks := no_callbacks\<lparr>cb_getsize := Some (User 0)\<rparr>\<rparr>"
  have run: "map_option world (run_times counting_client (Tsize tok_OVER 1) (2 ^ 3) ?c) = Some 8" by code_simp
  then obtain c' where c': "run_times counting_client (Tsize tok_OVER 1) (2 ^ 3) ?c = Some c'" "world c' = 8" by auto
  show ?thesis by (simp add: allof_doubles [OF c'(1)] c'(2) del: static_evaltest.simps)
qed

end
