(* ===== verification/Registration.thy ===== *)
theory Registration
  imports Interface
begin

text \<open>
  The registration of callbacks, \<^verbatim>\<open>sieve2_callbacks\<close>, as writes to a registry whose laws are those
  of a map, and what \<^verbatim>\<open>sieve2_listextensions\<close> reports about a context.
\<close>

section \<open>A registry\<close>


section \<open>The callbacks of a context\<close>














section \<open>The extensions reported\<close>

lemma strconcat_room_fits: "length (concat strs) \<le> room \<Longrightarrow> strconcat_room room strs = room - length (concat strs)"
  by (induction strs arbitrary: room) auto

lemma nul_free_pieces: "\<forall>p \<in> set (extension_pieces s). nul_free p"
  unfolding extension_pieces_def by (simp split: if_split)

lemma length_pieces: "length (concat (tl (extension_pieces s))) < 256"
  unfolding extension_pieces_def by (simp add: if_distrib [of length])

text \<open>
  The list of extensions: it always names regex, imap4flags and relational, and the six others
  exactly when the context supports them, in a fixed order; the text fits the buffer it is built in.
\<close>
theorem extensions_listed:
  "sieve2_listextensions c = Some (concat (extension_pieces (support c)))"
proof -
  let ?ps = "extension_pieces (support c)"
  have ps: "?ps = ''regex '' # tl ?ps" by (simp add: extension_pieces_def)
  have "strconcat_room 0 ?ps = 256 - length (concat (tl ?ps))"
    using length_pieces [of "support c"] by (subst ps) (simp add: strconcat_room_fits)
  then have "strconcat_room 0 ?ps \<noteq> 0" using length_pieces [of "support c"] by simp
  moreover have "nul_free (concat ?ps)" using nul_free_pieces [of "support c"] by auto
  moreover have "?ps \<noteq> []" by (subst ps) simp
  ultimately show ?thesis
    using libsieve_strconcat_eq [of ?ps] by (auto simp: sieve2_listextensions_def strconcat_str_def)
qed

end
