(* ===== verification/Header_Tests.thy ===== *)
theory Header_Tests
  imports Interface Internal_Headers
begin

text \<open>
  Header tests on the header table of a message: from the header text a client supplies to
  \<^verbatim>\<open>sieve2_execute\<close>, through scanner, grammar and table, to what \<^verbatim>\<open>static_evaltest\<close> decides.
\<close>

section \<open>Tests on the header table\<close>

text \<open>The bodies the table has for a name.\<close>

definition bodies_of :: "'w sieve2_context \<Rightarrow> string \<Rightarrow> string list" where
  "bodies_of c s = the (table_lookup (message c) (map c_tolower s))"

lemma bodies_of_frame: "frame c c' \<Longrightarrow> bodies_of c' = bodies_of c"
  by (simp add: bodies_of_def frame_fields fun_eq_iff)

text \<open>A pattern holds for a header: for one of its bodies, or for their number.\<close>

definition pattern_holds :: "(pattern \<Rightarrow> string \<Rightarrow> bool) \<Rightarrow> bool \<Rightarrow> string list \<Rightarrow> pattern \<Rightarrow> bool" where
  "pattern_holds f counting bs p = (if counting then f p (countstr (length bs)) else (\<exists>b \<in> set bs. f p b))"

lemma header_values_meaning:
  assumes "\<And>t. run_comparator (cl_regexec cl) cmp p t = Some (f t)"
  shows "header_values cl False cmp p (map (\<lambda>b. Some (Some b)) bs @ Some None # rest) n = Some (n, \<exists>b \<in> set bs. f b)"
    and "header_values cl True cmp p (map (\<lambda>b. Some (Some b)) bs @ Some None # rest) n = Some (n + length bs, False)"
  using assms by (induction bs arbitrary: n) auto

lemma header_patterns_meaning:
  assumes "\<And>p t. p \<in> set pl \<Longrightarrow> run_comparator (cl_regexec cl) cmp p t = Some (f p t)"
  shows "header_patterns cl counting cmp (map (\<lambda>b. Some (Some b)) bs @ Some None # rest) pl
    = Some (\<exists>p \<in> set pl. pattern_holds f counting bs p)"
  using assms
proof (induction pl)
  case (Cons p pl)
  have p: "run_comparator (cl_regexec cl) cmp p t = Some (f p t)" for t using Cons.prems by simp
  have ih: "header_patterns cl counting cmp (map (\<lambda>b. Some (Some b)) bs @ Some None # rest) pl
    = Some (\<exists>p \<in> set pl. pattern_holds f counting bs p)"
    by (rule Cons.IH) (use Cons.prems in auto)
  show ?case
    using ih by (cases counting) (auto simp: header_values_meaning [OF p] p pattern_holds_def)
qed simp

lemma header_names_meaning:
  assumes "internal_headers c" and "\<forall>s \<in> set sl. seven_bit s"
    and "\<And>p t. p \<in> set pl \<Longrightarrow> run_comparator (cl_regexec cl) cmp p t = Some (f p t)"
  shows "\<exists>c'. header_names cl comptag cmp pl c sl
      = Some (\<exists>s \<in> set sl. bodies_of c s \<noteq> [] \<and> (\<exists>p \<in> set pl. pattern_holds f (libsieve_relational_count comptag) (bodies_of c s) p), c') \<and>
    frame c c' \<and> internal_headers c' \<and> world c' = world c"
  using assms(1,2)
proof (induction sl arbitrary: c)
  case (Cons s sl)
  let ?hit = "\<lambda>c s. bodies_of c s \<noteq> [] \<and> (\<exists>p \<in> set pl. pattern_holds f (libsieve_relational_count comptag) (bodies_of c s) p)"
  have s: "seven_bit s" using Cons.prems by simp
  show ?case
  proof (rule getheader_cases [OF Cons.prems(1) s, where cl = cl])
    fix c1
    assume absent: "table_lookup (message c) (map c_tolower s) = Some []" "libsieve_do_getheader cl c s = Some (SIEVE2_DONE, Notfound, c1)"
      "frame c c1" "internal_headers c1" "world c1 = world c"
    have "bodies_of c s = []" using absent(1) by (simp add: bodies_of_def)
    moreover obtain c' where "header_names cl comptag cmp pl c1 sl = Some (\<exists>s \<in> set sl. ?hit c1 s, c')"
      "frame c1 c'" "internal_headers c'" "world c' = world c1"
      using Cons.IH [OF absent(4)] Cons.prems(2) by auto
    ultimately show ?thesis
      using absent(2,3,5) frame_trans [OF absent(3)] by (auto simp: bodies_of_frame [OF absent(3)] SIEVE2_OK_def SIEVE2_DONE_def)
  next
    fix j b bs rest c1
    assume present: "table_lookup (message c) (map c_tolower s) = Some (b # bs)"
      "libsieve_do_getheader cl c s = Some (SIEVE2_OK, Contents j, c1)"
      "array_cells c1 (Contents j) = Some (map (\<lambda>b. Some (Some b)) (b # bs) @ Some None # rest)"
      "frame c c1" "internal_headers c1" "world c1 = world c"
    have bodies: "bodies_of c s = b # bs" using present(1) by (simp add: bodies_of_def)
    note pats = header_patterns_meaning [OF assms(3), where bs = "b # bs" and counting = "libsieve_relational_count comptag" and rest = rest]
    show ?thesis
    proof (cases "?hit c s")
      case True
      then show ?thesis using present pats by (auto simp: bodies simp del: list.map)
    next
      case False
      moreover obtain c' where "header_names cl comptag cmp pl c1 sl = Some (\<exists>s \<in> set sl. ?hit c1 s, c')"
        "frame c1 c'" "internal_headers c'" "world c' = world c1"
        using Cons.IH [OF present(5)] Cons.prems(2) by auto
      ultimately show ?thesis
        using present(2,3,6) pats frame_trans [OF present(4)]
        by (auto simp: bodies bodies_of_frame [OF present(4)] simp del: list.map)
    qed
  qed
qed simp

lemma exists_names_meaning:
  assumes "internal_headers c" and "\<forall>s \<in> set sl. seven_bit s"
  shows "\<exists>c'. exists_names cl c sl = Some (\<forall>s \<in> set sl. bodies_of c s \<noteq> [], c') \<and>
    frame c c' \<and> internal_headers c' \<and> world c' = world c"
  using assms
proof (induction sl arbitrary: c)
  case (Cons s sl)
  have s: "seven_bit s" using Cons.prems by simp
  show ?case
  proof (rule getheader_cases [OF Cons.prems(1) s, where cl = cl])
    fix c1
    assume "table_lookup (message c) (map c_tolower s) = Some []" "libsieve_do_getheader cl c s = Some (SIEVE2_DONE, Notfound, c1)"
      "frame c c1" "internal_headers c1" "world c1 = world c"
    then show ?thesis by (simp add: bodies_of_def SIEVE2_OK_def SIEVE2_DONE_def)
  next
    fix j b bs rest c1
    assume present: "table_lookup (message c) (map c_tolower s) = Some (b # bs)"
      "libsieve_do_getheader cl c s = Some (SIEVE2_OK, Contents j, c1)" "frame c c1" "internal_headers c1" "world c1 = world c"
    obtain c' where "exists_names cl c1 sl = Some (\<forall>s \<in> set sl. bodies_of c1 s \<noteq> [], c')" "frame c1 c'"
      "internal_headers c'" "world c' = world c1"
      using Cons.IH [OF present(4)] Cons.prems(2) by auto
    then show ?thesis
      using present frame_trans [OF present(3)] by (auto simp: bodies_of_frame [OF present(3)]) (simp_all add: bodies_of_def)
  qed
qed simp

section \<open>From the text of a header\<close>

text \<open>A client that answers the call for all headers with a text.\<close>

definition answers_headers :: "'w client \<Rightarrow> 'w sieve2_context \<Rightarrow> string \<Rightarrow> bool" where
  "answers_headers cl c h = (case cb_getallheaders (callbacks c) of
     Some (User i) \<Rightarrow> (\<forall>k. fst (cl_call cl i (user_data c) k (world c)) = [SetString (Some ''allheaders'') (Some h)])
   | _ \<Rightarrow> False)"

lemma getallheaders_answer:
  assumes "idle c" and "2 \<le> length (call_values (call c))" and "answers_headers cl c h"
  obtains c' i k where "libsieve_do_getallheaders cl c = Some (SIEVE2_OK, Some h, c')" and "frame c c'" and "idle c'"
    and "slots c' = slots c" and "cb_getallheaders (callbacks c) = Some (User i)"
    and "world c' = snd (cl_call cl i (user_data c) k (world c))" and "call_code k = SIEVE2_MESSAGE_GETALLHEADERS"
proof -
  let ?c = "begin_call SIEVE2_MESSAGE_GETALLHEADERS c"
  have clear: "fst (clear_slot s) = NoName" for s by (cases s rule: clear_slot.cases) auto
  have ws: "call_values (call ?c) = string_slots [] @ map clear_slot (call_values (call c))"
    "call_code (call ?c) = SIEVE2_MESSAGE_GETALLHEADERS" "slots ?c = slots c"
    using assms(1) by (simp_all add: libsieve_callback_begin_def idle_def)
  note f = frame_fields [OF begin_frame]
  obtain i where i: "cb_getallheaders (callbacks c) = Some (User i)"
    and k: "\<And>k. fst (cl_call cl i (user_data c) k (world c)) = [SetString (Some ''allheaders'') (Some h)]"
    using assms(3) by (auto simp: answers_headers_def split: option.splits callback_func.splits)
  have cb: "callback_of SIEVE2_MESSAGE_GETALLHEADERS (callbacks ?c) = Some (User i)" by (simp add: callback_of_def f(3) i)
  have ans: "fst (cl_call cl i (user_data ?c) (call ?c) (world ?c)) = [SetString (Some ''allheaders'') (Some h)]"
    using k by (simp add: f(9))
  have some: "map clear_slot (call_values (call c)) \<noteq> []" "\<forall>s \<in> set (map clear_slot (call_values (call c))). fst s = NoName"
    "find (\<lambda>(m, v). strcasecmp m ''allheaders'' = 0) [] = None"
    using assms(2) clear by auto
  from string_answer [OF begin_in_call [OF assms(1)] cb ans ws(1) some] obtain c1 c' where
    "libsieve_callback_do cl ?c SIEVE2_MESSAGE_GETALLHEADERS = Some (SIEVE2_OK, c1)"
    "sieve2_getvalue_string c1 (Some ''allheaders'') = Some (Some h)"
    "libsieve_callback_end c1 SIEVE2_MESSAGE_GETALLHEADERS = Some (SIEVE2_OK, c')" "frame ?c c'" "idle c'" "slots c' = slots c"
    "world c' = snd (cl_call cl i (user_data c) (call ?c) (world c))"
    using ws(3) by (auto simp: f(9))
  moreover from this(4) have "frame c c'" by (rule frame_trans [OF begin_frame])
  ultimately show ?thesis
    using that [of c' i "call ?c"] i ws(2) by (simp add: libsieve_do_getallheaders_def Let_def)
qed

definition headers_ready :: "'w client \<Rightarrow> 'w sieve2_context \<Rightarrow> (string \<times> string \<times> string list) list \<Rightarrow> bool" where
  "headers_ready cl c es \<longleftrightarrow>
     idle c \<and> cb_getheader (callbacks c) = None \<and> answers_headers cl c (print_headers es) \<and> header_scan c = H_INITIAL \<and>
     2 \<le> length (call_values (call c)) \<and> printable_message es \<and>
     m_hash (message c) = replicate (m_hashsize (message c)) None \<and> m_hashsize (message c) = HEADERHASHSIZE"

lemma execute_headers_table:
  assumes "headers_ready cl c es"
  obtains c' where "execute_headers cl c = Some (None, c')" and "internal_headers c'"
    and "\<And>q. seven_bit q \<Longrightarrow> bodies_of c' q = message_bodies es q"
    and "slflags c' = slflags c" and "actions c' = actions c" and "script c' = script c" and "support c' = support c"
    and "require c' = require c" and "addr_scan c' = addr_scan c" and "sieve_scan c' = sieve_scan c"
    and "callbacks c' = (callbacks c)\<lparr>cb_getheader := Some Message2_getheader\<rparr>"
    and "\<exists>i k. cb_getallheaders (callbacks c) = Some (User i) \<and> call_code k = SIEVE2_MESSAGE_GETALLHEADERS \<and>
      world c' = snd (cl_call cl i (user_data c) k (world c))"
proof -
  have r: "idle c" "cb_getheader (callbacks c) = None" "answers_headers cl c (print_headers es)" "header_scan c = H_INITIAL"
      "2 \<le> length (call_values (call c))" "es \<noteq> []"
      "m_hash (message c) = replicate (m_hashsize (message c)) None \<and> m_hashsize (message c) = HEADERHASHSIZE"
      "\<forall>(n, t, ws) \<in> set es. printable (n, t, ws) \<and> seven_bit n \<and> joinable t ws"
      "card ((\<lambda>e. map c_tolower (fst e)) ` set es) \<le> HEADERHASHSIZE"
    using assms unfolding headers_ready_def printable_message_def list_all_iff by auto
  have names: "\<forall>(n, t, ws) \<in> set es. seven_bit n \<and> joinable t ws" using r(8) by fastforce
  from getallheaders_answer [OF r(1,5,3)] obtain c1 i k where c1:
    "libsieve_do_getallheaders cl c = Some (SIEVE2_OK, Some (print_headers es), c1)" "frame c c1" "idle c1"
    "length (call_values (call c1)) = length (call_values (call c))"
    and world: "cb_getallheaders (callbacks c) = Some (User i)" "world c1 = snd (cl_call cl i (user_data c) k (world c))"
      "call_code k = SIEVE2_MESSAGE_GETALLHEADERS" .
  let ?m = "(message c)\<lparr>m_header := Some (print_headers es)\<rparr>"
  have "m_hash ?m = replicate (m_hashsize ?m) None \<and> m_hashsize ?m = HEADERHASHSIZE" using r(7) by simp
  from parsed_table [OF this r(6) names r(9)] obtain hl m' where
    m': "libsieve_header_parse_buffer (concat (map header_tokens es)) = Some (Some hl)"
      "hash_fill (replicate (length hl) True) ?m hl = Some (SIEVE2_OK, m')" "table_inv m'"
      "\<And>q. seven_bit q \<Longrightarrow> table_lookup m' (map c_tolower q) = Some (message_bodies es q)" by blast
  obtain cond line where scan: "header_parse_text H_INITIAL (print_headers es) = Some (Some hl, cond, line)"
    using parse_print_headers [OF r(8)] m'(1) by (metis option.simps(9) prod.collapse)
  note f = frame_fields [OF c1(2)]
  let ?c2 = "c1\<lparr>callbacks := (callbacks c)\<lparr>cb_getheader := Some Message2_getheader\<rparr>, header_scan := cond, message := m'\<rparr>"
  show ?thesis
  proof (rule that)
    have "cb_getallheaders (callbacks c) \<noteq> None" using r(3) by (cases "cb_getallheaders (callbacks c)") (simp_all add: answers_headers_def)
    then show "execute_headers cl c = Some (None, ?c2)"
      using c1(1) r(2,4) scan m'(2) f
      by (simp add: execute_headers_def libsieve_message2_parseheader_def Let_def)
    show "internal_headers ?c2" using c1(3,4) r(5) m'(3) by (simp add: internal_headers_def idle_def)
    show "bodies_of ?c2 q = message_bodies es q" if "seven_bit q" for q
      using m'(4) [OF that] by (simp add: bodies_of_def)
    show "\<exists>i k. cb_getallheaders (callbacks c) = Some (User i) \<and> call_code k = SIEVE2_MESSAGE_GETALLHEADERS \<and>
      world ?c2 = snd (cl_call cl i (user_data c) k (world c))"
      using world by auto
  qed (simp_all add: f)
qed

section \<open>The tests of a script on the message\<close>

text \<open>
  C4. What the tests \<^verbatim>\<open>header\<close> and \<^verbatim>\<open>exists\<close> of a script decide about a message. The context
  is idle, with at least two slots for values, its scanner of headers in the initial state, its header
  table empty, without a function for \<^verbatim>\<open>getheader\<close>, and the client answers
  \<^verbatim>\<open>getallheaders\<close> with the text of a message: at least one header, each with a 7-bit name
  without a colon and a body that is not empty and does not start with white space, no line end or NUL
  inside a line, no continuation line of exactly 256 characters, and at most 1019 names that differ up
  to case. Then \<^verbatim>\<open>sieve2_execute\<close> scans,
  parses and hashes the headers without an error. For 7-bit names, and for patterns whose comparison is
  defined on every text, a header test then succeeds iff the message has a header of one of the names,
  in any case, and one of the patterns holds for it, that is, matches one of its bodies, joined with
  their continuation lines, or, under \<^verbatim>\<open>:count\<close>, is in relation to their number; an exists test
  iff it has a header of every name. A header that is absent never satisfies a count, not even a count
  of zero.
\<close>
theorem tests_decide_message:
  assumes "headers_ready cl c es" and "\<forall>s \<in> set sl. seven_bit s"
    and "\<And>p t. p \<in> set pl \<Longrightarrow> run_comparator (cl_regexec cl) cmp p t = Some (f p t)"
  shows "\<exists>c1 c2 c3. execute_headers cl c = Some (None, c1) \<and>
    static_evaltest cl c1 (Some (Header comptag cmp sl pl))
      = Some (\<exists>s \<in> set sl. message_bodies es s \<noteq> []
                \<and> (\<exists>p \<in> set pl. pattern_holds f (libsieve_relational_count comptag) (message_bodies es s) p), c2) \<and>
    static_evaltest cl c1 (Some (Exists sl)) = Some (\<forall>s \<in> set sl. message_bodies es s \<noteq> [], c3) \<and>
    world c2 = world c1 \<and> world c3 = world c1"
proof (rule execute_headers_table [OF assms(1)])
  fix c1
  assume c1: "execute_headers cl c = Some (None, c1)" "internal_headers c1"
    and bodies: "\<And>q. seven_bit q \<Longrightarrow> bodies_of c1 q = message_bodies es q"
  have b: "bodies_of c1 s = message_bodies es s" if "s \<in> set sl" for s using bodies assms(2) that by blast
  have "\<exists>c2. header_names cl comptag cmp pl c1 sl
      = Some (\<exists>s \<in> set sl. bodies_of c1 s \<noteq> []
          \<and> (\<exists>p \<in> set pl. pattern_holds f (libsieve_relational_count comptag) (bodies_of c1 s) p), c2) \<and> world c2 = world c1"
    using header_names_meaning [OF c1(2) assms(2) assms(3), of pl comptag] by auto
  moreover have "\<exists>c3. exists_names cl c1 sl = Some (\<forall>s \<in> set sl. bodies_of c1 s \<noteq> [], c3) \<and> world c3 = world c1"
    using exists_names_meaning [OF c1(2) assms(2)] by blast
  ultimately show ?thesis
    using b c1(1) by (auto cong: bex_cong ball_cong)
qed

definition header_client :: "string \<Rightarrow> unit client" where
  "header_client h = silent_client\<lparr>cl_call := (\<lambda>_ _ _ w. ([SetString (Some ''allheaders'') (Some h)], w))\<rparr>"

definition header_context :: "unit sieve2_context" where
  "header_context = (zero_context \<lparr>m_hashsize = HEADERHASHSIZE, m_hashfull = False, m_header = None,
     m_hash = replicate HEADERHASHSIZE None\<rparr> ())\<lparr>callbacks := no_callbacks\<lparr>cb_getallheaders := Some (User 0)\<rparr>\<rparr>"

lemma tests_decide_message_witness:
  "\<exists>c1 c2 c3. execute_headers (header_client (print_headers [(''To'', ''a'', []), (''X'', ''b'', ['' c''])])) header_context
      = Some (None, c1) \<and>
    static_evaltest (header_client (print_headers [(''To'', ''a'', []), (''X'', ''b'', ['' c''])])) c1
      (Some (Header tok_IS Octet_is [''x''] [PatStr ''b c''])) = Some (True, c2) \<and>
    static_evaltest (header_client (print_headers [(''To'', ''a'', []), (''X'', ''b'', ['' c''])])) c1 (Some (Exists [''x'']))
      = Some (True, c3) \<and> world c2 = world c1 \<and> world c3 = world c1"
proof -
  let ?es = "[(''To'', ''a'', []), (''X'', ''b'', ['' c''])]"
  let ?cl = "header_client (print_headers ?es)"
  have "card ((\<lambda>e. map c_tolower (fst e)) ` set ?es) \<le> HEADERHASHSIZE"
    using card_image_le [of "set ?es" "\<lambda>e. map c_tolower (fst e)"] by (simp add: HEADERHASHSIZE_def card_insert_if)
  then have "printable_message ?es"
    by (simp add: printable_message_def joinable_def printable_def header_name_def header_line_def h_crlf_def h_white_def)
  then have ready: "headers_ready ?cl header_context ?es"
    by (simp add: headers_ready_def header_context_def zero_context_def idle_def answers_headers_def header_client_def
        no_callbacks_def MAX_VALUES_def)
  have f: "p \<in> set [PatStr ''b c''] \<Longrightarrow> run_comparator (cl_regexec ?cl) Octet_is p t = Some (octet_is ''b c'' t)" for p t by simp
  have names: "\<forall>s \<in> set [''x'']. seven_bit s" by simp
  have cmp: "strcasecmp ''To'' ''x'' \<noteq> 0" "strcasecmp ''X'' ''x'' = 0" by code_simp+
  have bodies: "message_bodies ?es ''x'' = [''b c'']"
    using cmp by (simp add: message_bodies_def del: strcasecmp.simps)
  have holds: "\<not> libsieve_relational_count tok_IS" "octet_is ''b c'' ''b c''" by code_simp+
  show ?thesis
    using tests_decide_message [where pl = "[PatStr ''b c'']" and f = "\<lambda>_. octet_is ''b c''" and cmp = Octet_is
        and comptag = tok_IS, OF ready names] holds
    by (simp add: bodies pattern_holds_def del: static_evaltest.simps)
qed

end
