(* ===== verification/Sieve_Parser.thy ===== *)
theory Sieve_Parser
  imports Address
begin

unbundle bit_operations_syntax

text \<open>
  The parser of Sieve scripts, \<^verbatim>\<open>src/sv_parser/sieve.y\<close>: its grammar with all semantic actions,
  the tags, checks and builders they call, and the recovery from errors at the two \<^verbatim>\<open>error\<close>
  rules.

  Bison makes an LALR automaton of the grammar. Its runs are modelled by recursive descent, which
  reads the same tokens in the same order, looks ahead where the automaton must, and runs the same
  actions. An error (a token that fits nowhere, or \<^verbatim>\<open>YYERROR\<close> in an action) unwinds to the innermost
  place on the stack where an \<^verbatim>\<open>error\<close> rule may start, a test or a command, as the automaton pops
  its states; the status counts down the three tokens after an error, within which no message is given,
  and directly after an error the token that does not fit is discarded. The texts of syntax errors,
  which the automaton composes from its tables, are an argument (the \<open>n\<close>-th of a run), and so is the
  line number that the generated scanner starts with.
\<close>

section \<open>State and outcome of the parser\<close>

record grammar_texts =
  syntax_text :: "nat \<Rightarrow> string"
  first_line :: nat

record 'w pstate =
  ps_ctx :: "'w sieve2_context"
  ps_events :: "sevent list"
  ps_look :: bool
  ps_line :: nat
  ps_status :: nat
  ps_nerrs :: nat

text \<open>
  A phrase is parsed, or an error is on its way to the next \<^verbatim>\<open>error\<close> rule, or the parser has given
  up (\<^verbatim>\<open>YYABORT\<close>); an access is undefined; or the fuel of the recursion is spent.
\<close>

datatype ('a, 'w) outcome = YOk 'a "'w pstate" | YError "'w pstate" | YAbort "'w pstate" | YUndef | YFuel

type_synonym ('a, 'w) parser = "'w pstate \<Rightarrow> ('a, 'w) outcome"

definition y_ret :: "'a \<Rightarrow> ('a, 'w) parser" where
  "y_ret x s = YOk x s"

definition y_bind :: "('a, 'w) parser \<Rightarrow> ('a \<Rightarrow> ('b, 'w) parser) \<Rightarrow> ('b, 'w) parser" where
  "y_bind p f s =
     (case p s of YOk x s \<Rightarrow> f x s | YError s \<Rightarrow> YError s | YAbort s \<Rightarrow> YAbort s | YUndef \<Rightarrow> YUndef | YFuel \<Rightarrow> YFuel)"

definition y_then :: "('a, 'w) parser \<Rightarrow> ('b, 'w) parser \<Rightarrow> ('b, 'w) parser" where
  "y_then p q = y_bind p (\<lambda>_. q)"

definition y_context :: "('w sieve2_context, 'w) parser" where
  "y_context s = YOk (ps_ctx s) s"

definition y_fuel :: "('a, 'w) parser" where
  "y_fuel s = YFuel"

text \<open>An operation on the context that may be undefined.\<close>

definition y_do :: "('w sieve2_context \<Rightarrow> ('a \<times> 'w sieve2_context) option) \<Rightarrow> ('a, 'w) parser" where
  "y_do f s = (case f (ps_ctx s) of None \<Rightarrow> YUndef | Some (x, c) \<Rightarrow> YOk x (s\<lparr>ps_ctx := c\<rparr>))"

definition y_some :: "'a option \<Rightarrow> ('a, 'w) parser" where
  "y_some x s = (case x of None \<Rightarrow> YUndef | Some x \<Rightarrow> YOk x s)"

section \<open>Errors\<close>

definition libsieve_sieveerror :: "'w client \<Rightarrow> nat \<Rightarrow> string \<Rightarrow> 'w sieve2_context \<Rightarrow> (unit \<times> 'w sieve2_context) option" where
  "libsieve_sieveerror cl lineno msg c =
     do {
       (_, c) \<leftarrow> libsieve_do_error_parse cl (c\<lparr>parse_errors := parse_errors c + 1\<rparr>) (int lineno) msg;
       Some ((), c)
     }"

definition y_message :: "'w client \<Rightarrow> string \<Rightarrow> (unit, 'w) parser" where
  "y_message cl msg s = y_do (libsieve_sieveerror cl (ps_line s) msg) s"

text \<open>\<^verbatim>\<open>YYERROR\<close>, with and without a message before it.\<close>

definition yyerror :: "('a, 'w) parser" where
  "yyerror s = YError s"

definition y_reject :: "'w client \<Rightarrow> string \<Rightarrow> ('a, 'w) parser" where
  "y_reject cl msg = y_then (y_message cl msg) yyerror"

section \<open>Tokens\<close>

text \<open>
  The token the parser sees, \<open>None\<close> at the end of the input. A character from 128 on is a negative
  token number, which the parser takes for the end.
\<close>

fun lookahead :: "sevent list \<Rightarrow> stoken option" where
  "lookahead (STok (SCh c) _ _ # _) = (if code c < 128 then Some (SCh c) else None)"
| "lookahead (STok t _ _ # _) = Some t"
| "lookahead _ = None"

definition y_peek :: "'w client \<Rightarrow> (stoken option, 'w) parser" where
  "y_peek cl s =
     (if ps_look s then YOk (lookahead (ps_events s)) s
      else (case ps_events s of
              STok t sc line # _ \<Rightarrow>
                YOk (lookahead (ps_events s))
                  (s\<lparr>ps_look := True, ps_line := line, ps_ctx := (ps_ctx s)\<lparr>sieve_scan := sc\<rparr>\<rparr>)
            | SEnd sc line unfinished # _ \<Rightarrow>
                (let s = s\<lparr>ps_look := True, ps_line := line, ps_ctx := (ps_ctx s)\<lparr>sieve_scan := sc\<rparr>\<rparr>
                 in if unfinished
                    then y_then (y_message cl ''unexpected end of file in string'') (y_ret None) s
                    else YOk None s)
            | _ \<Rightarrow> YUndef))"

definition y_shift :: "(unit, 'w) parser" where
  "y_shift s = YOk () (s\<lparr>ps_events := tl (ps_events s), ps_look := False, ps_status := ps_status s - 1\<rparr>)"

definition y_discard :: "('a, 'w) parser" where
  "y_discard s =
     (if ps_status s = 3
      then (if lookahead (ps_events s) = None then YAbort s
            else YError (s\<lparr>ps_events := tl (ps_events s), ps_look := False\<rparr>))
      else YError s)"

definition y_syntax_error :: "'w client \<Rightarrow> grammar_texts \<Rightarrow> ('a, 'w) parser" where
  "y_syntax_error cl g s =
     (if ps_status s = 0
      then y_then (y_message cl (syntax_text g (ps_nerrs s))) y_discard (s\<lparr>ps_nerrs := ps_nerrs s + 1\<rparr>)
      else y_discard s)"

definition y_expect :: "'w client \<Rightarrow> grammar_texts \<Rightarrow> stoken \<Rightarrow> (unit, 'w) parser" where
  "y_expect cl g t = y_bind (y_peek cl) (\<lambda>l. if l = Some t then y_shift else y_syntax_error cl g)"

definition y_string :: "'w client \<Rightarrow> grammar_texts \<Rightarrow> (string, 'w) parser" where
  "y_string cl g = y_bind (y_peek cl)
     (\<lambda>l. case l of Some (SStr v) \<Rightarrow> y_then y_shift (y_ret v) | _ \<Rightarrow> y_syntax_error cl g)"

definition y_number :: "'w client \<Rightarrow> grammar_texts \<Rightarrow> (int, 'w) parser" where
  "y_number cl g = y_bind (y_peek cl)
     (\<lambda>l. case l of Some (SNum v) \<Rightarrow> y_then y_shift (y_ret v) | _ \<Rightarrow> y_syntax_error cl g)"

definition y_abort :: "('a, 'w) parser" where
  "y_abort s = YAbort s"

text \<open>Where an \<^verbatim>\<open>error\<close> rule starts: the error token is shifted and the status is set.\<close>

definition y_catch :: "('a, 'w) parser \<Rightarrow> ('a, 'w) parser \<Rightarrow> ('a, 'w) parser" where
  "y_catch p h s = (case p s of YError s \<Rightarrow> h (s\<lparr>ps_status := 3\<rparr>) | r \<Rightarrow> r)"

section \<open>String lists\<close>

fun y_strings :: "'w client \<Rightarrow> grammar_texts \<Rightarrow> nat \<Rightarrow> (string list, 'w) parser" where
  "y_strings cl g 0 = y_fuel"
| "y_strings cl g (Suc n) =
     y_bind (y_string cl g) (\<lambda>v.
     y_bind (y_peek cl) (\<lambda>l.
       if l = Some (SCh CHR '','')
       then y_then y_shift (y_bind (y_strings cl g n) (\<lambda>vs. y_ret (libsieve_new_sl v vs)))
       else y_ret (libsieve_new_sl v [])))"

definition y_stringlist :: "'w client \<Rightarrow> grammar_texts \<Rightarrow> nat \<Rightarrow> (string list, 'w) parser" where
  "y_stringlist cl g n =
     y_bind (y_peek cl) (\<lambda>l.
       if l = Some (SCh CHR ''['')
       then y_then y_shift (y_bind (y_strings cl g n) (\<lambda>vs. y_then (y_expect cl g (SCh CHR '']'')) (y_ret vs)))
       else y_bind (y_string cl g) (\<lambda>v. y_ret (libsieve_new_sl v [])))"

section \<open>Checks\<close>

definition static_check_reqs :: "'w sieve2_context \<Rightarrow> string \<Rightarrow> bool \<times> 'w sieve2_context" where
  "static_check_reqs c req =
     (let s = support c; r = require c in
      if req = ''fileinto'' then (s_fileinto s, c\<lparr>require := r\<lparr>s_fileinto := s_fileinto s\<rparr>\<rparr>)
      else if req = ''reject'' then (s_reject s, c\<lparr>require := r\<lparr>s_reject := s_reject s\<rparr>\<rparr>)
      else if req = ''envelope'' then (s_envelope s, c\<lparr>require := r\<lparr>s_envelope := s_envelope s\<rparr>\<rparr>)
      else if req = ''vacation'' then (s_vacation s, c\<lparr>require := r\<lparr>s_vacation := s_vacation s\<rparr>\<rparr>)
      else if req = ''notify'' then (s_notify s, c\<lparr>require := r\<lparr>s_notify := s_notify s\<rparr>\<rparr>)
      else if req = ''subaddress'' then (s_subaddress s, c\<lparr>require := r\<lparr>s_subaddress := s_subaddress s\<rparr>\<rparr>)
      else if req = ''imap4flags'' then (True, c\<lparr>require := r\<lparr>s_imap4flags := True\<rparr>\<rparr>)
      else if req = ''regex'' then (True, c\<lparr>require := r\<lparr>s_regex := True\<rparr>\<rparr>)
      else if req = ''relational'' then (True, c\<lparr>require := r\<lparr>s_relational := True\<rparr>\<rparr>)
      else if req = ''comparator-i;octet'' then (True, c)
      else if req = ''comparator-i;ascii-casemap'' then (True, c)
      else if req = ''comparator-i;ascii-numeric'' then (True, c)
      else (False, c))"

fun require_loop :: "string list \<Rightarrow> bool \<Rightarrow> string \<Rightarrow> 'w sieve2_context \<Rightarrow> ((bool \<times> string) \<times> 'w sieve2_context) option" where
  "require_loop [] unsupp msg c = Some ((unsupp, msg), c)"
| "require_loop (s # sl) unsupp msg c =
     (case static_check_reqs c s of
        (True, c) \<Rightarrow> require_loop sl unsupp msg c
      | (False, c) \<Rightarrow> do { msg \<leftarrow> strconcat_str [msg, '' '', s]; require_loop sl True msg c })"

definition y_require :: "'w client \<Rightarrow> grammar_texts \<Rightarrow> nat \<Rightarrow> (unit, 'w) parser" where
  "y_require cl g n =
     y_bind (y_stringlist cl g n) (\<lambda>sl.
     y_then (y_expect cl g (SCh CHR '';''))
     (y_bind (y_some (strconcat_str [''unsupported feature:''])) (\<lambda>msg.
      y_bind (y_do (require_loop sl False msg)) (\<lambda>(unsupp, msg).
        if unsupp then y_reject cl msg else y_ret ()))))"

text \<open>\<^verbatim>\<open>static_verify_stringlist\<close> stops at the first string that is refused.\<close>

fun static_verify_stringlist :: "(string \<Rightarrow> (bool, 'w) parser) \<Rightarrow> string list \<Rightarrow> (bool, 'w) parser" where
  "static_verify_stringlist verify [] = y_ret True"
| "static_verify_stringlist verify (s # sl) =
     y_bind (verify s) (\<lambda>ok. if ok then static_verify_stringlist verify sl else y_ret False)"

definition static_verify_flag :: "string \<Rightarrow> (bool, 'w) parser" where
  "static_verify_flag s = y_ret True"

definition static_verify_mailbox :: "string \<Rightarrow> bool" where
  "static_verify_mailbox s = True"

definition static_ok_header :: "string \<Rightarrow> bool" where
  "static_ok_header s = True"

definition static_verify_address :: "'w client \<Rightarrow> string \<Rightarrow> (bool, 'w) parser" where
  "static_verify_address cl s =
     y_bind (y_do (\<lambda>c. libsieve_addr_parse_buffer cl c s)) (\<lambda>addr. y_ret (addr \<noteq> []))"

definition header_char :: "char \<Rightarrow> bool" where
  "header_char c \<longleftrightarrow> 33 \<le> code c \<and> code c \<le> 57 \<or> 59 \<le> code c \<and> code c \<le> 126"

definition static_verify_header :: "'w client \<Rightarrow> string \<Rightarrow> (bool, 'w) parser" where
  "static_verify_header cl hdr =
     (if \<forall>c \<in> set hdr. header_char c then y_ret True
      else y_bind (y_some (strconcat_str [''header '' @ [CHR 0x27], hdr, [CHR 0x27] @ '': not a valid header'']))
             (\<lambda>err. y_then (y_message cl err) (y_ret False)))"

definition REG_EXTENDED :: int where "REG_EXTENDED = 1"
definition REG_ICASE :: int where "REG_ICASE = 2"
definition REG_NOSUB :: int where "REG_NOSUB = 8"

text \<open>
  \<^verbatim>\<open>libsieve_regcomp\<close> is the client's \<open>cl_regcomp\<close>: the text of the error, or \<open>None\<close>. The
  buffer for the text has 100 bytes.
\<close>

definition static_verify_regex :: "'w client \<Rightarrow> string \<Rightarrow> int \<Rightarrow> (regex_t option, 'w) parser" where
  "static_verify_regex cl s cflags =
     (case cl_regcomp cl s cflags of
        Some err \<Rightarrow> y_then (y_message cl (take 99 err)) (y_ret None)
      | None \<Rightarrow> y_ret (Some (s, cflags)))"

fun verify_regexs_loop :: "'w client \<Rightarrow> int \<Rightarrow> string list \<Rightarrow> pattern list \<Rightarrow> (pattern list, 'w) parser" where
  "verify_regexs_loop cl cflags [] pl = y_ret pl"
| "verify_regexs_loop cl cflags (s # sl) pl =
     y_bind (static_verify_regex cl s cflags) (\<lambda>reg. case reg of
         None \<Rightarrow> y_ret []
       | Some reg \<Rightarrow> verify_regexs_loop cl cflags sl (libsieve_new_pl reg pl))"

definition static_verify_regexs :: "'w client \<Rightarrow> string list \<Rightarrow> string \<Rightarrow> (pattern list, 'w) parser" where
  "static_verify_regexs cl sl coll =
     (let cflags = REG_EXTENDED OR REG_NOSUB;
          cflags = (if coll = ''i;ascii-casemap'' then cflags OR REG_ICASE else cflags)
      in verify_regexs_loop cl cflags sl [])"

section \<open>Tags\<close>

record htags =
  ht_comparator :: "string option"
  ht_comptag :: int

record aetags = htags +
  aet_addrtag :: int

record vtags =
  vt_days :: int
  vt_addresses :: "string list"
  vt_subject :: "string option"
  vt_mime :: int
  vt_from :: "string option"
  vt_handle :: "string option"

record ntags =
  nt_method :: "string option"
  nt_id :: "string option"
  nt_options :: "string list"
  nt_priority :: "string option"
  nt_message :: "string option"

definition static_new_htags :: htags where
  "static_new_htags = \<lparr>ht_comparator = None, ht_comptag = - 1\<rparr>"

definition static_new_hftags :: htags where
  "static_new_hftags = \<lparr>ht_comparator = None, ht_comptag = - 1\<rparr>"

definition static_new_aetags :: aetags where
  "static_new_aetags = \<lparr>ht_comparator = None, ht_comptag = - 1, aet_addrtag = - 1\<rparr>"

definition static_new_vtags :: vtags where
  "static_new_vtags =
     \<lparr>vt_days = - 1, vt_addresses = [], vt_subject = None, vt_mime = - 1, vt_from = None, vt_handle = None\<rparr>"

definition static_new_ntags :: ntags where
  "static_new_ntags =
     \<lparr>nt_method = None, nt_id = None, nt_options = [], nt_priority = None, nt_message = None\<rparr>"

text \<open>
  The defaults. What is left of a comparator is its string; the canonical tags are given as
  the comparator, the match type and, for an address, the part.
\<close>

definition canon_comparator :: "string option \<Rightarrow> string" where
  "canon_comparator coll = (case coll of None \<Rightarrow> ''i;ascii-casemap'' | Some s \<Rightarrow> s)"

definition static_canon_htags :: "htags \<Rightarrow> htags" where
  "static_canon_htags h =
     \<lparr>ht_comparator = Some (canon_comparator (ht_comparator h)),
      ht_comptag = (if ht_comptag h = - 1 then tok_IS else ht_comptag h)\<rparr>"

definition static_canon_aetags :: "aetags \<Rightarrow> aetags" where
  "static_canon_aetags ae =
     \<lparr>ht_comparator = Some (canon_comparator (ht_comparator ae)),
      ht_comptag = (if ht_comptag ae = - 1 then tok_IS else ht_comptag ae),
      aet_addrtag = (if aet_addrtag ae = - 1 then tok_ALL else aet_addrtag ae)\<rparr>"

definition static_canon_vtags :: "vtags \<Rightarrow> vtags" where
  "static_canon_vtags v =
     v\<lparr>vt_days := (if vt_days v = - 1 then 7 else vt_days v), vt_mime := (if vt_mime v = - 1 then 0 else vt_mime v)\<rparr>"

definition static_canon_ntags :: "ntags \<Rightarrow> ntags" where
  "static_canon_ntags n =
     n\<lparr>nt_priority := Some (case nt_priority n of None \<Rightarrow> ''normal'' | Some p \<Rightarrow> p),
       nt_message := Some (case nt_message n of None \<Rightarrow> ''$from$: $subject$'' | Some m \<Rightarrow> m)\<rparr>"

section \<open>The rules for tags\<close>

definition y_comptag :: "'w client \<Rightarrow> grammar_texts \<Rightarrow> (int, 'w) parser" where
  "y_comptag cl g =
     y_bind (y_peek cl) (\<lambda>l.
       if l = Some (Tk ''IS'') then y_then y_shift (y_ret tok_IS)
       else if l = Some (Tk ''VALUE'') then
         y_then y_shift (y_bind (y_string cl g) (\<lambda>r. y_ret (tok_VALUE OR libsieve_relational_lookup (Some r))))
       else if l = Some (Tk ''COUNT'') then
         y_then y_shift (y_bind (y_string cl g) (\<lambda>r. y_ret (tok_COUNT OR libsieve_relational_lookup (Some r))))
       else if l = Some (Tk ''CONTAINS'') then y_then y_shift (y_ret tok_CONTAINS)
       else if l = Some (Tk ''MATCHES'') then y_then y_shift (y_ret tok_MATCHES)
       else if l = Some (Tk ''REGEX'') then
         y_then y_shift (y_bind y_context (\<lambda>c.
           if \<not> s_regex (require c) then y_reject cl ''regex not required'' else y_ret tok_REGEX))
       else y_syntax_error cl g)"

definition starts_comptag :: "stoken option \<Rightarrow> bool" where
  "starts_comptag l \<longleftrightarrow>
     l \<in> Some ` Tk ` {''IS'', ''VALUE'', ''COUNT'', ''CONTAINS'', ''MATCHES'', ''REGEX''}"

definition y_addrparttag :: "'w client \<Rightarrow> grammar_texts \<Rightarrow> (int, 'w) parser" where
  "y_addrparttag cl g =
     y_bind (y_peek cl) (\<lambda>l.
       if l = Some (Tk ''ALL'') then y_then y_shift (y_ret tok_ALL)
       else if l = Some (Tk ''LOCALPART'') then y_then y_shift (y_ret tok_LOCALPART)
       else if l = Some (Tk ''DOMAIN'') then y_then y_shift (y_ret tok_DOMAIN)
       else if l = Some (Tk ''USER'') then
         y_then y_shift (y_bind y_context (\<lambda>c.
           if \<not> s_subaddress (require c) then y_reject cl ''subaddress not required'' else y_ret tok_USER))
       else if l = Some (Tk ''DETAIL'') then
         y_then y_shift (y_bind y_context (\<lambda>c.
           if \<not> s_subaddress (require c) then y_reject cl ''subaddress not required'' else y_ret tok_DETAIL))
       else y_syntax_error cl g)"

definition starts_addrparttag :: "stoken option \<Rightarrow> bool" where
  "starts_addrparttag l \<longleftrightarrow>
     l \<in> Some ` Tk ` {''ALL'', ''LOCALPART'', ''DOMAIN'', ''USER'', ''DETAIL''}"

fun y_hftags :: "'w client \<Rightarrow> grammar_texts \<Rightarrow> nat \<Rightarrow> htags \<Rightarrow> (htags, 'w) parser" where
  "y_hftags cl g 0 h = y_fuel"
| "y_hftags cl g (Suc n) h =
     y_bind (y_peek cl) (\<lambda>l.
       if starts_comptag l then y_bind (y_comptag cl g) (\<lambda>t. y_hftags cl g n (h\<lparr>ht_comptag := t\<rparr>))
       else if l = Some (Tk ''COMPARATOR'') then
         y_then y_shift (y_bind (y_string cl g) (\<lambda>v.
           if ht_comparator h \<noteq> None then y_reject cl ''duplicate comparator tag''
           else y_hftags cl g n (h\<lparr>ht_comparator := Some v\<rparr>)))
       else y_ret h)"

fun y_htags :: "'w client \<Rightarrow> grammar_texts \<Rightarrow> nat \<Rightarrow> htags \<Rightarrow> (htags, 'w) parser" where
  "y_htags cl g 0 h = y_fuel"
| "y_htags cl g (Suc n) h =
     y_bind (y_peek cl) (\<lambda>l.
       if starts_comptag l then
         y_bind (y_comptag cl g) (\<lambda>t.
           if ht_comptag h \<noteq> - 1 then y_reject cl ''duplicate comparator type tag''
           else y_htags cl g n (h\<lparr>ht_comptag := t\<rparr>))
       else if l = Some (Tk ''COMPARATOR'') then
         y_then y_shift (y_bind (y_string cl g) (\<lambda>v.
           if ht_comparator h \<noteq> None then y_reject cl ''duplicate comparator tag''
           else y_htags cl g n (h\<lparr>ht_comparator := Some v\<rparr>)))
       else y_ret h)"

fun y_aetags :: "'w client \<Rightarrow> grammar_texts \<Rightarrow> nat \<Rightarrow> aetags \<Rightarrow> (aetags, 'w) parser" where
  "y_aetags cl g 0 ae = y_fuel"
| "y_aetags cl g (Suc n) ae =
     y_bind (y_peek cl) (\<lambda>l.
       if starts_addrparttag l then
         y_bind (y_addrparttag cl g) (\<lambda>t.
           if aet_addrtag ae \<noteq> - 1 then y_reject cl ''duplicate or conflicting address part tag''
           else y_aetags cl g n (ae\<lparr>aet_addrtag := t\<rparr>))
       else if starts_comptag l then
         y_bind (y_comptag cl g) (\<lambda>t.
           if ht_comptag ae \<noteq> - 1 then y_reject cl ''duplicate comparator type tag''
           else y_aetags cl g n (ae\<lparr>ht_comptag := t\<rparr>))
       else if l = Some (Tk ''COMPARATOR'') then
         y_then y_shift (y_bind (y_string cl g) (\<lambda>v.
           if ht_comparator ae \<noteq> None then y_reject cl ''duplicate comparator tag''
           else y_aetags cl g n (ae\<lparr>ht_comparator := Some v\<rparr>)))
       else y_ret ae)"

text \<open>One string-valued tag of \<^verbatim>\<open>vtags\<close> or \<^verbatim>\<open>ntags\<close>, which may not be there twice.\<close>

definition y_string_tag :: "'w client \<Rightarrow> grammar_texts \<Rightarrow> string \<Rightarrow> string option \<Rightarrow> (string, 'w) parser" where
  "y_string_tag cl g dup old =
     y_then y_shift (y_bind (y_string cl g) (\<lambda>v.
       if old \<noteq> None then y_reject cl dup
       else if \<not> static_ok_header v then yyerror else y_ret v))"

fun y_vtags :: "'w client \<Rightarrow> grammar_texts \<Rightarrow> nat \<Rightarrow> vtags \<Rightarrow> (vtags, 'w) parser" where
  "y_vtags cl g 0 v = y_fuel"
| "y_vtags cl g (Suc n) v =
     y_bind (y_peek cl) (\<lambda>l.
       if l = Some (Tk ''DAYS'') then
         y_then y_shift (y_bind (y_number cl g) (\<lambda>k.
           if vt_days v \<noteq> - 1 then y_reject cl ''duplicate :days'' else y_vtags cl g n (v\<lparr>vt_days := k\<rparr>)))
       else if l = Some (Tk ''ADDRESSES'') then
         y_then y_shift (y_bind (y_stringlist cl g n) (\<lambda>sl.
           if vt_addresses v \<noteq> [] then y_reject cl ''duplicate :addresses''
           else y_bind (static_verify_stringlist (static_verify_address cl) sl) (\<lambda>ok.
             if \<not> ok then yyerror else y_vtags cl g n (v\<lparr>vt_addresses := sl\<rparr>))))
       else if l = Some (Tk ''SUBJECT'') then
         y_bind (y_string_tag cl g ''duplicate :subject'' (vt_subject v)) (\<lambda>x. y_vtags cl g n (v\<lparr>vt_subject := Some x\<rparr>))
       else if l = Some (Tk ''HANDLE'') then
         y_bind (y_string_tag cl g ''duplicate :handle'' (vt_handle v)) (\<lambda>x. y_vtags cl g n (v\<lparr>vt_handle := Some x\<rparr>))
       else if l = Some (Tk ''FROM'') then
         y_bind (y_string_tag cl g ''duplicate :from'' (vt_from v)) (\<lambda>x. y_vtags cl g n (v\<lparr>vt_from := Some x\<rparr>))
       else if l = Some (Tk ''MIME'') then
         y_then y_shift
           (if vt_mime v \<noteq> - 1 then y_reject cl ''duplicate :mime'' else y_vtags cl g n (v\<lparr>vt_mime := tok_MIME\<rparr>))
       else y_ret v)"

definition priority_of :: "stoken option \<Rightarrow> string option" where
  "priority_of l =
     (if l = Some (Tk ''LOW'') then Some ''low'' else if l = Some (Tk ''NORMAL'') then Some ''normal''
      else if l = Some (Tk ''HIGH'') then Some ''high'' else None)"

text \<open>A second \<^verbatim>\<open>:id\<close> is reported as a second \<^verbatim>\<open>:method\<close>.\<close>

fun y_ntags :: "'w client \<Rightarrow> grammar_texts \<Rightarrow> nat \<Rightarrow> ntags \<Rightarrow> (ntags, 'w) parser" where
  "y_ntags cl g 0 v = y_fuel"
| "y_ntags cl g (Suc n) v =
     y_bind (y_peek cl) (\<lambda>l.
       if l = Some (Tk ''ID'') then
         y_bind (y_string_tag cl g ''duplicate :method'' (nt_id v)) (\<lambda>x. y_ntags cl g n (v\<lparr>nt_id := Some x\<rparr>))
       else if l = Some (Tk ''METHOD'') then
         y_bind (y_string_tag cl g ''duplicate :method'' (nt_method v)) (\<lambda>x. y_ntags cl g n (v\<lparr>nt_method := Some x\<rparr>))
       else if l = Some (Tk ''OPTIONS'') then
         y_then y_shift (y_bind (y_stringlist cl g n) (\<lambda>sl.
           if nt_options v \<noteq> [] then y_reject cl ''duplicate :options'' else y_ntags cl g n (v\<lparr>nt_options := sl\<rparr>)))
       else if l = Some (Tk ''MESSAGE'') then
         y_bind (y_string_tag cl g ''duplicate :message'' (nt_message v)) (\<lambda>x. y_ntags cl g n (v\<lparr>nt_message := Some x\<rparr>))
       else (case priority_of l of
               Some p \<Rightarrow> y_then y_shift
                 (if nt_priority v \<noteq> None then y_reject cl ''duplicate :priority''
                  else y_ntags cl g n (v\<lparr>nt_priority := Some p\<rparr>))
             | None \<Rightarrow> y_ret v))"

section \<open>Builders\<close>

definition static_build_address ::
  "bool \<Rightarrow> aetags \<Rightarrow> string list \<Rightarrow> pattern list \<Rightarrow> test option" where
  "static_build_address envelope ae sl pl =
     map_option (\<lambda>f. (if envelope then Envelope else Address) (ht_comptag ae) f sl pl (aet_addrtag ae))
       (libsieve_comparator_lookup (canon_comparator (ht_comparator ae)) (ht_comptag ae))"

definition static_build_header :: "htags \<Rightarrow> string list \<Rightarrow> pattern list \<Rightarrow> test option" where
  "static_build_header h sl pl =
     map_option (\<lambda>f. Header (ht_comptag h) f sl pl)
       (libsieve_comparator_lookup (canon_comparator (ht_comparator h)) (ht_comptag h))"

definition static_build_vacation :: "vtags \<Rightarrow> string \<Rightarrow> command list" where
  "static_build_vacation v reason =
     [Vacation \<lparr>v_subject = vt_subject v, v_days = vt_days v, v_addresses = vt_addresses v, v_message = reason,
        v_mime = vt_mime v, v_from = vt_from v, v_handle = vt_handle v\<rparr>]"

definition static_build_notify :: "ntags \<Rightarrow> command list" where
  "static_build_notify n =
     [Notify \<lparr>n_method = nt_method n, n_id = nt_id n, n_options = nt_options n,
        n_priority = the (nt_priority n), n_message = the (nt_message n)\<rparr>]"

definition static_build_validnotif :: "string list \<Rightarrow> command list" where
  "static_build_validnotif sl = [Validnotif]"

section \<open>Tests\<close>

text \<open>The patterns of a header or address test: compiled expressions, or the strings themselves.\<close>

definition y_patterns :: "'w client \<Rightarrow> int \<Rightarrow> string \<Rightarrow> string list \<Rightarrow> (pattern list, 'w) parser" where
  "y_patterns cl comptag coll sl =
     (if comptag = tok_REGEX
      then y_bind (static_verify_regexs cl sl coll) (\<lambda>pl. if pl = [] then yyerror else y_ret pl)
      else y_ret (map PatStr sl))"

definition y_some_test :: "test option \<Rightarrow> (test, 'w) parser" where
  "y_some_test t = (case t of None \<Rightarrow> yyerror | Some t \<Rightarrow> y_ret t)"

definition y_header_test :: "'w client \<Rightarrow> grammar_texts \<Rightarrow> nat \<Rightarrow> (test, 'w) parser" where
  "y_header_test cl g n =
     y_bind (y_htags cl g n static_new_htags) (\<lambda>h.
     y_bind (y_stringlist cl g n) (\<lambda>sl.
     y_bind (y_stringlist cl g n) (\<lambda>ps.
     y_bind (static_verify_stringlist (static_verify_header cl) sl) (\<lambda>ok.
       if \<not> ok then yyerror
       else (let h = static_canon_htags h
             in y_bind (y_patterns cl (ht_comptag h) (canon_comparator (ht_comparator h)) ps) (\<lambda>pl.
                y_some_test (static_build_header h sl pl)))))))"

definition y_address_test :: "'w client \<Rightarrow> grammar_texts \<Rightarrow> nat \<Rightarrow> bool \<Rightarrow> (test, 'w) parser" where
  "y_address_test cl g n envelope =
     y_bind (y_aetags cl g n static_new_aetags) (\<lambda>ae.
     y_bind (y_stringlist cl g n) (\<lambda>sl.
     y_bind (y_stringlist cl g n) (\<lambda>ps.
     y_bind (static_verify_stringlist (static_verify_header cl) sl) (\<lambda>ok.
       if \<not> ok then yyerror
       else (let ae = static_canon_aetags ae
             in y_bind (y_patterns cl (ht_comptag ae) (canon_comparator (ht_comparator ae)) ps) (\<lambda>pl.
                y_some_test (static_build_address envelope ae sl pl)))))))"

text \<open>
  A \<^verbatim>\<open>hasflag\<close> test looks its comparator up only for a match type, and then by \<^verbatim>\<open>strcmp\<close> of a
  name that may be \<^verbatim>\<open>NULL\<close>.
\<close>

definition y_hasflag_test :: "'w client \<Rightarrow> grammar_texts \<Rightarrow> nat \<Rightarrow> (test, 'w) parser" where
  "y_hasflag_test cl g n =
     y_bind (y_hftags cl g n static_new_hftags) (\<lambda>h.
     y_bind (y_stringlist cl g n) (\<lambda>sl.
     y_bind y_context (\<lambda>c.
       if \<not> s_imap4flags (require c) then y_reject cl ''imap4flags not required''
       else y_bind (static_verify_stringlist static_verify_flag sl) (\<lambda>ok.
         if \<not> ok then yyerror
         else if ht_comptag h \<noteq> - 1 then
           y_bind (y_some (ht_comparator h)) (\<lambda>coll.
             y_ret (Hasflag (Some (ht_comptag h, libsieve_comparator_lookup coll (ht_comptag h))) sl))
         else y_ret (Hasflag None sl)))))"

definition y_size_test :: "'w client \<Rightarrow> grammar_texts \<Rightarrow> (test, 'w) parser" where
  "y_size_test cl g =
     y_bind (y_peek cl) (\<lambda>l.
       if l = Some (Tk ''OVER'') then y_then y_shift (y_bind (y_number cl g) (\<lambda>k. y_ret (Tsize tok_OVER k)))
       else if l = Some (Tk ''UNDER'') then y_then y_shift (y_bind (y_number cl g) (\<lambda>k. y_ret (Tsize tok_UNDER k)))
       else y_syntax_error cl g)"

text \<open>
  \<open>y_test_at\<close> is a place where a test stands: an error inside gives the test \<^verbatim>\<open>NULL\<close>. \<open>y_paren\<close>
  is the stack behind \<^verbatim>\<open>( test\<close>: what does not continue the list is an error that the place
  after the parenthesis takes up again.
\<close>

fun y_test :: "'w client \<Rightarrow> grammar_texts \<Rightarrow> nat \<Rightarrow> (test, 'w) parser"
  and y_test_at :: "'w client \<Rightarrow> grammar_texts \<Rightarrow> nat \<Rightarrow> (test option, 'w) parser"
  and y_testlist :: "'w client \<Rightarrow> grammar_texts \<Rightarrow> nat \<Rightarrow> (test option list, 'w) parser"
  and y_paren :: "'w client \<Rightarrow> grammar_texts \<Rightarrow> nat \<Rightarrow> test option \<Rightarrow> (test option list, 'w) parser"
  and y_tests :: "'w client \<Rightarrow> grammar_texts \<Rightarrow> nat \<Rightarrow> (test option list, 'w) parser" where
  "y_test cl g 0 = y_fuel"
| "y_test cl g (Suc n) =
     y_bind (y_peek cl) (\<lambda>l.
       if l = Some (Tk ''ANYOF'') then y_then y_shift (y_bind (y_testlist cl g n) (\<lambda>tl. y_ret (Anyof tl)))
       else if l = Some (Tk ''ALLOF'') then y_then y_shift (y_bind (y_testlist cl g n) (\<lambda>tl. y_ret (Allof tl)))
       else if l = Some (Tk ''EXISTS'') then y_then y_shift (y_bind (y_stringlist cl g n) (\<lambda>sl. y_ret (Exists sl)))
       else if l = Some (Tk ''SFALSE'') then y_then y_shift (y_ret Sfalse)
       else if l = Some (Tk ''STRUE'') then y_then y_shift (y_ret Strue)
       else if l = Some (Tk ''HASFLAG'') then y_then y_shift (y_hasflag_test cl g n)
       else if l = Some (Tk ''HEADER'') then y_then y_shift (y_header_test cl g n)
       else if l = Some (Tk ''ADDRESS'') then y_then y_shift (y_address_test cl g n False)
       else if l = Some (Tk ''ENVELOPE'') then y_then y_shift (y_address_test cl g n True)
       else if l = Some (Tk ''NOT'') then y_then y_shift (y_bind (y_test_at cl g n) (\<lambda>t. y_ret (Tnot t)))
       else if l = Some (Tk ''SIZE'') then y_then y_shift (y_size_test cl g)
       else y_syntax_error cl g)"
| "y_test_at cl g 0 = y_fuel"
| "y_test_at cl g (Suc n) =
     y_catch (y_bind (y_test cl g n) (\<lambda>t. y_ret (Some t))) (y_ret None)"
| "y_testlist cl g 0 = y_fuel"
| "y_testlist cl g (Suc n) =
     y_then (y_expect cl g (SCh CHR ''('')) (y_bind (y_test_at cl g n) (y_paren cl g n))"
| "y_paren cl g 0 t = y_fuel"
| "y_paren cl g (Suc n) t =
     y_catch (y_bind (y_tests cl g n) (\<lambda>ts. y_then (y_expect cl g (SCh CHR '')'')) (y_ret (libsieve_new_testlist t ts))))
       (y_paren cl g n None)"
| "y_tests cl g 0 = y_fuel"
| "y_tests cl g (Suc n) =
     y_bind (y_peek cl) (\<lambda>l.
       if l = Some (SCh CHR '','')
       then y_then y_shift (y_bind (y_test_at cl g n) (\<lambda>t.
            y_bind (y_tests cl g n) (\<lambda>ts. y_ret (libsieve_new_testlist t ts))))
       else y_ret [])"

section \<open>Actions\<close>

text \<open>An action that needs an extension: what \<open>needed\<close> names must have been required.\<close>

definition y_needs :: "'w client \<Rightarrow> bool \<Rightarrow> string \<Rightarrow> ('a, 'w) parser \<Rightarrow> ('a, 'w) parser" where
  "y_needs cl ok msg p = (if \<not> ok then y_reject cl msg else p)"

definition y_flag_action ::
  "'w client \<Rightarrow> grammar_texts \<Rightarrow> nat \<Rightarrow> (string list \<Rightarrow> command) \<Rightarrow> (command list, 'w) parser" where
  "y_flag_action cl g n f =
     y_then y_shift (y_bind (y_stringlist cl g n) (\<lambda>sl.
     y_bind y_context (\<lambda>c.
     y_needs cl (s_imap4flags (require c)) ''imap4flags not required''
       (y_bind (static_verify_stringlist static_verify_flag sl) (\<lambda>ok. if \<not> ok then yyerror else y_ret [f sl])))))"

definition y_fileinto :: "'w client \<Rightarrow> grammar_texts \<Rightarrow> nat \<Rightarrow> (command list, 'w) parser" where
  "y_fileinto cl g n =
     y_bind (y_peek cl) (\<lambda>l.
       if l = Some (Tk ''FLAGS'') then
         y_then y_shift (y_bind (y_stringlist cl g n) (\<lambda>sl.
         y_bind (y_string cl g) (\<lambda>mbox.
         y_bind y_context (\<lambda>c.
         y_needs cl (s_fileinto (require c)) ''fileinto not required''
         (y_needs cl (s_imap4flags (require c)) ''imap4flags not required''
         (y_bind (static_verify_stringlist static_verify_flag sl) (\<lambda>ok.
           if \<not> ok then yyerror
           else if \<not> static_verify_mailbox mbox then yyerror
           else y_ret [Fileinto mbox sl])))))))
       else
         y_bind (y_string cl g) (\<lambda>mbox.
         y_bind y_context (\<lambda>c.
         y_needs cl (s_fileinto (require c)) ''fileinto not required''
         (if \<not> static_verify_mailbox mbox then yyerror else y_ret [Fileinto mbox []]))))"

definition y_keep :: "'w client \<Rightarrow> grammar_texts \<Rightarrow> nat \<Rightarrow> (command list, 'w) parser" where
  "y_keep cl g n =
     y_bind (y_peek cl) (\<lambda>l.
       if l = Some (Tk ''FLAGS'') then
         y_then y_shift (y_bind (y_stringlist cl g n) (\<lambda>sl.
         y_bind y_context (\<lambda>c.
         y_needs cl (s_imap4flags (require c)) ''imap4flags not required'' (y_ret [Keep sl]))))
       else y_ret [Keep []])"

definition y_action :: "'w client \<Rightarrow> grammar_texts \<Rightarrow> nat \<Rightarrow> (command list, 'w) parser" where
  "y_action cl g n =
     y_bind (y_peek cl) (\<lambda>l.
       if l = Some (Tk ''REJCT'') then
         y_then y_shift (y_bind (y_string cl g) (\<lambda>str.
         y_bind y_context (\<lambda>c.
         y_needs cl (s_reject (require c)) ''reject not required'' (y_ret [Rejct str]))))
       else if l = Some (Tk ''KEEP'') then y_then y_shift (y_keep cl g n)
       else if l = Some (Tk ''FILEINTO'') then y_then y_shift (y_fileinto cl g n)
       else if l = Some (Tk ''REDIRECT'') then
         y_then y_shift (y_bind (y_string cl g) (\<lambda>str.
         y_bind (static_verify_address cl str) (\<lambda>ok. if \<not> ok then yyerror else y_ret [Redirect str])))
       else if l = Some (Tk ''STOP'') then y_then y_shift (y_ret [Stop])
       else if l = Some (Tk ''DISCARD'') then y_then y_shift (y_ret [Discard])
       else if l = Some (Tk ''VACATION'') then
         y_then y_shift (y_bind (y_vtags cl g n static_new_vtags) (\<lambda>v.
         y_bind (y_string cl g) (\<lambda>reason.
         y_bind y_context (\<lambda>c.
         y_needs cl (s_vacation (require c)) ''vacation not required''
           (y_ret (static_build_vacation (static_canon_vtags v) reason))))))
       else if l = Some (Tk ''SETFLAG'') then y_flag_action cl g n Setflag
       else if l = Some (Tk ''ADDFLAG'') then y_flag_action cl g n Addflag
       else if l = Some (Tk ''REMOVEFLAG'') then y_flag_action cl g n Removeflag
       else if l = Some (Tk ''NOTIFY'') then
         y_then y_shift (y_bind (y_ntags cl g n static_new_ntags) (\<lambda>v.
         y_bind y_context (\<lambda>c.
         y_needs cl (s_notify (require c)) ''notify not required''
           (y_ret (static_build_notify (static_canon_ntags v))))))
       else if l = Some (Tk ''VALIDNOTIF'') then
         y_then y_shift (y_bind (y_stringlist cl g n) (\<lambda>sl.
         y_bind y_context (\<lambda>c.
         y_needs cl (s_notify (require c)) ''notify not required'' (y_ret (static_build_validnotif sl)))))
       else y_syntax_error cl g)"

section \<open>Commands\<close>

text \<open>
  \<open>y_cond\<close> is the stack behind \<^verbatim>\<open>IF test\<close> or \<^verbatim>\<open>ELSIF test\<close>; an error in what follows, up to the
  opening brace of a block, is taken up by the place of the test. \<open>y_commands\<close> is a place where a
  command must stand: an error there skips to the next semicolon and gives a \<^verbatim>\<open>stop\<close>. \<open>y_more\<close>
  is the state behind a command, which ends the list only in front of a brace or of the end.
\<close>

fun y_skip :: "'w client \<Rightarrow> grammar_texts \<Rightarrow> nat \<Rightarrow> (unit, 'w) parser" where
  "y_skip cl g 0 = y_fuel"
| "y_skip cl g (Suc n) = y_catch (y_expect cl g (SCh CHR '';'')) (y_skip cl g n)"

fun y_commands :: "'w client \<Rightarrow> grammar_texts \<Rightarrow> nat \<Rightarrow> (command list, 'w) parser"
  and y_more :: "'w client \<Rightarrow> grammar_texts \<Rightarrow> nat \<Rightarrow> command list \<Rightarrow> (command list, 'w) parser"
  and y_command :: "'w client \<Rightarrow> grammar_texts \<Rightarrow> nat \<Rightarrow> (command list, 'w) parser"
  and y_cond :: "'w client \<Rightarrow> grammar_texts \<Rightarrow> nat \<Rightarrow> test option \<Rightarrow> (command list, 'w) parser"
  and y_elsif :: "'w client \<Rightarrow> grammar_texts \<Rightarrow> nat \<Rightarrow> (command list, 'w) parser"
  and y_block :: "'w client \<Rightarrow> grammar_texts \<Rightarrow> nat \<Rightarrow> (command list, 'w) parser" where
  "y_commands cl g 0 = y_fuel"
| "y_commands cl g (Suc n) =
     y_bind (y_catch (y_command cl g n) (y_then (y_skip cl g n) (y_ret [Stop]))) (y_more cl g n)"
| "y_more cl g 0 c = y_fuel"
| "y_more cl g (Suc n) c =
     y_bind (y_peek cl) (\<lambda>l.
       if l = None \<or> l = Some (SCh CHR ''}'') then y_ret c
       else y_bind (y_commands cl g n) (\<lambda>cs. y_ret (c @ cs)))"
| "y_command cl g 0 = y_fuel"
| "y_command cl g (Suc n) =
     y_bind (y_peek cl) (\<lambda>l.
       if l = Some (Tk ''IF'') then y_then y_shift (y_bind (y_test_at cl g n) (y_cond cl g n))
       else y_bind (y_action cl g n) (\<lambda>c. y_then (y_expect cl g (SCh CHR '';'')) (y_ret c)))"
| "y_cond cl g 0 t = y_fuel"
| "y_cond cl g (Suc n) t =
     y_catch (y_bind (y_block cl g n) (\<lambda>y. y_bind (y_elsif cl g n) (\<lambda>e. y_ret (libsieve_new_if t y e))))
       (y_cond cl g n None)"
| "y_elsif cl g 0 = y_fuel"
| "y_elsif cl g (Suc n) =
     y_bind (y_peek cl) (\<lambda>l.
       if l = Some (Tk ''ELSIF'') then y_then y_shift (y_bind (y_test_at cl g n) (y_cond cl g n))
       else if l = Some (Tk ''ELSE'') then y_then y_shift (y_block cl g n)
       else y_ret [])"
| "y_block cl g 0 = y_fuel"
| "y_block cl g (Suc n) =
     y_then (y_expect cl g (SCh CHR ''{''))
      (y_bind (y_peek cl) (\<lambda>l.
         if l = Some (SCh CHR ''}'') then y_then y_shift (y_ret [])
         else y_bind (y_commands cl g n) (\<lambda>cs.
              y_then (y_catch (y_expect cl g (SCh CHR ''}'')) y_abort) (y_ret cs))))"

section \<open>The parser\<close>

fun y_reqs :: "'w client \<Rightarrow> grammar_texts \<Rightarrow> nat \<Rightarrow> (unit, 'w) parser" where
  "y_reqs cl g 0 = y_fuel"
| "y_reqs cl g (Suc n) =
     y_bind (y_peek cl) (\<lambda>l.
       if l = Some (Tk ''REQUIRE'') then y_then y_shift (y_then (y_require cl g n) (y_reqs cl g n)) else y_ret ())"

definition y_set_ret :: "command list \<Rightarrow> (unit, 'w) parser" where
  "y_set_ret cmds = y_do (\<lambda>c. Some ((), c\<lparr>sieve_ret := cmds\<rparr>))"

text \<open>
  \<^verbatim>\<open>start\<close>. Nothing takes up an error outside the commands: it ends the parser.
\<close>

definition y_start :: "'w client \<Rightarrow> grammar_texts \<Rightarrow> nat \<Rightarrow> (unit, 'w) parser" where
  "y_start cl g n =
     y_catch
       (y_bind (y_peek cl) (\<lambda>l.
          if l = None then y_set_ret []
          else y_then (y_reqs cl g n)
                 (y_bind (y_commands cl g n) (\<lambda>cmds.
                  y_then (y_set_ret cmds)
                    (y_bind (y_peek cl) (\<lambda>l. if l = None then y_ret () else y_syntax_error cl g))))))
       y_abort"

definition sieve_fuel :: "sevent list \<Rightarrow> nat" where
  "sieve_fuel es = 16 * length es + 12"

definition parser_start :: "grammar_texts \<Rightarrow> string \<Rightarrow> 'w sieve2_context \<Rightarrow> 'w pstate" where
  "parser_start g text c =
     \<lparr>ps_ctx = c, ps_events = sieve_lex (fst (sieve_scan c)) (snd (sieve_scan c)) True (first_line g) text,
      ps_look = False, ps_line = first_line g, ps_status = 0, ps_nerrs = 0\<rparr>"

definition libsieve_sieveparse :: "'w client \<Rightarrow> grammar_texts \<Rightarrow> string \<Rightarrow> 'w sieve2_context \<Rightarrow> (unit, 'w) outcome" where
  "libsieve_sieveparse cl g text c =
     (let s = parser_start g text c in y_start cl g (sieve_fuel (ps_events s)) s)"

text \<open>\<^verbatim>\<open>libsieve_sieve_parse_buffer\<close>: the empty list is \<^verbatim>\<open>NULL\<close>, also of a parser that gave up.\<close>

definition libsieve_sieve_parse_buffer ::
  "'w client \<Rightarrow> grammar_texts \<Rightarrow> 'w sieve2_context \<Rightarrow> (command list \<times> 'w sieve2_context) option" where
  "libsieve_sieve_parse_buffer cl g c =
     do {
       text \<leftarrow> script_text (script c);
       (case libsieve_sieveparse cl g text c of
          YOk _ s \<Rightarrow> Some (sieve_ret (ps_ctx s), (ps_ctx s)\<lparr>sieve_ret := []\<rparr>)
        | YAbort s \<Rightarrow> Some ([], ps_ctx s)
        | _ \<Rightarrow> None)
     }"

end
