(* ===== verification/Sieve_Parser_Ends.thy ===== *)
theory Sieve_Parser_Ends
  imports Sieve_Parser
begin

text \<open>
  The parser of Sieve scripts ends: its recursion stays within the fuel of \<open>libsieve_sieveparse\<close>,
  whatever the text, the errors in it and the answers of the client.

  A bound on the steps that are left: two for an event, and one that goes when an error is taken up.
  \<open>good M k e p\<close>: from a state within the bound \<open>M\<close>, \<open>p\<close> does not spend its fuel, goes down by \<open>k\<close> when it
  succeeds, and by \<open>e\<close> to the place that takes its error up.
\<close>

definition steps_left :: "'w pstate \<Rightarrow> nat" where
  "steps_left s = 2 * length (ps_events s) + (if ps_status s = 3 then 0 else 1)"

abbreviation taken_up :: "'w pstate \<Rightarrow> 'w pstate" where
  "taken_up s \<equiv> s\<lparr>ps_status := 3\<rparr>"

definition good_at :: "('w pstate \<Rightarrow> bool) \<Rightarrow> nat \<Rightarrow> nat \<Rightarrow> nat \<Rightarrow> ('a, 'w) parser \<Rightarrow> bool" where
  "good_at P M k e p \<longleftrightarrow>
     (\<forall>s. P s \<longrightarrow> steps_left s \<le> M \<longrightarrow>
        (case p s of
           YOk _ s' \<Rightarrow> steps_left s' + k \<le> steps_left s
         | YError s' \<Rightarrow> steps_left (taken_up s') + e \<le> steps_left s
         | YFuel \<Rightarrow> False
         | _ \<Rightarrow> True))"

abbreviation good :: "nat \<Rightarrow> nat \<Rightarrow> nat \<Rightarrow> ('a, 'w) parser \<Rightarrow> bool" where
  "good \<equiv> good_at (\<lambda>_. True)"

abbreviation good_on :: "stoken option \<Rightarrow> nat \<Rightarrow> nat \<Rightarrow> nat \<Rightarrow> ('a, 'w) parser \<Rightarrow> bool" where
  "good_on l \<equiv> good_at (\<lambda>s. lookahead (ps_events s) = l)"

named_theorems good

lemma steps_left_taken_up: "steps_left (taken_up s) \<le> steps_left s"
  by (simp add: steps_left_def)

lemma steps_left_ctx [simp]:
  "steps_left (s\<lparr>ps_ctx := c\<rparr>) = steps_left s" "steps_left (s\<lparr>ps_nerrs := k\<rparr>) = steps_left s"
  "steps_left (s\<lparr>ps_look := b\<rparr>) = steps_left s" "steps_left (s\<lparr>ps_line := k\<rparr>) = steps_left s"
  by (simp_all add: steps_left_def)

lemma lookahead_events: "lookahead es = Some t \<Longrightarrow> es \<noteq> []"
  by auto

lemma good_atI:
  assumes "\<And>s x s'. P s \<Longrightarrow> steps_left s \<le> M \<Longrightarrow> p s = YOk x s' \<Longrightarrow> steps_left s' + k \<le> steps_left s"
    and "\<And>s s'. P s \<Longrightarrow> steps_left s \<le> M \<Longrightarrow> p s = YError s' \<Longrightarrow> steps_left (taken_up s') + e \<le> steps_left s"
    and "\<And>s. P s \<Longrightarrow> steps_left s \<le> M \<Longrightarrow> p s \<noteq> YFuel"
  shows "good_at P M k e p"
  unfolding good_at_def using assms by (auto split: outcome.split)

lemma good_atD:
  assumes "good_at P M k e p" and "P s" and "steps_left s \<le> M"
  shows "p s = YOk x s' \<Longrightarrow> steps_left s' + k \<le> steps_left s"
    and "p s = YError s' \<Longrightarrow> steps_left (taken_up s') + e \<le> steps_left s"
    and "p s \<noteq> YFuel"
  using assms by (auto simp: good_at_def dest!: spec [of _ s])

text \<open>The primitives.\<close>

lemma good_ret [good]: "good_at P M 0 e (y_ret x)"
  by (simp add: good_at_def y_ret_def)

lemma good_context [good]: "good_at P M 0 e y_context"
  by (simp add: good_at_def y_context_def)

lemma good_abort [good]: "good_at P M k e y_abort"
  by (simp add: good_at_def y_abort_def)

lemma good_error [good]: "good_at P M k 0 yyerror"
  by (simp add: good_at_def yyerror_def steps_left_taken_up)

lemma good_do [good]: "good_at P M 0 e (y_do f)"
  by (auto simp: good_at_def y_do_def split: option.splits)

lemma good_some [good]: "good_at P M 0 e (y_some x)"
  by (auto simp: good_at_def y_some_def split: option.splits)

lemma good_message [good]: "good_at P M 0 e (y_message cl msg)"
  by (auto simp: good_at_def y_message_def y_do_def split: option.splits)

lemma good_discard: "e \<le> 1 \<Longrightarrow> good_at P M k e y_discard"
  by (auto simp: good_at_def y_discard_def steps_left_def neq_Nil_conv dest!: lookahead_events)

lemma good_if [good]:
  "(b \<Longrightarrow> good_at P M k e p) \<Longrightarrow> good_at P M k e q \<Longrightarrow> good_at P M k e (if b then p else q)"
  by simp

lemma good_weaken:
  assumes "good M k e p" and "k' \<le> k" and "e' \<le> e" and "M' \<le> M"
  shows "good_at P M' k' e' p"
  using good_atD [OF assms(1) TrueI] assms(2-) by (intro good_atI) (meson add_le_cancel_left order_trans)+

lemma bind_cases:
  assumes "y_bind p f s = r"
  obtains x s' where "p s = YOk x s'" "f x s' = r" | s' where "p s = YError s'" "r = YError s'"
    | "\<And>s'. p s \<noteq> YError s'" "p s = YFuel \<longleftrightarrow> r = YFuel" "\<And>x s'. r \<noteq> YOk x s'" "\<And>s'. r \<noteq> YError s'"
  using assms by (cases "p s") (auto simp: y_bind_def)

lemma good_bind:
  assumes p: "good_at P M k e p" and f: "\<And>x M'. M' + k \<le> M \<Longrightarrow> good M' k' e' (f x)" and "e \<le> k + e'" and "j \<le> k + k'"
  shows "good_at P M j e (y_bind p f)"
proof (rule good_atI)
  fix s assume s: "P s" "steps_left s \<le> M"
  note pD = good_atD [OF p s]
  have fD: "good (steps_left s') k' e' (f x)" if "p s = YOk x s'" for x s'
    using pD(1) [OF that] s(2) by (intro f) simp
  show "y_bind p f s \<noteq> YFuel"
    using pD(3) good_atD(3) [OF fD TrueI order_refl] by (cases "p s") (auto simp: y_bind_def)
  fix r assume "y_bind p f s = YError r"
  then show "steps_left (taken_up r) + e \<le> steps_left s"
    by (cases rule: bind_cases) (use pD(1,2) good_atD(2) [OF fD TrueI order_refl] assms(3) in fastforce)+
next
  fix s x' r assume s: "P s" "steps_left s \<le> M" and r: "y_bind p f s = YOk x' r"
  note pD = good_atD [OF p s]
  from r obtain x s' where x: "p s = YOk x s'" "f x s' = YOk x' r" by (cases "p s") (auto simp: y_bind_def)
  then have "good (steps_left s') k' e' (f x)" using pD(1) s(2) by (intro f) fastforce
  from good_atD(1) [OF this TrueI order_refl x(2)] pD(1) [OF x(1)] assms(4)
  show "steps_left r + j \<le> steps_left s" by simp
qed

text \<open>The forms that occur: what follows a consumed token only has to keep the bound.\<close>

lemma good_bind_keep [good]:
  "good_at P M 0 e p \<Longrightarrow> (\<And>x M'. M' \<le> M \<Longrightarrow> good M' k e (f x)) \<Longrightarrow> good_at P M k e (y_bind p f)"
  by (rule good_bind [where k = 0 and e' = e and k' = k]) auto

lemma good_bind_less:
  "good_at P M 1 1 p \<Longrightarrow> (\<And>x M'. M' < M \<Longrightarrow> good M' 0 0 (f x)) \<Longrightarrow> good_at P M 1 1 (y_bind p f)"
  by (rule good_bind [where k = 1 and e' = 0 and k' = 0]) auto

lemma good_catch:
  assumes p: "good_at P M 1 1 p" and h: "\<And>M'. M' < M \<Longrightarrow> good M' 0 0 h"
  shows "good_at P M 1 1 (y_catch p h)"
proof (rule good_atI)
  fix s assume s: "P s" "steps_left s \<le> M"
  note pD = good_atD [OF p s]
  have hD: "good (steps_left (taken_up s')) 0 0 h" if "p s = YError s'" for s'
    using pD(2) [OF that] s(2) by (intro h) simp
  show "y_catch p h s \<noteq> YFuel"
    using pD(3) good_atD(3) [OF hD TrueI order_refl] by (cases "p s") (auto simp: y_catch_def)
  fix r assume "y_catch p h s = YError r"
  then show "steps_left (taken_up r) + 1 \<le> steps_left s"
    using pD(2) good_atD(2) [OF hD TrueI order_refl] by (cases "p s") (auto simp: y_catch_def, fastforce)
next
  fix s x' r assume s: "P s" "steps_left s \<le> M" and r: "y_catch p h s = YOk x' r"
  note pD = good_atD [OF p s]
  have hD: "good (steps_left (taken_up s')) 0 0 h" if "p s = YError s'" for s'
    using pD(2) [OF that] s(2) by (intro h) simp
  show "steps_left r + 1 \<le> steps_left s"
    using r pD(1,2) good_atD(1) [OF hD TrueI order_refl] by (cases "p s") (auto simp: y_catch_def, fastforce)
qed

text \<open>Looking ahead, and consuming what is there.\<close>

lemma good_message_discard: "e \<le> 1 \<Longrightarrow> good M k e (y_then (y_message cl msg) y_discard)"
  unfolding y_then_def by (intro good_bind_keep good_message good_discard)

lemma good_pick:
  assumes "\<And>s. P s \<Longrightarrow> p s = YUndef \<or>
    (\<exists>q Q s'. p s = q s' \<and> steps_left s' = steps_left s \<and> Q s' \<and> good_at Q M k e q)"
  shows "good_at P M k e p"
  unfolding good_at_def
proof (intro allI impI)
  fix s assume s: "P s" "steps_left s \<le> M"
  from assms [OF s(1)] show "case p s of YOk _ s' \<Rightarrow> steps_left s' + k \<le> steps_left s
    | YError s' \<Rightarrow> steps_left (taken_up s') + e \<le> steps_left s | YFuel \<Rightarrow> False | _ \<Rightarrow> True"
  proof
    assume "\<exists>q Q s'. p s = q s' \<and> steps_left s' = steps_left s \<and> Q s' \<and> good_at Q M k e q"
    then obtain q Q s' where q: "p s = q s'" "steps_left s' = steps_left s" "Q s'" "good_at Q M k e q" by blast
    from q(4) show ?thesis unfolding good_at_def q(1) q(2) [symmetric] using q(2,3) s(2) by simp
  qed simp
qed

lemma good_syntax_error [good]:
  assumes "e \<le> 1"
  shows "good_at P M k e (y_syntax_error cl g)"
proof (rule good_pick, rule disjI2)
  fix s :: "'a pstate"
  show "\<exists>q Q s'. y_syntax_error cl g s = q s' \<and> steps_left s' = steps_left s \<and> Q s' \<and> good_at Q M k e q"
  proof (cases "ps_status s = 0")
    case True
    then have "y_syntax_error cl g s =
        y_then (y_message cl (syntax_text g (ps_nerrs s))) y_discard (s\<lparr>ps_nerrs := ps_nerrs s + 1\<rparr>)"
      by (simp add: y_syntax_error_def)
    then show ?thesis using good_message_discard [OF assms]
      by (intro exI [of _ "y_then (y_message cl (syntax_text g (ps_nerrs s))) y_discard"] exI [of _ "\<lambda>_. True"]
          exI [of _ "s\<lparr>ps_nerrs := ps_nerrs s + 1\<rparr>"] conjI) simp_all
  next
    case False
    then have "y_syntax_error cl g s = y_discard s" by (simp add: y_syntax_error_def)
    then show ?thesis using good_discard [OF assms, of "\<lambda>_. True"]
      by (intro exI [of _ y_discard] exI [of _ "\<lambda>_. True"] exI [of _ s] conjI) simp_all
  qed
qed

lemma y_message_result: "y_message cl msg s = r \<Longrightarrow> r = YUndef \<or> (\<exists>c. r = YOk () (s\<lparr>ps_ctx := c\<rparr>))"
  by (auto simp: y_message_def y_do_def split: option.splits)

lemma y_peek_cases:
  assumes "y_peek cl s = r"
  shows "r = YUndef \<or> (\<exists>s'. r = YOk (lookahead (ps_events s)) s' \<and> ps_look s' \<and>
    ps_events s' = ps_events s \<and> ps_status s' = ps_status s)"
proof (cases "ps_look s \<or> ps_events s = []")
  case True
  then show ?thesis using assms by (cases "ps_look s") (auto simp: y_peek_def)
next
  case False
  then obtain ev es where ev: "ps_events s = ev # es" "\<not> ps_look s" by (cases "ps_events s") auto
  show ?thesis
  proof (cases ev)
    case (SEnd sc line unfinished)
    define s1 where "s1 = s\<lparr>ps_look := True, ps_line := line, ps_ctx := (ps_ctx s)\<lparr>sieve_scan := sc\<rparr>\<rparr>"
    have s1: "ps_events s1 = ps_events s" "ps_look s1" "ps_status s1 = ps_status s" by (simp_all add: s1_def)
    have r: "r = (if unfinished then y_then (y_message cl ''unexpected end of file in string'') (y_ret None) s1 else YOk None s1)"
      unfolding assms [symmetric] using ev SEnd by (simp add: y_peek_def s1_def Let_def)
    show ?thesis
      using y_message_result [of cl "''unexpected end of file in string''" s1] s1 r ev SEnd
      by (cases unfinished) (auto simp: y_then_def y_bind_def y_ret_def)
  qed (use assms ev in \<open>auto simp: y_peek_def\<close>)
qed

lemma y_peek_result:
  "y_peek cl s = YOk l s' \<Longrightarrow> ps_events s' = ps_events s \<and> ps_status s' = ps_status s \<and> l = lookahead (ps_events s)"
  using y_peek_cases [of cl s] by auto

lemma y_peek_fails: "y_peek cl s \<noteq> YError s'" "y_peek cl s \<noteq> YFuel"
  using y_peek_cases [of cl s] by auto

lemma good_peek [good]:
  assumes "\<And>l. good_on l M k e (f l)"
  shows "good_at P M k e (y_bind (y_peek cl) f)"
proof (rule good_pick)
  fix s
  from y_peek_cases [OF refl, of cl s] show "y_bind (y_peek cl) f s = YUndef \<or> (\<exists>q Q s'. y_bind (y_peek cl) f s = q s' \<and>
    steps_left s' = steps_left s \<and> Q s' \<and> good_at Q M k e q)"
  proof (elim disjE exE conjE)
    fix s' assume s': "y_peek cl s = YOk (lookahead (ps_events s)) s'" "ps_events s' = ps_events s" "ps_status s' = ps_status s"
    then have "y_bind (y_peek cl) f s = f (lookahead (ps_events s)) s'" "steps_left s' = steps_left s"
      by (simp_all add: y_bind_def steps_left_def)
    with s'(2) assms [of "lookahead (ps_events s)"] show ?thesis
      by (intro disjI2 exI [of _ "f (lookahead (ps_events s))"] exI [of _ "\<lambda>s'. lookahead (ps_events s') = lookahead (ps_events s)"]
          exI [of _ s'] conjI) simp_all
  qed (simp_all add: y_bind_def)
qed

lemma steps_left_shift: "ps_events s \<noteq> [] \<Longrightarrow>
  steps_left (s\<lparr>ps_events := tl (ps_events s), ps_look := False, ps_status := ps_status s - 1\<rparr>) < steps_left s"
  by (cases "ps_events s") (auto simp: steps_left_def)

lemma good_shift:
  fixes p :: "('b, 'w) parser"
  assumes "l = Some t" and p: "\<And>M'. M' < M \<Longrightarrow> good M' 0 0 p" and "k \<le> 1" and "e \<le> 1"
  shows "good_on l M k e (y_then y_shift p)"
  unfolding good_at_def
proof (intro allI impI)
  fix s :: "'w pstate" assume s: "lookahead (ps_events s) = l" "steps_left s \<le> M"
  let ?s = "s\<lparr>ps_events := tl (ps_events s), ps_look := False, ps_status := ps_status s - 1\<rparr>"
  have less: "steps_left ?s < steps_left s" using s assms(1) by (intro steps_left_shift) auto
  have run: "y_then y_shift p s = p ?s" by (simp add: y_then_def y_bind_def y_shift_def)
  have "good (steps_left ?s) 0 0 p" using less s(2) by (intro p) simp
  note D = good_atD [OF this TrueI order_refl]
  show "case y_then y_shift p s of YOk _ s' \<Rightarrow> steps_left s' + k \<le> steps_left s
    | YError s' \<Rightarrow> steps_left (taken_up s') + e \<le> steps_left s | YFuel \<Rightarrow> False | _ \<Rightarrow> True"
    using D less assms(3,4) unfolding run by (cases "p ?s") fastforce+
qed

lemma good_shift_some [good]:
  "(\<And>M'. M' < M \<Longrightarrow> good M' 0 0 p) \<Longrightarrow> good_on (Some t) M 0 0 (y_then y_shift p)"
  "(\<And>M'. M' < M \<Longrightarrow> good M' 0 0 p) \<Longrightarrow> good_on (Some t) M (Suc 0) (Suc 0) (y_then y_shift p)"
  by (rule good_shift; simp)+

lemma good_only_shift: "l = Some t \<Longrightarrow> k \<le> 1 \<Longrightarrow> good_on l M k e y_shift"
  by (rule good_atI) (use steps_left_shift in \<open>fastforce simp: y_shift_def dest!: lookahead_events\<close>)+

lemma good_on_weaken: "good M 1 1 p \<Longrightarrow> k \<le> 1 \<Longrightarrow> e \<le> 1 \<Longrightarrow> good_at P M k e p"
  by (rule good_weaken) auto

text \<open>What stands behind a consumed token.\<close>

lemma good_then [good]:
  "good_at P M 0 0 p \<Longrightarrow> (\<And>M'. M' \<le> M \<Longrightarrow> good M' 0 0 q) \<Longrightarrow> good_at P M 0 0 (y_then p q)"
  unfolding y_then_def by (rule good_bind_keep)

lemma good_then_less:
  "good_at P M 1 1 p \<Longrightarrow> (\<And>M'. M' < M \<Longrightarrow> good M' 0 0 q) \<Longrightarrow> k \<le> 1 \<Longrightarrow> e \<le> 1 \<Longrightarrow> good_at P M k e (y_then p q)"
  unfolding y_then_def
  by (rule good_atI) (use good_atD [OF good_bind_less [of P M p "\<lambda>_. q"]] in fastforce)+

lemma good_reject [good]: "good_at P M k 0 (y_reject cl msg)"
  unfolding y_reject_def y_then_def by (intro good)

lemma good_needs [good]: "good_at P M k 0 p \<Longrightarrow> good_at P M k 0 (y_needs cl ok msg p)"
  unfolding y_needs_def by (intro good)

lemma good_expect [good]: "k \<le> 1 \<Longrightarrow> e \<le> 1 \<Longrightarrow> good_at P M k e (y_expect cl g t)"
  unfolding y_expect_def by (auto intro!: good good_only_shift)

lemma good_string [good]: "k \<le> 1 \<Longrightarrow> e \<le> 1 \<Longrightarrow> good_at P M k e (y_string cl g)"
  unfolding y_string_def by (auto intro!: good good_shift split: option.split stoken.split)

lemma good_number [good]: "k \<le> 1 \<Longrightarrow> e \<le> 1 \<Longrightarrow> good_at P M k e (y_number cl g)"
  unfolding y_number_def by (auto intro!: good good_shift split: option.split stoken.split)

lemma good_strings:
  "8 * M + 1 \<le> n \<Longrightarrow> good M 1 1 (y_strings cl g n)"
proof (induction n arbitrary: M)
  case (Suc n)
  have IH: "good M' 0 0 (y_strings cl g n)" if "M' < M" for M'
    by (rule good_on_weaken) (use that Suc in auto)
  show ?case
    unfolding y_strings.simps
    by (rule good_bind_less [OF good_string]) (auto intro!: good good_only_shift IH)
qed simp

lemma good_string_less [good]:
  "(\<And>x M'. M' < M \<Longrightarrow> good M' 0 0 (f x)) \<Longrightarrow> good_at P M (Suc 0) (Suc 0) (y_bind (y_string cl g) f)"
  using good_bind_less [OF good_string, of M f P cl g] by simp

lemma good_stringlist [good]:
  "8 * M \<le> n \<Longrightarrow> k \<le> 1 \<Longrightarrow> e \<le> 1 \<Longrightarrow> good_at P M k e (y_stringlist cl g n)"
  unfolding y_stringlist_def
  by (rule good_on_weaken [of M])
    (auto intro!: good good_shift good_on_weaken [OF good_strings])

text \<open>Checks only change the context.\<close>

lemma good_verify [good]: "(\<And>x. good M 0 0 (verify x)) \<Longrightarrow> good M 0 0 (static_verify_stringlist verify sl)"
proof (induction sl arbitrary: M)
  case (Cons x sl)
  have keep: "good M' 0 0 (verify x)" if "M' \<le> M" for M' x by (rule good_weaken [OF Cons.prems]) (use that in auto)
  show ?case
    unfolding static_verify_stringlist.simps
    by (auto intro!: good keep good_weaken [OF Cons.IH [OF Cons.prems]])
qed (simp add: good_ret)

lemma good_verify_flag [good]: "good M 0 e (static_verify_flag s)"
  unfolding static_verify_flag_def by (intro good)

lemma good_verify_address [good]: "good M 0 e (static_verify_address cl s)"
  unfolding static_verify_address_def by (intro good)

lemma good_verify_header [good]: "good M 0 e (static_verify_header cl s)"
  unfolding static_verify_header_def y_then_def by (intro good good_bind_keep)

lemma good_regexs: "good M 0 0 (verify_regexs_loop cl cflags sl pl)"
proof (induction sl arbitrary: pl M)
  case (Cons x sl)
  show ?case
    unfolding verify_regexs_loop.simps static_verify_regex_def
    by (auto intro!: good Cons.IH split: option.split)
qed (simp add: good_ret)

lemma good_patterns [good]: "good M 0 0 (y_patterns cl comptag coll sl)"
  unfolding y_patterns_def static_verify_regexs_def Let_def by (auto intro!: good good_regexs)

lemma good_some_test [good]: "good M 0 0 (y_some_test t)"
  unfolding y_some_test_def by (auto intro!: good split: option.split)

lemma good_comptag [good]: "k \<le> 1 \<Longrightarrow> e \<le> 1 \<Longrightarrow> good_at P M k e (y_comptag cl g)"
  unfolding y_comptag_def by (auto intro!: good good_shift)

lemma good_addrparttag [good]: "k \<le> 1 \<Longrightarrow> e \<le> 1 \<Longrightarrow> good_at P M k e (y_addrparttag cl g)"
  unfolding y_addrparttag_def by (auto intro!: good good_shift)

lemma good_string_tag [good]: "good_on (Some t) M k' e (y_string_tag cl g dup old)" if "k' \<le> 1" "e \<le> 1"
  unfolding y_string_tag_def by (rule good_shift [OF refl]) (use that in \<open>auto intro!: good\<close>)

lemma good_bind_any:
  assumes "good_at P M 1 1 p" and "\<And>x M'. M' < M \<Longrightarrow> good M' 0 0 (f x)" and "k \<le> 1" and "e \<le> 1"
  shows "good_at P M k e (y_bind p f)"
  by (rule good_atI) (use good_atD [OF good_bind_less [OF assms(1,2)]] assms(3,4) in fastforce)+

lemma good_comptag_then [good]:
  "(\<And>x M'. M' < M \<Longrightarrow> good M' 0 0 (f x)) \<Longrightarrow> good_at P M 0 0 (y_bind (y_comptag cl g) f)"
  by (rule good_bind_any [OF good_comptag]) auto

lemma good_addrparttag_then [good]:
  "(\<And>x M'. M' < M \<Longrightarrow> good M' 0 0 (f x)) \<Longrightarrow> good_at P M 0 0 (y_bind (y_addrparttag cl g) f)"
  by (rule good_bind_any [OF good_addrparttag]) auto

lemma good_string_tag_then [good]:
  "(\<And>x M'. M' < M \<Longrightarrow> good M' 0 0 (f x)) \<Longrightarrow> good_on (Some t) M 0 0 (y_bind (y_string_tag cl g dup old) f)"
  by (rule good_bind_any [OF good_string_tag]) auto

lemma good_hftags: "8 * M + 1 \<le> n \<Longrightarrow> good M 0 0 (y_hftags cl g n h)"
proof (induction n arbitrary: M h)
  case (Suc n)
  have IH: "good M' 0 0 (y_hftags cl g n h)" if "M' < M" for M' h using that Suc by auto
  show ?case
    unfolding y_hftags.simps
    by (auto intro!: good good_shift IH)
qed simp

lemma good_htags: "8 * M + 1 \<le> n \<Longrightarrow> good M 0 0 (y_htags cl g n h)"
proof (induction n arbitrary: M h)
  case (Suc n)
  have IH: "good M' 0 0 (y_htags cl g n h)" if "M' < M" for M' h using that Suc by auto
  show ?case
    unfolding y_htags.simps
    by (auto intro!: good good_shift IH)
qed simp

lemma good_aetags: "8 * M + 1 \<le> n \<Longrightarrow> good M 0 0 (y_aetags cl g n h)"
proof (induction n arbitrary: M h)
  case (Suc n)
  have IH: "good M' 0 0 (y_aetags cl g n h)" if "M' < M" for M' h using that Suc by auto
  show ?case
    unfolding y_aetags.simps
    by (auto intro!: good good_shift IH)
qed simp

lemma good_vtags: "8 * M + 1 \<le> n \<Longrightarrow> good M 0 0 (y_vtags cl g n v)"
proof (induction n arbitrary: M v)
  case (Suc n)
  have IH: "good M' 0 0 (y_vtags cl g n v)" if "M' < M" for M' v using that Suc by auto
  show ?case
    unfolding y_vtags.simps
    by (auto intro!: good good_shift IH) (use Suc in auto)
qed simp

lemma good_ntags: "8 * M + 1 \<le> n \<Longrightarrow> good M 0 0 (y_ntags cl g n v)"
proof (induction n arbitrary: M v)
  case (Suc n)
  have IH: "good M' 0 0 (y_ntags cl g n v)" if "M' < M" for M' v using that Suc by auto
  have prio: "good_on l M 0 0 (case priority_of l of Some p \<Rightarrow> y_then y_shift (f p) | None \<Rightarrow> y_ret v)"
    if "\<And>p M'. M' < M \<Longrightarrow> good M' 0 0 (f p)" for l and f
    by (cases l) (use that in \<open>auto intro!: good good_shift split: option.split simp: priority_of_def\<close>)
  show ?case
    unfolding y_ntags.simps
    by (auto intro!: good good_shift IH prio) (use Suc in auto)
qed simp

lemmas good_tags = good_hftags good_htags good_aetags good_vtags good_ntags

lemma good_header_test: "8 * M + 1 \<le> n \<Longrightarrow> good M 0 0 (y_header_test cl g n)"
  unfolding y_header_test_def Let_def by (auto intro!: good good_tags)

lemma good_address_test: "8 * M + 1 \<le> n \<Longrightarrow> good M 0 0 (y_address_test cl g n envelope)"
  unfolding y_address_test_def Let_def by (auto intro!: good good_tags)

lemma good_hasflag_test: "8 * M + 1 \<le> n \<Longrightarrow> good M 0 0 (y_hasflag_test cl g n)"
  unfolding y_hasflag_test_def by (auto intro!: good good_tags)

lemma good_size_test: "good M 0 0 (y_size_test cl g)"
  unfolding y_size_test_def by (auto intro!: good good_shift)

lemma good_test_parsers:
  "8 * M + 1 \<le> n \<Longrightarrow> good M 1 1 (y_test cl g n)"
  "8 * M + 2 \<le> n \<Longrightarrow> good M 1 1 (y_test_at cl g n)"
  "8 * M + 1 \<le> n \<Longrightarrow> good M 1 1 (y_testlist cl g n)"
  "8 * M + 2 \<le> n \<Longrightarrow> good M 1 1 (y_paren cl g n t)"
  "8 * M + 1 \<le> n \<Longrightarrow> good M 0 1 (y_tests cl g n)"
proof (induction n arbitrary: M t)
  case 0
  { case 1 then show ?case by simp } { case 2 then show ?case by simp } { case 3 then show ?case by simp }
  { case 4 then show ?case by simp } { case 5 then show ?case by simp }
next
  case (Suc n)
  have at: "good M' 0 0 (y_test_at cl g n)" and list: "good M' 0 0 (y_testlist cl g n)"
    and paren: "good M' 0 0 (y_paren cl g n t)" and tests: "good M' 0 0 (y_tests cl g n)"
    if "M' < M" "8 * M \<le> n" for M' M t
    using that by (auto intro!: good_weaken [OF Suc.IH(2)] good_weaken [OF Suc.IH(3)] good_weaken [OF Suc.IH(4)] good_weaken [OF Suc.IH(5)])
  { case 1
    then have n: "8 * M \<le> n" by simp
    show ?case
      unfolding y_test.simps(2) One_nat_def using n
      by - (intro good_peek good_if, auto intro!: good at [OF _ n] list [OF _ n] good_header_test good_address_test
          good_hasflag_test good_size_test) }
  { case 2
    then show ?case
      unfolding y_test_at.simps(2)
      by (intro good_catch good_bind_less Suc.IH(1)) (auto intro!: good) }
  { case 3
    then have n: "8 * M \<le> n" by simp
    show ?case
      unfolding y_testlist.simps(2)
      by (rule good_then_less) (auto intro!: good at [OF _ n] paren [OF _ n]) }
  { case 4
    then have n: "8 * M + 1 \<le> n" by simp
    have body: "good M' 1 1 (y_then (y_expect cl g (SCh CHR '')'')) (y_ret (libsieve_new_testlist t ts)))" for M' ts
      by (rule good_then_less) (auto intro!: good)
    show ?case
      unfolding y_paren.simps(2)
      using n by - (rule good_catch, rule good_bind_keep [OF Suc.IH(5) [OF n] body], auto intro!: paren [where M = M]) }
  { case 5
    then have n: "8 * M \<le> n" by simp
    show ?case
      unfolding y_tests.simps(2)
      by (rule good_peek, rule good_if)
        (auto intro!: good_shift good at [OF _ n] tests [OF _ n]) }
qed

lemma good_fileinto: "8 * M + 1 \<le> n \<Longrightarrow> good M 0 0 (y_fileinto cl g n)"
  unfolding y_fileinto_def by (auto intro!: good)

lemma good_keep: "8 * M + 1 \<le> n \<Longrightarrow> good M 0 0 (y_keep cl g n)"
  unfolding y_keep_def by (auto intro!: good)

lemma good_flag_action: "8 * M + 1 \<le> n \<Longrightarrow> good_on (Some t) M 1 1 (y_flag_action cl g n f)"
  unfolding y_flag_action_def One_nat_def by (auto intro!: good)

lemma good_action: "8 * M + 1 \<le> n \<Longrightarrow> good M 1 1 (y_action cl g n)"
  unfolding y_action_def One_nat_def
  by - (intro good_peek good_if, auto intro!: good good_tags good_fileinto good_keep good_flag_action [unfolded One_nat_def])

lemma good_skip: "8 * M + 1 \<le> n \<Longrightarrow> good M 1 1 (y_skip cl g n)"
proof (induction n arbitrary: M)
  case (Suc n)
  show ?case
    unfolding y_skip.simps by (rule good_catch [OF good_expect]) (use Suc in \<open>auto intro!: good_on_weaken [OF Suc.IH]\<close>)
qed simp

lemma good_command_parsers:
  "8 * M + 3 \<le> n \<Longrightarrow> good M 1 1 (y_commands cl g n)"
  "8 * M + 4 \<le> n \<Longrightarrow> good M 0 1 (y_more cl g n c)"
  "8 * M + 2 \<le> n \<Longrightarrow> good M 1 1 (y_command cl g n)"
  "8 * M + 2 \<le> n \<Longrightarrow> good M 1 1 (y_cond cl g n t)"
  "8 * M + 1 \<le> n \<Longrightarrow> good M 0 1 (y_elsif cl g n)"
  "8 * M + 1 \<le> n \<Longrightarrow> good M 1 1 (y_block cl g n)"
proof (induction n arbitrary: M t c)
  case 0
  { case 1 then show ?case by simp } { case 2 then show ?case by simp } { case 3 then show ?case by simp }
  { case 4 then show ?case by simp } { case 5 then show ?case by simp } { case 6 then show ?case by simp }
next
  case (Suc n)
  have commands: "good_at P M' 0 0 (y_commands cl g n)" and more: "good M' 0 0 (y_more cl g n c)"
    and cond: "good M' 0 0 (y_cond cl g n t)" and elsif: "good M' 0 0 (y_elsif cl g n)" and block: "good M' 0 0 (y_block cl g n)"
    and at: "good M' 0 0 (y_test_at cl g n)" and skip: "good M' 0 0 (y_skip cl g n)"
    if "M' < M" "8 * M \<le> n" for M' M t c P
    using that by (auto intro!: good_weaken [OF Suc.IH(1)] good_weaken [OF Suc.IH(2)] good_weaken [OF Suc.IH(4)]
        good_weaken [OF Suc.IH(5)] good_weaken [OF Suc.IH(6)] good_weaken [OF good_test_parsers(2)] good_weaken [OF good_skip])
  { case 1
    then have n: "8 * M \<le> n" "8 * M + 2 \<le> n" by simp_all
    show ?case
      unfolding y_commands.simps(2)
      by (rule good_bind_less, rule good_catch [OF Suc.IH(3) [OF n(2)]])
        (auto intro!: good skip [OF _ n(1)] more [OF _ n(1)]) }
  { case 2
    then have n: "8 * M + 3 \<le> n" by simp
    have "good_at P M 1 1 (y_bind (y_commands cl g n) (\<lambda>cs. y_ret (c @ cs)))" for P
      by (rule good_bind_any [OF good_on_weaken [OF Suc.IH(1) [OF n]]]) (auto intro!: good)
    then have "good_at P M 0 1 (y_bind (y_commands cl g n) (\<lambda>cs. y_ret (c @ cs)))" for P
      by (fastforce simp: good_at_def split: outcome.splits)
    then show ?case
      unfolding y_more.simps(2) by (intro good_peek good_if good_ret) }
  { case 3
    then have n: "8 * M \<le> n" "8 * M + 1 \<le> n" by simp_all
    show ?case
      unfolding y_command.simps(2)
    proof (rule good_peek, rule good_if)
      show "good_on l M 1 1 (y_then y_shift (y_bind (y_test_at cl g n) (y_cond cl g n)))" if "l = Some (Tk ''IF'')" for l
        by (rule good_shift [OF that]) (auto intro!: good at [OF _ n(1)] cond [OF _ n(1)])
      show "good_on l M 1 1 (y_bind (y_action cl g n) (\<lambda>c. y_then (y_expect cl g (SCh CHR '';'')) (y_ret c)))" for l
        by (rule good_bind_any [OF good_on_weaken [OF good_action [OF n(2)]]]) (auto intro!: good)
    qed }
  { case 4
    then have n: "8 * M \<le> n" "8 * M + 1 \<le> n" by simp_all
    show ?case
      unfolding y_cond.simps(2)
      by (rule good_catch, rule good_bind_less [OF Suc.IH(6) [OF n(2)]])
        (auto intro!: good elsif [OF _ n(1)] cond [OF _ n(1)]) }
  { case 5
    then have n: "8 * M \<le> n" by simp
    show ?case
      unfolding y_elsif.simps(2)
      by (rule good_peek) (intro good_if good_ret good_shift,
        auto intro!: good at [OF _ n] cond [OF _ n] block [OF _ n]) }
  { case 6
    then have n: "8 * M \<le> n" by simp
    have close: "good M' 0 0 (y_catch (y_expect cl g (SCh CHR ''}'')) y_abort)" for M'
      by (rule good_weaken [OF good_catch [OF good_expect]]) (auto intro!: good)
    show ?case
      unfolding y_block.simps(2)
      by (rule good_then_less) (auto intro!: good close commands [OF _ n]) }
qed

lemma good_require: "8 * M \<le> n \<Longrightarrow> good M 0 0 (y_require cl g n)"
  unfolding y_require_def by (auto intro!: good split: prod.splits)

lemma good_reqs: "8 * M + 1 \<le> n \<Longrightarrow> good M 0 0 (y_reqs cl g n)"
proof (induction n arbitrary: M)
  case (Suc n)
  show ?case
    unfolding y_reqs.simps by (rule good_peek, rule good_if) (use Suc in \<open>auto intro!: good good_require\<close>)
qed simp

lemma good_body:
  "8 * M + 3 \<le> n \<Longrightarrow> good M 0 0
     (y_bind (y_peek cl) (\<lambda>l.
        if l = None then y_set_ret []
        else y_then (y_reqs cl g n)
               (y_bind (y_commands cl g n) (\<lambda>cmds.
                y_then (y_set_ret cmds) (y_bind (y_peek cl) (\<lambda>l. if l = None then y_ret () else y_syntax_error cl g))))))"
  unfolding y_set_ret_def
  by (auto intro!: good good_weaken [OF good_reqs] good_weaken [OF good_command_parsers(1)])

text \<open>With the fuel of \<open>libsieve_sieveparse\<close> the parser ends, and the outermost error ends it.\<close>

lemma start_ends:
  assumes "sieve_fuel (ps_events (parser_start g text c)) \<le> n"
  shows "y_start cl g n (parser_start g text c) \<noteq> YFuel \<and> (\<forall>s. y_start cl g n (parser_start g text c) \<noteq> YError s)"
proof -
  let ?s = "parser_start g text c"
  have "steps_left ?s \<le> 2 * length (ps_events ?s) + 1" by (simp add: steps_left_def)
  moreover have "8 * (2 * length (ps_events ?s) + 1) + 3 \<le> n" using assms by (simp add: sieve_fuel_def)
  note good_atD [OF good_body [OF this, of cl g] TrueI calculation]
  ultimately show ?thesis by (auto simp: y_start_def y_catch_def y_abort_def split: outcome.split)
qed

lemma sieveparse_ends:
  "libsieve_sieveparse cl g text c \<noteq> YFuel \<and> (\<forall>s. libsieve_sieveparse cl g text c \<noteq> YError s)"
  using start_ends [OF order_refl] by (simp add: libsieve_sieveparse_def Let_def)

text \<open>
  C7. The parser of scripts ends on every text: the recursion never spends fuel of at least 16 steps for
  an event of the scanner and 12 more, recovery from errors included, and no error escapes it. So
  \<^verbatim>\<open>libsieve_sieve_parse_buffer\<close> gives a list of commands, the empty one when the parser gave up,
  unless there is no script or the run makes an undefined access.
\<close>
theorem parser_terminates:
  assumes "sieve_fuel (ps_events (parser_start g text c)) \<le> n"
  shows "y_start cl g n (parser_start g text c) \<noteq> YFuel \<and>
    (\<forall>s. y_start cl g n (parser_start g text c) \<noteq> YError s) \<and>
    (libsieve_sieve_parse_buffer cl g c = None \<longleftrightarrow>
      (\<forall>t. script_text (script c) = Some t \<longrightarrow> libsieve_sieveparse cl g t c = YUndef))"
proof (intro conjI)
  show "y_start cl g n (parser_start g text c) \<noteq> YFuel" and "\<forall>s. y_start cl g n (parser_start g text c) \<noteq> YError s"
    using start_ends [OF assms] by simp_all
  show "libsieve_sieve_parse_buffer cl g c = None \<longleftrightarrow>
      (\<forall>t. script_text (script c) = Some t \<longrightarrow> libsieve_sieveparse cl g t c = YUndef)"
    using sieveparse_ends [of cl g _ c]
    by (cases "script_text (script c)") (fastforce simp: libsieve_sieve_parse_buffer_def split: outcome.splits)+
qed

lemma parser_terminates_witness:
  "\<exists>s. y_start silent_client \<lparr>syntax_text = (\<lambda>_. ''syntax error''), first_line = 1\<rparr> 1000
      (parser_start \<lparr>syntax_text = (\<lambda>_. ''syntax error''), first_line = 1\<rparr> ''a;keep;'' (zero_context no_message ())) = s
    \<and> s \<noteq> YFuel"
  using parser_terminates [of "\<lparr>syntax_text = (\<lambda>_. ''syntax error''), first_line = 1\<rparr>" "''a;keep;''"
      "zero_context no_message ()" 1000 silent_client]
  by (simp add: parser_start_def sieve_fuel_def zero_context_def sieve_lex.simps text_block_length_def
      sieve_keywords_def c_isdigit_def h_white_def h_crlf_def)

end
