(* ===== verification/Sieve_Syntax.thy ===== *)
theory Sieve_Syntax
  imports Sieve_Parser
begin

text \<open>
  Sieve scripts as their author writes them, and what the parser makes of them: the tokens of a script,
  the tree that the actions of \<^verbatim>\<open>sieve.y\<close> build for it, and the checks it has to pass.
\<close>

section \<open>Scripts\<close>

datatype s_match = MIs | MContains | MMatches | MRegex | MValue string | MCount string

datatype s_part = PAll | PLocalpart | PDomain | PUser | PDetail

text \<open>The optional tags of a header or address test, in this order: comparator, match type, part.\<close>

datatype s_test =
    TAnyof s_test "s_test list"
  | TAllof s_test "s_test list"
  | TExists "string list"
  | TFalse
  | TTrue
  | THasflag "string list"
  | THeader "string option" "s_match option" "string list" "string list"
  | TAddress bool "string option" "s_match option" "s_part option" "string list" "string list"
  | TNot s_test
  | TSize bool int

datatype s_action =
    CReject string
  | CKeep "string list"
  | CFileinto string "string list"
  | CRedirect string
  | CStop
  | CDiscard
  | CVacation "int option" "string list" "string option" "string option" "string option" bool string
  | CSetflag "string list"
  | CAddflag "string list"
  | CRemoveflag "string list"
  | CNotify "string option" "string option" "string option" "string option"

datatype s_command = CIf s_test "s_command list" s_else | CAct s_action
  and s_else = NoElse | Else "s_command list" | Elsif s_test "s_command list" s_else

section \<open>Tokens\<close>

fun commas :: "stoken list list \<Rightarrow> stoken list" where
  "commas [] = []"
| "commas [x] = x"
| "commas (x # xs) = x @ SCh CHR '','' # commas xs"

definition tokens_sl :: "string list \<Rightarrow> stoken list" where
  "tokens_sl sl = (case sl of [s] \<Rightarrow> [SStr s] | _ \<Rightarrow> SCh CHR ''['' # commas (map (\<lambda>s. [SStr s]) sl) @ [SCh CHR '']''])"

definition tokens_comparator :: "string option \<Rightarrow> stoken list" where
  "tokens_comparator coll = (case coll of None \<Rightarrow> [] | Some s \<Rightarrow> [Tk ''COMPARATOR'', SStr s])"

fun tokens_match :: "s_match option \<Rightarrow> stoken list" where
  "tokens_match None = []"
| "tokens_match (Some MIs) = [Tk ''IS'']"
| "tokens_match (Some MContains) = [Tk ''CONTAINS'']"
| "tokens_match (Some MMatches) = [Tk ''MATCHES'']"
| "tokens_match (Some MRegex) = [Tk ''REGEX'']"
| "tokens_match (Some (MValue r)) = [Tk ''VALUE'', SStr r]"
| "tokens_match (Some (MCount r)) = [Tk ''COUNT'', SStr r]"

fun tokens_part :: "s_part option \<Rightarrow> stoken list" where
  "tokens_part None = []"
| "tokens_part (Some PAll) = [Tk ''ALL'']"
| "tokens_part (Some PLocalpart) = [Tk ''LOCALPART'']"
| "tokens_part (Some PDomain) = [Tk ''DOMAIN'']"
| "tokens_part (Some PUser) = [Tk ''USER'']"
| "tokens_part (Some PDetail) = [Tk ''DETAIL'']"

fun tokens_test :: "s_test \<Rightarrow> stoken list" where
  "tokens_test (TAnyof t ts) = Tk ''ANYOF'' # SCh CHR ''('' # tokens_test t @ concat (map (\<lambda>t. SCh CHR '','' # tokens_test t) ts) @ [SCh CHR '')'']"
| "tokens_test (TAllof t ts) = Tk ''ALLOF'' # SCh CHR ''('' # tokens_test t @ concat (map (\<lambda>t. SCh CHR '','' # tokens_test t) ts) @ [SCh CHR '')'']"
| "tokens_test (TExists sl) = Tk ''EXISTS'' # tokens_sl sl"
| "tokens_test TFalse = [Tk ''SFALSE'']"
| "tokens_test TTrue = [Tk ''STRUE'']"
| "tokens_test (THasflag sl) = Tk ''HASFLAG'' # tokens_sl sl"
| "tokens_test (THeader coll m sl ps) =
     Tk ''HEADER'' # tokens_comparator coll @ tokens_match m @ tokens_sl sl @ tokens_sl ps"
| "tokens_test (TAddress envelope coll m part sl ps) =
     Tk (if envelope then ''ENVELOPE'' else ''ADDRESS'') # tokens_comparator coll @ tokens_match m @ tokens_part part
     @ tokens_sl sl @ tokens_sl ps"
| "tokens_test (TNot t) = Tk ''NOT'' # tokens_test t"
| "tokens_test (TSize over n) = [Tk ''SIZE'', Tk (if over then ''OVER'' else ''UNDER''), SNum n]"

definition tokens_flags :: "string list \<Rightarrow> stoken list" where
  "tokens_flags sl = (if sl = [] then [] else Tk ''FLAGS'' # tokens_sl sl)"

definition tokens_tag :: "string \<Rightarrow> string option \<Rightarrow> stoken list" where
  "tokens_tag t v = (case v of None \<Rightarrow> [] | Some s \<Rightarrow> [Tk t, SStr s])"

definition tokens_priority :: "string option \<Rightarrow> stoken list" where
  "tokens_priority p = (case p of None \<Rightarrow> [] | Some s \<Rightarrow>
     [Tk (if s = ''low'' then ''LOW'' else if s = ''normal'' then ''NORMAL'' else ''HIGH'')])"

fun tokens_action :: "s_action \<Rightarrow> stoken list" where
  "tokens_action (CReject s) = [Tk ''REJCT'', SStr s]"
| "tokens_action (CKeep sl) = Tk ''KEEP'' # tokens_flags sl"
| "tokens_action (CFileinto mbox sl) = Tk ''FILEINTO'' # tokens_flags sl @ [SStr mbox]"
| "tokens_action (CRedirect s) = [Tk ''REDIRECT'', SStr s]"
| "tokens_action CStop = [Tk ''STOP'']"
| "tokens_action CDiscard = [Tk ''DISCARD'']"
| "tokens_action (CVacation days addrs subject from handle mime reason) =
     Tk ''VACATION'' # (case days of None \<Rightarrow> [] | Some n \<Rightarrow> [Tk ''DAYS'', SNum n])
     @ (if addrs = [] then [] else Tk ''ADDRESSES'' # tokens_sl addrs) @ tokens_tag ''SUBJECT'' subject @ tokens_tag ''FROM'' from @ tokens_tag ''HANDLE'' handle
     @ (if mime then [Tk ''MIME''] else []) @ [SStr reason]"
| "tokens_action (CSetflag sl) = Tk ''SETFLAG'' # tokens_sl sl"
| "tokens_action (CAddflag sl) = Tk ''ADDFLAG'' # tokens_sl sl"
| "tokens_action (CRemoveflag sl) = Tk ''REMOVEFLAG'' # tokens_sl sl"
| "tokens_action (CNotify meth ident prio msg) =
     Tk ''NOTIFY'' # tokens_tag ''METHOD'' meth @ tokens_tag ''ID'' ident @ tokens_priority prio @ tokens_tag ''MESSAGE'' msg"

fun tokens_command :: "s_command \<Rightarrow> stoken list"
  and tokens_else :: "s_else \<Rightarrow> stoken list" where
  "tokens_command (CIf t cs e) =
     Tk ''IF'' # tokens_test t @ SCh CHR ''{'' # concat (map tokens_command cs) @ SCh CHR ''}'' # tokens_else e"
| "tokens_command (CAct a) = tokens_action a @ [SCh CHR '';'']"
| "tokens_else NoElse = []"
| "tokens_else (Else cs) = Tk ''ELSE'' # SCh CHR ''{'' # concat (map tokens_command cs) @ [SCh CHR ''}'']"
| "tokens_else (Elsif t cs e) =
     Tk ''ELSIF'' # tokens_test t @ SCh CHR ''{'' # concat (map tokens_command cs) @ SCh CHR ''}'' # tokens_else e"

definition tokens_commands :: "s_command list \<Rightarrow> stoken list" where
  "tokens_commands cs = concat (map tokens_command cs)"

definition tokens_require :: "string list \<Rightarrow> stoken list" where
  "tokens_require sl = Tk ''REQUIRE'' # tokens_sl sl @ [SCh CHR '';'']"

section \<open>The tree\<close>

fun match_tag :: "s_match \<Rightarrow> int" where
  "match_tag MIs = tok_IS"
| "match_tag MContains = tok_CONTAINS"
| "match_tag MMatches = tok_MATCHES"
| "match_tag MRegex = tok_REGEX"
| "match_tag (MValue r) = tok_VALUE OR libsieve_relational_lookup (Some r)"
| "match_tag (MCount r) = tok_COUNT OR libsieve_relational_lookup (Some r)"

fun part_tag :: "s_part \<Rightarrow> int" where
  "part_tag PAll = tok_ALL"
| "part_tag PLocalpart = tok_LOCALPART"
| "part_tag PDomain = tok_DOMAIN"
| "part_tag PUser = tok_USER"
| "part_tag PDetail = tok_DETAIL"

definition comptag_of :: "s_match option \<Rightarrow> int" where
  "comptag_of m = (case m of None \<Rightarrow> tok_IS | Some m \<Rightarrow> match_tag m)"

definition addrtag_of :: "s_part option \<Rightarrow> int" where
  "addrtag_of p = (case p of None \<Rightarrow> tok_ALL | Some p \<Rightarrow> part_tag p)"

text \<open>Compiled patterns come out in the reverse order.\<close>

definition regex_flags :: "string option \<Rightarrow> int" where
  "regex_flags coll =
     (REG_EXTENDED OR REG_NOSUB) OR (if canon_comparator coll = ''i;ascii-casemap'' then REG_ICASE else 0)"

definition patterns_of :: "string option \<Rightarrow> s_match option \<Rightarrow> string list \<Rightarrow> pattern list" where
  "patterns_of coll m ps =
     (if m = Some MRegex then map (\<lambda>p. PatRe (p, regex_flags coll)) (rev ps) else map PatStr ps)"

definition comparator_of :: "string option \<Rightarrow> s_match option \<Rightarrow> comparator option" where
  "comparator_of coll m = libsieve_comparator_lookup (canon_comparator coll) (comptag_of m)"

fun tree_test :: "s_test \<Rightarrow> test" where
  "tree_test (TAnyof t ts) = Anyof (Some (tree_test t) # map (\<lambda>t. Some (tree_test t)) ts)"
| "tree_test (TAllof t ts) = Allof (Some (tree_test t) # map (\<lambda>t. Some (tree_test t)) ts)"
| "tree_test (TExists sl) = Exists sl"
| "tree_test TFalse = Sfalse"
| "tree_test TTrue = Strue"
| "tree_test (THasflag sl) = Hasflag None sl"
| "tree_test (THeader coll m sl ps) =
     Header (comptag_of m) (the (comparator_of coll m)) sl (patterns_of coll m ps)"
| "tree_test (TAddress envelope coll m part sl ps) =
     (if envelope then Envelope else Address)
       (comptag_of m) (the (comparator_of coll m)) sl (patterns_of coll m ps) (addrtag_of part)"
| "tree_test (TNot t) = Tnot (Some (tree_test t))"
| "tree_test (TSize over n) = Tsize (if over then tok_OVER else tok_UNDER) n"

fun tree_action :: "s_action \<Rightarrow> command" where
  "tree_action (CReject s) = Rejct s"
| "tree_action (CKeep sl) = Keep sl"
| "tree_action (CFileinto mbox sl) = Fileinto mbox sl"
| "tree_action (CRedirect s) = Redirect s"
| "tree_action CStop = Stop"
| "tree_action CDiscard = Discard"
| "tree_action (CVacation days addrs subject from handle mime reason) =
     Vacation \<lparr>v_subject = subject, v_days = (case days of None \<Rightarrow> 7 | Some n \<Rightarrow> n), v_addresses = addrs,
       v_message = reason, v_mime = (if mime then tok_MIME else 0), v_from = from, v_handle = handle\<rparr>"
| "tree_action (CSetflag sl) = Setflag sl"
| "tree_action (CAddflag sl) = Addflag sl"
| "tree_action (CRemoveflag sl) = Removeflag sl"
| "tree_action (CNotify meth ident prio msg) =
     Notify \<lparr>n_method = meth, n_id = ident, n_options = [],
       n_priority = (case prio of None \<Rightarrow> ''normal'' | Some p \<Rightarrow> p),
       n_message = (case msg of None \<Rightarrow> ''$from$: $subject$'' | Some m \<Rightarrow> m)\<rparr>"

fun tree_command :: "s_command \<Rightarrow> command"
  and tree_else :: "s_else \<Rightarrow> command list" where
  "tree_command (CIf t cs e) = Cond (Some (tree_test t)) (map tree_command cs) (tree_else e)"
| "tree_command (CAct a) = tree_action a"
| "tree_else NoElse = []"
| "tree_else (Else cs) = map tree_command cs"
| "tree_else (Elsif t cs e) = [Cond (Some (tree_test t)) (map tree_command cs) (tree_else e)]"

section \<open>What the checks ask for\<close>

definition good_address :: "'w client \<Rightarrow> string \<Rightarrow> bool" where
  "good_address cl s =
     (case addr_parse (cl_syntax_error cl) (INITIAL, 0) s of
        None \<Rightarrow> False
      | Some (r, scan, msgs) \<Rightarrow>
          scan = (INITIAL, 0) \<and> msgs = [] \<and> (case r of None \<Rightarrow> False | Some addrs \<Rightarrow> tl addrs \<noteq> []))"

definition ok_headers :: "string list \<Rightarrow> bool" where
  "ok_headers sl \<longleftrightarrow> sl \<noteq> [] \<and> (\<forall>s \<in> set sl. \<forall>c \<in> set s. header_char c)"

definition ok_patterns :: "'w client \<Rightarrow> support2 \<Rightarrow> string option \<Rightarrow> s_match option \<Rightarrow> string list \<Rightarrow> bool" where
  "ok_patterns cl r coll m ps \<longleftrightarrow> ps \<noteq> [] \<and> comparator_of coll m \<noteq> None \<and>
     (m = Some MRegex \<longrightarrow> s_regex r \<and> (\<forall>p \<in> set ps. cl_regcomp cl p (regex_flags coll) = None))"

fun ok_test :: "'w client \<Rightarrow> support2 \<Rightarrow> s_test \<Rightarrow> bool" where
  "ok_test cl r (TAnyof t ts) \<longleftrightarrow> ok_test cl r t \<and> (\<forall>t \<in> set ts. ok_test cl r t)"
| "ok_test cl r (TAllof t ts) \<longleftrightarrow> ok_test cl r t \<and> (\<forall>t \<in> set ts. ok_test cl r t)"
| "ok_test cl r (TExists sl) \<longleftrightarrow> sl \<noteq> []"
| "ok_test cl r TFalse \<longleftrightarrow> True"
| "ok_test cl r TTrue \<longleftrightarrow> True"
| "ok_test cl r (THasflag sl) \<longleftrightarrow> sl \<noteq> [] \<and> s_imap4flags r"
| "ok_test cl r (THeader coll m sl ps) \<longleftrightarrow> ok_headers sl \<and> ok_patterns cl r coll m ps"
| "ok_test cl r (TAddress envelope coll m part sl ps) \<longleftrightarrow> ok_headers sl \<and> ok_patterns cl r coll m ps \<and>
     (part \<in> {Some PUser, Some PDetail} \<longrightarrow> s_subaddress r)"
| "ok_test cl r (TNot t) \<longleftrightarrow> ok_test cl r t"
| "ok_test cl r (TSize over n) \<longleftrightarrow> True"

fun ok_action :: "'w client \<Rightarrow> support2 \<Rightarrow> s_action \<Rightarrow> bool" where
  "ok_action cl r (CReject s) \<longleftrightarrow> s_reject r"
| "ok_action cl r (CKeep sl) \<longleftrightarrow> (sl \<noteq> [] \<longrightarrow> s_imap4flags r)"
| "ok_action cl r (CFileinto mbox sl) \<longleftrightarrow> s_fileinto r \<and> (sl \<noteq> [] \<longrightarrow> s_imap4flags r)"
| "ok_action cl r (CRedirect s) \<longleftrightarrow> good_address cl s"
| "ok_action cl r CStop \<longleftrightarrow> True"
| "ok_action cl r CDiscard \<longleftrightarrow> True"
| "ok_action cl r (CVacation days addrs subject from handle mime reason) \<longleftrightarrow>
     s_vacation r \<and> (\<forall>a \<in> set addrs. good_address cl a) \<and> days \<noteq> Some (- 1)"
| "ok_action cl r (CSetflag sl) \<longleftrightarrow> sl \<noteq> [] \<and> s_imap4flags r"
| "ok_action cl r (CAddflag sl) \<longleftrightarrow> sl \<noteq> [] \<and> s_imap4flags r"
| "ok_action cl r (CRemoveflag sl) \<longleftrightarrow> sl \<noteq> [] \<and> s_imap4flags r"
| "ok_action cl r (CNotify meth ident prio msg) \<longleftrightarrow>
     s_notify r \<and> prio \<in> {None, Some ''low'', Some ''normal'', Some ''high''}"

fun ok_command :: "'w client \<Rightarrow> support2 \<Rightarrow> s_command \<Rightarrow> bool"
  and ok_else :: "'w client \<Rightarrow> support2 \<Rightarrow> s_else \<Rightarrow> bool" where
  "ok_command cl r (CIf t cs e) \<longleftrightarrow> ok_test cl r t \<and> (\<forall>c \<in> set cs. ok_command cl r c) \<and> ok_else cl r e"
| "ok_command cl r (CAct a) \<longleftrightarrow> ok_action cl r a"
| "ok_else cl r NoElse \<longleftrightarrow> True"
| "ok_else cl r (Else cs) \<longleftrightarrow> (\<forall>c \<in> set cs. ok_command cl r c)"
| "ok_else cl r (Elsif t cs e) \<longleftrightarrow> ok_test cl r t \<and> (\<forall>c \<in> set cs. ok_command cl r c) \<and> ok_else cl r e"

text \<open>Requirements that the context supports, and the context after them.\<close>

fun required :: "string list \<Rightarrow> 'w sieve2_context \<Rightarrow> 'w sieve2_context option" where
  "required [] c = Some c"
| "required (s # sl) c = (case static_check_reqs c s of (True, c) \<Rightarrow> required sl c | (False, _) \<Rightarrow> None)"

end
