(* ===== verification/Sieve_Reading.thy ===== *)
theory Sieve_Reading
  imports Sieve_Syntax
begin

text \<open>
  How the parser of scripts reads what an author wrote: the relation \<open>reads\<close> between a parser, the
  tokens in front of it, its result and the context, its rules for the combinators, and one lemma for
  each phrase of the grammar up to the tests and actions of \<open>Sieve_Syntax\<close>.
\<close>

section \<open>Reading tokens\<close>

text \<open>Events that carry a list of tokens and end without a message, with the scanner in its initial state.\<close>

fun carries :: "sevent list \<Rightarrow> stoken list \<Rightarrow> bool" where
  "carries (STok t _ _ # es) (u # us) \<longleftrightarrow> t = u \<and> (\<forall>c. t = SCh c \<longrightarrow> code c < 128) \<and> carries es us"
| "carries [SEnd sc _ unfinished] [] \<longleftrightarrow> sc = (S_INITIAL, None) \<and> \<not> unfinished"
| "carries _ _ \<longleftrightarrow> False"

definition unscanned :: "'w sieve2_context \<Rightarrow> 'w sieve2_context" where
  "unscanned c = c\<lparr>sieve_scan := (S_INITIAL, None)\<rparr>"

definition head_of :: "stoken list \<Rightarrow> stoken option \<Rightarrow> stoken option" where
  "head_of ts l = (case ts of [] \<Rightarrow> l | t # _ \<Rightarrow> Some t)"

abbreviation tok_head :: "stoken list \<Rightarrow> stoken option" where
  "tok_head ts \<equiv> head_of ts None"

text \<open>The parser stands in front of the tokens: a token it has looked at has set the scanner's state.\<close>

fun scan_after :: "sevent \<Rightarrow> sieve_scan" where
  "scan_after (STok _ sc _) = sc"
| "scan_after (SEnd sc _ _) = sc"
| "scan_after SUndef = (S_INITIAL, None)"

definition in_front :: "'w pstate \<Rightarrow> stoken list \<Rightarrow> bool" where
  "in_front s ts \<longleftrightarrow> carries (ps_events s) ts \<and> (ps_look s \<longrightarrow> scan_after (hd (ps_events s)) = sieve_scan (ps_ctx s))"

text \<open>
  \<open>reads F c p ts x c'\<close>: in front of the tokens \<open>ts\<close> and of a token that satisfies \<open>F\<close>, the parser \<open>p\<close> consumes \<open>ts\<close>
  without an error, gives \<open>x\<close> and takes the context from \<open>c\<close> to \<open>c'\<close>, the scanner's state apart.
\<close>

definition reads ::
  "(stoken option \<Rightarrow> bool) \<Rightarrow> 'w sieve2_context \<Rightarrow> ('a, 'w) parser \<Rightarrow> stoken list \<Rightarrow> 'a \<Rightarrow> 'w sieve2_context \<Rightarrow> bool" where
  "reads F c p ts x c' \<longleftrightarrow>
     (\<forall>s rest. in_front s (ts @ rest) \<longrightarrow> F (tok_head rest) \<longrightarrow> unscanned (ps_ctx s) = c \<longrightarrow>
        (\<exists>s'. p s = YOk x s' \<and> in_front s' rest \<and> unscanned (ps_ctx s') = c' \<and> ps_status s' \<le> ps_status s))"

abbreviation reads_any :: "'w sieve2_context \<Rightarrow> ('a, 'w) parser \<Rightarrow> stoken list \<Rightarrow> 'a \<Rightarrow> 'w sieve2_context \<Rightarrow> bool" where
  "reads_any \<equiv> reads (\<lambda>_. True)"

lemma unscanned_simps [simp]: "unscanned (c\<lparr>sieve_scan := sc\<rparr>) = unscanned c" "require (unscanned c) = require c" "unscanned (unscanned c) = unscanned c"
  "addr_scan (unscanned c) = addr_scan c"
  by (simp_all add: unscanned_def)

lemma lookahead_cons: "\<forall>c. t = SCh c \<longrightarrow> code c < 128 \<Longrightarrow> lookahead (STok t sc line # es) = Some t"
  by (cases t; cases sc) auto

lemma carries_lookahead: "carries es ts \<Longrightarrow> lookahead es = tok_head ts"
  by (cases "(es, ts)" rule: carries.cases) (auto simp: head_of_def lookahead_cons)

lemma head_of_append: "tok_head (ts @ rest) = head_of ts (tok_head rest)"
  by (cases ts) (auto simp: head_of_def)

lemma readsI:
  assumes "\<And>s rest. in_front s (ts @ rest) \<Longrightarrow> F (tok_head rest) \<Longrightarrow> unscanned (ps_ctx s) = c \<Longrightarrow>
    \<exists>s'. p s = YOk x s' \<and> in_front s' rest \<and> unscanned (ps_ctx s') = c' \<and> ps_status s' \<le> ps_status s"
  shows "reads F c p ts x c'"
  using assms by (simp add: reads_def)

lemma readsE:
  assumes "reads F c p ts x c'" and "in_front s (ts @ rest)" and "F (tok_head rest)" and "unscanned (ps_ctx s) = c"
  obtains s' where "p s = YOk x s'" "in_front s' rest" "unscanned (ps_ctx s') = c'" "ps_status s' \<le> ps_status s"
  using assms by (auto simp: reads_def)

lemma reads_follow: "reads F c p ts x c' \<Longrightarrow> (\<And>l. G l \<Longrightarrow> F l) \<Longrightarrow> reads G c p ts x c'"
  by (auto simp: reads_def)

lemma reads_anyD: "reads_any c p ts x c' \<Longrightarrow> reads F c p ts x c'"
  by (erule reads_follow) simp

lemma reads_ret: "reads F c (y_ret x) [] x c"
  by (rule readsI) (simp add: y_ret_def)

lemma reads_bind:
  fixes c :: "'w sieve2_context"
  assumes p: "reads F1 c p us y c1" and f: "reads F c1 (f y) vs x c'"
    and follow: "\<And>l. F l \<Longrightarrow> F1 (head_of vs l)" and ts: "ts = us @ vs"
  shows "reads F c (y_bind p f) ts x c'"
proof (rule readsI)
  fix s :: "'w pstate" and rest assume s: "in_front s (ts @ rest)" "F (tok_head rest)" "unscanned (ps_ctx s) = c"
  have "in_front s (us @ vs @ rest)" "F1 (tok_head (vs @ rest))"
    using s follow by (simp_all add: ts head_of_append)
  from readsE [OF p this s(3)] obtain s1 where s1: "p s = YOk y s1" "in_front s1 (vs @ rest)" "unscanned (ps_ctx s1) = c1"
    "ps_status s1 \<le> ps_status s" .
  from readsE [OF f s1(2) s(2) s1(3)] obtain s2 where "f y s1 = YOk x s2" "in_front s2 rest" "unscanned (ps_ctx s2) = c'"
    "ps_status s2 \<le> ps_status s1" .
  with s1 show "\<exists>s'. y_bind p f s = YOk x s' \<and> in_front s' rest \<and> unscanned (ps_ctx s') = c' \<and> ps_status s' \<le> ps_status s"
    by (auto simp: y_bind_def)
qed

lemma reads_any_bind:
  "reads_any c p us y c1 \<Longrightarrow> reads F c1 (f y) vs x c' \<Longrightarrow> reads F c (y_bind p f) (us @ vs) x c'"
  by (rule reads_bind) auto

lemma reads_map: "reads F c p ts y c' \<Longrightarrow> x = h y \<Longrightarrow> reads F c (y_bind p (\<lambda>y. y_ret (h y))) ts x c'"
  using reads_bind [of F c p ts y c' F "\<lambda>y. y_ret (h y)" "[]" "h y" c' ts] by (simp add: reads_ret head_of_def)

lemma reads_peek_result:
  fixes s :: "'w pstate"
  assumes "in_front s ts"
  shows "\<exists>s'. y_peek cl s = YOk (tok_head ts) s' \<and> in_front s' ts \<and> ps_look s' \<and> unscanned (ps_ctx s') = unscanned (ps_ctx s) \<and>
    ps_status s' = ps_status s"
  using carries_lookahead [of "ps_events s" ts] assms
  by (cases "(ps_events s, ts)" rule: carries.cases) (auto simp: y_peek_def in_front_def Let_def)

lemma reads_peek_cons:
  fixes c :: "'w sieve2_context"
  assumes "reads F c (f (Some t)) (t # ts) x c'"
  shows "reads F c (y_bind (y_peek cl) f) (t # ts) x c'"
proof (rule readsI)
  fix s :: "'w pstate" and rest assume s: "in_front s ((t # ts) @ rest)" "F (tok_head rest)" "unscanned (ps_ctx s) = c"
  from reads_peek_result [OF s(1), of cl] obtain s1 where s1: "y_peek cl s = YOk (Some t) s1"
    "in_front s1 ((t # ts) @ rest)" "unscanned (ps_ctx s1) = unscanned (ps_ctx s)" "ps_status s1 = ps_status s" by (auto simp: head_of_def)
  from readsE [OF assms, of s1 rest] s s1 obtain s2 where "f (Some t) s1 = YOk x s2" "in_front s2 rest"
    "unscanned (ps_ctx s2) = c'" "ps_status s2 \<le> ps_status s1" by metis
  with s1 show "\<exists>s'. y_bind (y_peek cl) f s = YOk x s' \<and> in_front s' rest \<and> unscanned (ps_ctx s') = c' \<and> ps_status s' \<le> ps_status s"
    by (auto simp: y_bind_def)
qed

lemma reads_peek_nil:
  fixes c :: "'w sieve2_context"
  assumes "\<And>l. F l \<Longrightarrow> reads ((=) l) c (f l) [] x c'"
  shows "reads F c (y_bind (y_peek cl) f) [] x c'"
proof (rule readsI)
  fix s :: "'w pstate" and rest assume s: "in_front s ([] @ rest)" "F (tok_head rest)" "unscanned (ps_ctx s) = c"
  from reads_peek_result [OF s(1), of cl] obtain s1 where s1: "y_peek cl s = YOk (tok_head rest) s1"
    "in_front s1 ([] @ rest)" "unscanned (ps_ctx s1) = unscanned (ps_ctx s)" "ps_status s1 = ps_status s" by auto
  from readsE [OF assms [OF s(2)], of s1 rest] s s1 obtain s2 where "f (tok_head rest) s1 = YOk x s2"
    "in_front s2 rest" "unscanned (ps_ctx s2) = c'" "ps_status s2 \<le> ps_status s1" by (metis append_Nil)
  with s1 show "\<exists>s'. y_bind (y_peek cl) f s = YOk x s' \<and> in_front s' rest \<and> unscanned (ps_ctx s') = c' \<and> ps_status s' \<le> ps_status s"
    by (auto simp: y_bind_def)
qed

lemma reads_shift:
  fixes c :: "'w sieve2_context"
  assumes p: "reads F c p ts x c'"
  shows "reads F c (y_then y_shift p) (t # ts) x c'"
proof (rule readsI)
  fix s :: "'w pstate" and rest assume s: "in_front s ((t # ts) @ rest)" "F (tok_head rest)" "unscanned (ps_ctx s) = c"
  let ?s = "s\<lparr>ps_events := tl (ps_events s), ps_look := False, ps_status := ps_status s - 1\<rparr>"
  have "in_front ?s (ts @ rest)" using s(1)
    by (cases "(ps_events s, (t # ts) @ rest)" rule: carries.cases) (auto simp: in_front_def)
  from readsE [OF p this s(2)] s(3) obtain s' where "p ?s = YOk x s'" "in_front s' rest" "unscanned (ps_ctx s') = c'"
    "ps_status s' \<le> ps_status s - 1" by auto
  then show "\<exists>s'. y_then y_shift p s = YOk x s' \<and> in_front s' rest \<and> unscanned (ps_ctx s') = c' \<and> ps_status s' \<le> ps_status s"
    by (auto simp: y_then_def y_bind_def y_shift_def)
qed

lemma reads_context:
  assumes "\<And>c0. unscanned c0 = c \<Longrightarrow> reads F c (f c0) ts x c'"
  shows "reads F c (y_bind y_context f) ts x c'"
  using assms by (auto simp: reads_def y_bind_def y_context_def)

lemma reads_needs: "ok \<Longrightarrow> reads F c p ts x c' \<Longrightarrow> reads F c (y_needs cl ok msg p) ts x c'"
  by (simp add: y_needs_def)

lemma reads_only_shift: "reads F c y_shift [t] () c"
proof -
  have "y_then y_shift (y_ret ()) = (y_shift :: (unit, 'a) parser)"
    by (auto simp: fun_eq_iff y_then_def y_bind_def y_shift_def y_ret_def)
  then show ?thesis using reads_shift [OF reads_ret, of F c "()" t] by simp
qed

lemma reads_expect: "reads_any c (y_expect cl g t) [t] () c"
  unfolding y_expect_def by (rule reads_peek_cons) (simp add: reads_only_shift)

lemma reads_string: "reads_any c (y_string cl g) [SStr v] v c"
  unfolding y_string_def by (rule reads_peek_cons) (simp add: reads_shift reads_ret)

lemma reads_number: "reads_any c (y_number cl g) [SNum v] v c"
  unfolding y_number_def by (rule reads_peek_cons) (simp add: reads_shift reads_ret)

text \<open>With a token of the tag in front.\<close>

lemma reads_string_bind: "reads F c (f v) ts x c' \<Longrightarrow> reads F c (y_bind (y_string cl g) f) (SStr v # ts) x c'"
  using reads_any_bind [OF reads_string] by fastforce

lemma reads_number_bind: "reads F c (f v) ts x c' \<Longrightarrow> reads F c (y_bind (y_number cl g) f) (SNum v # ts) x c'"
  using reads_any_bind [OF reads_number] by fastforce

lemma reads_expect_then: "reads F c p ts x c' \<Longrightarrow> reads F c (y_then (y_expect cl g t) p) (t # ts) x c'"
  unfolding y_then_def using reads_any_bind [OF reads_expect] by fastforce

section \<open>String lists\<close>

definition starts_sl :: "stoken option \<Rightarrow> bool" where
  "starts_sl l \<longleftrightarrow> (\<exists>s. l = Some (SStr s)) \<or> l = Some (SCh CHR ''['')"

lemma reads_strings:
  "length sl \<le> n \<Longrightarrow> sl \<noteq> [] \<Longrightarrow>
   reads (\<lambda>l. l \<noteq> Some (SCh CHR '','')) c (y_strings cl g n) (commas (map (\<lambda>s. [SStr s]) sl)) sl c"
proof (induction sl arbitrary: n)
  case (Cons v sl)
  then obtain m where n: "n = Suc m" by (cases n) auto
  show ?case
  proof (cases sl)
    case Nil
    then show ?thesis
      by (auto simp: n libsieve_new_sl_def intro!: reads_string_bind reads_peek_nil reads_ret)
  next
    case (Cons w ws)
    have "reads (\<lambda>l. l \<noteq> Some (SCh CHR '','')) c (y_strings cl g m) (commas (map (\<lambda>s. [SStr s]) sl)) sl c"
      using Cons.IH [of m] Cons.prems n Cons by simp
    then show ?thesis
      by (auto simp: n Cons libsieve_new_sl_def intro!: reads_string_bind reads_peek_cons reads_shift
          reads_map [where y = "w # ws"])
  qed
qed simp

lemma tokens_sl_head: "head_of (tokens_sl sl) l = Some t \<Longrightarrow> starts_sl (Some t)"
  by (auto simp: tokens_sl_def head_of_def starts_sl_def split: list.splits)

lemma starts_tokens_sl: "starts_sl (head_of (tokens_sl sl @ ts) l)"
  by (auto simp: tokens_sl_def head_of_def starts_sl_def split: list.splits)

lemma length_commas: "length sl \<le> length (commas (map (\<lambda>s. [SStr s]) sl))"
  by (induction sl rule: induct_list012) auto

lemma length_tokens_sl: "length sl \<le> length (tokens_sl sl)" "tokens_sl sl \<noteq> []"
  using length_commas [of sl] by (auto simp: tokens_sl_def split: list.splits)

lemma reads_stringlist:
  assumes "length (tokens_sl sl) \<le> n" and "sl \<noteq> []"
  shows "reads_any c (y_stringlist cl g n) (tokens_sl sl) sl c"
proof (cases "\<exists>s. sl = [s]")
  case True
  then show ?thesis
    unfolding y_stringlist_def tokens_sl_def
    by (auto simp: libsieve_new_sl_def intro!: reads_peek_cons reads_string_bind reads_ret)
next
  case False
  then have t: "tokens_sl sl = SCh CHR ''['' # commas (map (\<lambda>s. [SStr s]) sl) @ [SCh CHR '']'']"
    by (auto simp: tokens_sl_def split: list.split)
  have n: "length sl \<le> n" using assms(1) length_tokens_sl(1) [of sl] by simp
  have "reads_any c (y_bind (y_strings cl g n) (\<lambda>vs. y_then (y_expect cl g (SCh CHR '']'')) (y_ret vs)))
     (commas (map (\<lambda>s. [SStr s]) sl) @ [SCh CHR '']'']) sl c"
    by (rule reads_bind [OF reads_strings [OF n assms(2)]])
      (auto simp: head_of_def intro!: reads_expect_then reads_ret)
  then show ?thesis
    unfolding y_stringlist_def t by (auto intro!: reads_peek_cons reads_shift)
qed

lemma reads_stringlist_bind:
  "length (tokens_sl sl) \<le> n \<Longrightarrow> sl \<noteq> [] \<Longrightarrow> reads F c (f sl) ts x c' \<Longrightarrow>
   reads F c (y_bind (y_stringlist cl g n) f) (tokens_sl sl @ ts) x c'"
  by (rule reads_any_bind [OF reads_stringlist])

lemmas reads_intros = reads_peek_cons reads_shift reads_string_bind reads_number_bind reads_expect_then reads_ret
  reads_context reads_needs

section \<open>Tags\<close>

lemma reads_catch: "reads F c p ts x c' \<Longrightarrow> reads F c (y_catch p h) ts x c'"
  by (fastforce simp: reads_def y_catch_def)

lemma starts_sl_tags: "starts_sl l \<Longrightarrow> \<not> starts_comptag l \<and> \<not> starts_addrparttag l \<and> l \<noteq> Some (Tk t)"
  by (auto simp: starts_sl_def starts_comptag_def starts_addrparttag_def)

lemma reads_comptag:
  assumes "m = MRegex \<longrightarrow> s_regex (require c)"
  shows "reads_any c (y_comptag cl g) (tokens_match (Some m)) (match_tag m) c"
  unfolding y_comptag_def
  by (cases m) (use assms in \<open>auto intro!: reads_intros\<close>)

lemma comptag_head: "starts_comptag (head_of (tokens_match (Some m) @ ts) l)"
  by (cases m) (auto simp: starts_comptag_def head_of_def)

lemma reads_part:
  assumes "p \<in> {PUser, PDetail} \<longrightarrow> s_subaddress (require c)"
  shows "reads_any c (y_addrparttag cl g) (tokens_part (Some p)) (part_tag p) c"
  unfolding y_addrparttag_def
  by (cases p) (use assms in \<open>auto intro!: reads_intros\<close>)

lemma reads_peek:
  assumes "ts \<noteq> []" and "reads F c (f (tok_head ts)) ts x c'"
  shows "reads F c (y_bind (y_peek cl) f) ts x c'"
  using assms by (cases ts) (auto simp: head_of_def intro: reads_peek_cons)

lemma tokens_match_Some: "tokens_match (Some m) \<noteq> []"
  by (cases m) auto

lemma tokens_part_Some: "tokens_part (Some p) \<noteq> []"
  by (cases p) auto

lemma part_head: "starts_addrparttag (head_of (tokens_part (Some p) @ ts) l)"
  by (cases p) (auto simp: starts_addrparttag_def head_of_def)

lemma not_comptag: "\<not> starts_comptag (Some (Tk ''COMPARATOR''))" "\<not> starts_addrparttag (Some (Tk ''COMPARATOR''))"
  by (auto simp: starts_comptag_def starts_addrparttag_def)

lemma comptag_not_part: "\<not> starts_addrparttag (head_of (tokens_match (Some m) @ ts) l)"
  by (cases m) (auto simp: starts_addrparttag_def head_of_def)

definition match_ok :: "'w sieve2_context \<Rightarrow> s_match option \<Rightarrow> bool" where
  "match_ok c m \<longleftrightarrow> (m = Some MRegex \<longrightarrow> s_regex (require c))"

lemma tags_idem:
  "ht_comptag h = k \<Longrightarrow> h\<lparr>ht_comptag := k\<rparr> = h" "aet_addrtag ae = k \<Longrightarrow> ae\<lparr>aet_addrtag := k\<rparr> = ae"
  by auto

lemma reads_htags_end: "reads starts_sl c (y_htags cl g (Suc n) h) [] h c"
  by (auto intro!: reads_peek_nil reads_ret simp: starts_sl_tags)

lemma reads_htags_match:
  assumes "ht_comptag h = - 1" and "match_ok c (Some m)"
    and "reads F c (y_htags cl g n (h\<lparr>ht_comptag := match_tag m\<rparr>)) ts x c'"
  shows "reads F c (y_htags cl g (Suc n) h) (tokens_match (Some m) @ ts) x c'"
  unfolding y_htags.simps
  by (rule reads_peek) (use assms tokens_match_Some in \<open>auto simp: comptag_head match_ok_def
      intro!: reads_any_bind [OF reads_comptag]\<close>)

lemma reads_htags_comparator:
  assumes "ht_comparator h = None" and "reads F c (y_htags cl g n (h\<lparr>ht_comparator := Some v\<rparr>)) ts x c'"
  shows "reads F c (y_htags cl g (Suc n) h) (Tk ''COMPARATOR'' # SStr v # ts) x c'"
  unfolding y_htags.simps using assms by (auto intro!: reads_intros simp: not_comptag)

lemma reads_htags:
  assumes "3 \<le> n" and "match_ok c m"
  shows "reads starts_sl c (y_htags cl g n static_new_htags) (tokens_comparator coll @ tokens_match m)
    \<lparr>ht_comparator = coll, ht_comptag = (case m of None \<Rightarrow> - 1 | Some m \<Rightarrow> match_tag m)\<rparr> c"
proof -
  from assms(1) obtain k where "n = 3 + k" using le_Suc_ex by blast
  then have n: "n = Suc (Suc (Suc k))" by simp
  have m: "reads starts_sl c (y_htags cl g (Suc (Suc j)) h) (tokens_match m)
      (h\<lparr>ht_comptag := (case m of None \<Rightarrow> - 1 | Some m \<Rightarrow> match_tag m)\<rparr>) c" if "ht_comptag h = - 1" for h and j
  proof (cases m)
    case None
    then show ?thesis using that reads_htags_end by (simp add: tags_idem del: y_htags.simps)
  next
    case (Some a)
    then show ?thesis using reads_htags_match [OF that assms(2) [unfolded Some] reads_htags_end] by simp
  qed
  show ?thesis
  proof (cases coll)
    case None
    then show ?thesis using m [of static_new_htags "Suc k"]
      by (simp add: n tokens_comparator_def static_new_htags_def del: y_htags.simps)
  next
    case (Some v)
    have "reads starts_sl c (y_htags cl g (Suc (Suc k)) (static_new_htags\<lparr>ht_comparator := Some v\<rparr>)) (tokens_match m)
      \<lparr>ht_comparator = Some v, ht_comptag = (case m of None \<Rightarrow> - 1 | Some m \<Rightarrow> match_tag m)\<rparr> c"
      using m [of "static_new_htags\<lparr>ht_comparator := Some v\<rparr>" k] by (simp add: static_new_htags_def del: y_htags.simps)
    from reads_htags_comparator [OF _ this] show ?thesis
      using Some by (simp add: n tokens_comparator_def static_new_htags_def del: y_htags.simps)
  qed
qed

lemma reads_aetags_end: "reads starts_sl c (y_aetags cl g (Suc n) h) [] h c"
  by (auto intro!: reads_peek_nil reads_ret simp: starts_sl_tags)

lemma reads_aetags_match:
  assumes "ht_comptag h = - 1" and "match_ok c (Some m)"
    and "reads F c (y_aetags cl g n (h\<lparr>ht_comptag := match_tag m\<rparr>)) ts x c'"
  shows "reads F c (y_aetags cl g (Suc n) h) (tokens_match (Some m) @ ts) x c'"
  unfolding y_aetags.simps
  by (rule reads_peek) (use assms tokens_match_Some in \<open>auto simp: comptag_head comptag_not_part match_ok_def
      intro!: reads_any_bind [OF reads_comptag]\<close>)

lemma reads_aetags_part:
  assumes "aet_addrtag h = - 1" and "p \<in> {PUser, PDetail} \<longrightarrow> s_subaddress (require c)"
    and "reads F c (y_aetags cl g n (h\<lparr>aet_addrtag := part_tag p\<rparr>)) ts x c'"
  shows "reads F c (y_aetags cl g (Suc n) h) (tokens_part (Some p) @ ts) x c'"
  unfolding y_aetags.simps
  by (rule reads_peek) (use assms tokens_part_Some in \<open>auto simp: part_head
      intro!: reads_any_bind [OF reads_part]\<close>)

lemma reads_aetags_comparator:
  assumes "ht_comparator h = None" and "reads F c (y_aetags cl g n (h\<lparr>ht_comparator := Some v\<rparr>)) ts x c'"
  shows "reads F c (y_aetags cl g (Suc n) h) (Tk ''COMPARATOR'' # SStr v # ts) x c'"
  unfolding y_aetags.simps using assms by (auto intro!: reads_intros simp: not_comptag)

lemma reads_aetags:
  assumes "4 \<le> n" and "match_ok c m" and "part \<in> {Some PUser, Some PDetail} \<longrightarrow> s_subaddress (require c)"
  shows "reads starts_sl c (y_aetags cl g n static_new_aetags) (tokens_comparator coll @ tokens_match m @ tokens_part part)
    \<lparr>ht_comparator = coll, ht_comptag = (case m of None \<Rightarrow> - 1 | Some m \<Rightarrow> match_tag m),
      aet_addrtag = (case part of None \<Rightarrow> - 1 | Some p \<Rightarrow> part_tag p)\<rparr> c"
proof -
  from assms(1) obtain k where "n = 4 + k" using le_Suc_ex by blast
  then have n: "n = Suc (Suc (Suc (Suc k)))" by simp
  have p: "reads starts_sl c (y_aetags cl g (Suc (Suc j)) h) (tokens_part part)
      (h\<lparr>aet_addrtag := (case part of None \<Rightarrow> - 1 | Some p \<Rightarrow> part_tag p)\<rparr>) c" if "aet_addrtag h = - 1" for h :: aetags and j
  proof (cases part)
    case None
    then show ?thesis using that reads_aetags_end by (simp add: tags_idem del: y_aetags.simps)
  next
    case (Some a)
    then have "a \<in> {PUser, PDetail} \<longrightarrow> s_subaddress (require c)" using assms(3) by auto
    from reads_aetags_part [OF that this reads_aetags_end] show ?thesis using Some by simp
  qed
  have m: "reads starts_sl c (y_aetags cl g (Suc (Suc (Suc j))) h) (tokens_match m @ tokens_part part)
      (h\<lparr>ht_comptag := (case m of None \<Rightarrow> - 1 | Some m \<Rightarrow> match_tag m),
         aet_addrtag := (case part of None \<Rightarrow> - 1 | Some p \<Rightarrow> part_tag p)\<rparr>) c"
    if "ht_comptag h = - 1" "aet_addrtag h = - 1" for h :: aetags and j
  proof (cases m)
    case None
    then show ?thesis using that p by (simp add: tags_idem del: y_aetags.simps)
  next
    case (Some a)
    have "reads starts_sl c (y_aetags cl g (Suc (Suc j)) (h\<lparr>ht_comptag := match_tag a\<rparr>)) (tokens_part part)
      (h\<lparr>ht_comptag := match_tag a, aet_addrtag := (case part of None \<Rightarrow> - 1 | Some p \<Rightarrow> part_tag p)\<rparr>) c"
      using p [of "h\<lparr>ht_comptag := match_tag a\<rparr>" j] that(2) by simp
    from reads_aetags_match [OF that(1) assms(2) [unfolded Some] this] show ?thesis using Some by simp
  qed
  show ?thesis
  proof (cases coll)
    case None
    then show ?thesis using m [of static_new_aetags "Suc k"]
      by (simp add: n tokens_comparator_def static_new_aetags_def del: y_aetags.simps)
  next
    case (Some v)
    have "reads starts_sl c (y_aetags cl g (Suc (Suc (Suc k))) (static_new_aetags\<lparr>ht_comparator := Some v\<rparr>))
      (tokens_match m @ tokens_part part)
      \<lparr>ht_comparator = Some v, ht_comptag = (case m of None \<Rightarrow> - 1 | Some m \<Rightarrow> match_tag m),
        aet_addrtag = (case part of None \<Rightarrow> - 1 | Some p \<Rightarrow> part_tag p)\<rparr> c"
      using m [of "static_new_aetags\<lparr>ht_comparator := Some v\<rparr>" k] by (simp add: static_new_aetags_def del: y_aetags.simps)
    from reads_aetags_comparator [OF _ this] show ?thesis
      using Some by (simp add: n tokens_comparator_def static_new_aetags_def del: y_aetags.simps)
  qed
qed

section \<open>Tests\<close>

lemma reads_y_do: "(\<And>c0. unscanned c0 = c \<Longrightarrow> \<exists>c1. f c0 = Some (x, c1) \<and> unscanned c1 = c' \<and> sieve_scan c1 = sieve_scan c0) \<Longrightarrow>
   reads F c (y_do f) [] x c'"
  by (fastforce simp: reads_def y_do_def in_front_def)

lemma reads_nil_bind:
  "reads_any c p [] y c1 \<Longrightarrow> reads F c1 (f y) ts x c' \<Longrightarrow> reads F c (y_bind p f) ts x c'"
  using reads_any_bind by fastforce

lemma reads_verify:
  "(\<And>s. s \<in> set sl \<Longrightarrow> reads_any c (verify s) [] True c) \<Longrightarrow> reads_any c (static_verify_stringlist verify sl) [] True c"
  by (induction sl) (auto intro!: reads_nil_bind reads_ret)

lemma reads_verify_header:
  "ok_headers sl \<Longrightarrow> reads_any c (static_verify_stringlist (static_verify_header cl) sl) [] True c"
  by (auto simp: ok_headers_def static_verify_header_def intro!: reads_verify reads_ret)

lemma reads_verify_flag: "reads_any c (static_verify_stringlist static_verify_flag sl) [] True c"
  by (auto simp: static_verify_flag_def intro!: reads_verify reads_ret)

lemma reads_regexs:
  "\<forall>p \<in> set ps. cl_regcomp cl p fl = None \<Longrightarrow>
   reads_any c (verify_regexs_loop cl fl ps pl) [] (map (\<lambda>p. PatRe (p, fl)) (rev ps) @ pl) c"
  by (induction ps arbitrary: pl)
    (auto simp: static_verify_regex_def libsieve_new_pl_def intro!: reads_nil_bind reads_ret)

lemma match_tag_regex [simp]: "match_tag m = tok_REGEX \<longleftrightarrow> m = MRegex"
  by (cases m) (auto simp: codes libsieve_relational_lookup_def)

lemma reads_patterns:
  assumes "ok_patterns cl (require c) coll m ps"
  shows "reads_any c (y_patterns cl (comptag_of m) (canon_comparator coll) ps) [] (patterns_of coll m ps) c"
proof (cases "m = Some MRegex")
  case True
  have fl: "(let cflags = REG_EXTENDED OR REG_NOSUB in
      if canon_comparator coll = ''i;ascii-casemap'' then cflags OR REG_ICASE else cflags) = regex_flags coll"
    by (simp add: regex_flags_def)
  have "reads_any c (verify_regexs_loop cl (regex_flags coll) ps []) [] (patterns_of coll m ps) c"
    using reads_regexs [of ps cl "regex_flags coll" c "[]"] assms True by (simp add: ok_patterns_def patterns_of_def)
  moreover have "patterns_of coll m ps \<noteq> []" using assms by (auto simp: ok_patterns_def patterns_of_def)
  ultimately show ?thesis
    using True fl by (auto simp: y_patterns_def comptag_of_def static_verify_regexs_def Let_def intro!: reads_nil_bind reads_ret)
next
  case False
  then have "comptag_of m \<noteq> tok_REGEX"
    by (cases m) (simp add: comptag_of_def codes, simp add: comptag_of_def)
  then show ?thesis using False by (simp add: y_patterns_def patterns_of_def reads_ret)
qed

lemma canon_tags:
  "ht_comptag (static_canon_htags \<lparr>ht_comparator = coll, ht_comptag = (case m of None \<Rightarrow> - 1 | Some m \<Rightarrow> match_tag m)\<rparr>) = comptag_of m"
  "ht_comptag (static_canon_aetags \<lparr>ht_comparator = coll, ht_comptag = (case m of None \<Rightarrow> - 1 | Some m \<Rightarrow> match_tag m),
     aet_addrtag = (case part of None \<Rightarrow> - 1 | Some p \<Rightarrow> part_tag p)\<rparr>) = comptag_of m"
  "aet_addrtag (static_canon_aetags \<lparr>ht_comparator = coll, ht_comptag = (case m of None \<Rightarrow> - 1 | Some m \<Rightarrow> match_tag m),
     aet_addrtag = (case part of None \<Rightarrow> - 1 | Some p \<Rightarrow> part_tag p)\<rparr>) = addrtag_of part"
proof -
  have "match_tag a \<noteq> - 1" for a by (cases a) (auto simp: codes libsieve_relational_lookup_def)
  moreover have "part_tag a \<noteq> - 1" for a by (cases a) (auto simp: codes)
  ultimately show
    "ht_comptag (static_canon_htags \<lparr>ht_comparator = coll, ht_comptag = (case m of None \<Rightarrow> - 1 | Some m \<Rightarrow> match_tag m)\<rparr>) = comptag_of m"
    "ht_comptag (static_canon_aetags \<lparr>ht_comparator = coll, ht_comptag = (case m of None \<Rightarrow> - 1 | Some m \<Rightarrow> match_tag m),
       aet_addrtag = (case part of None \<Rightarrow> - 1 | Some p \<Rightarrow> part_tag p)\<rparr>) = comptag_of m"
    "aet_addrtag (static_canon_aetags \<lparr>ht_comparator = coll, ht_comptag = (case m of None \<Rightarrow> - 1 | Some m \<Rightarrow> match_tag m),
       aet_addrtag = (case part of None \<Rightarrow> - 1 | Some p \<Rightarrow> part_tag p)\<rparr>) = addrtag_of part"
    by (auto simp: static_canon_htags_def static_canon_aetags_def comptag_of_def addrtag_of_def split: option.split)
qed

lemma canon_comparators [simp]:
  "canon_comparator (ht_comparator (static_canon_htags h)) = canon_comparator (ht_comparator h)"
  "canon_comparator (ht_comparator (static_canon_aetags ae)) = canon_comparator (ht_comparator ae)"
  by (simp_all add: static_canon_htags_def static_canon_aetags_def canon_comparator_def)

lemma reads_header_test:
  assumes "ok_headers sl" and "ok_patterns cl (require c) coll m ps" and "3 \<le> n"
    and n: "length (tokens_sl sl) \<le> n" "length (tokens_sl ps) \<le> n"
  shows "reads_any c (y_header_test cl g n) (tokens_comparator coll @ tokens_match m @ tokens_sl sl @ tokens_sl ps)
    (tree_test (THeader coll m sl ps)) c"
proof -
  let ?h = "\<lparr>ht_comparator = coll, ht_comptag = (case m of None \<Rightarrow> - 1 | Some m \<Rightarrow> match_tag m)\<rparr>"
  have ne: "sl \<noteq> []" "ps \<noteq> []" and m: "match_ok c m" and f: "comparator_of coll m \<noteq> None"
    using assms by (auto simp: ok_headers_def ok_patterns_def match_ok_def)
  have build: "static_build_header (static_canon_htags ?h) sl (patterns_of coll m ps) = Some (tree_test (THeader coll m sl ps))"
    using f by (auto simp: static_build_header_def canon_tags comparator_of_def)
  have "reads_any c (y_bind (y_stringlist cl g n) (\<lambda>ps.
      y_bind (static_verify_stringlist (static_verify_header cl) sl) (\<lambda>ok.
       if \<not> ok then yyerror
       else (let h = static_canon_htags ?h
             in y_bind (y_patterns cl (ht_comptag h) (canon_comparator (ht_comparator h)) ps) (\<lambda>pl.
                y_some_test (static_build_header h sl pl)))))) (tokens_sl ps @ []) (tree_test (THeader coll m sl ps)) c"
    by (intro reads_stringlist_bind n ne reads_nil_bind [OF reads_verify_header [OF assms(1)]])
      (auto simp: Let_def canon_tags build y_some_test_def intro!: reads_nil_bind [OF reads_patterns [OF assms(2)]] reads_ret)
  then show ?thesis
    unfolding y_header_test_def
    by (intro reads_bind [where vs = "tokens_sl sl @ tokens_sl ps", OF reads_htags [OF assms(3) m]]
        reads_stringlist_bind n ne) (auto simp: starts_tokens_sl)
qed

lemma reads_address_test:
  assumes "ok_headers sl" and "ok_patterns cl (require c) coll m ps" and "4 \<le> n"
    and n: "length (tokens_sl sl) \<le> n" "length (tokens_sl ps) \<le> n"
    and part: "part \<in> {Some PUser, Some PDetail} \<longrightarrow> s_subaddress (require c)"
  shows "reads_any c (y_address_test cl g n envelope)
    (tokens_comparator coll @ tokens_match m @ tokens_part part @ tokens_sl sl @ tokens_sl ps)
    (tree_test (TAddress envelope coll m part sl ps)) c"
proof -
  let ?h = "\<lparr>ht_comparator = coll, ht_comptag = (case m of None \<Rightarrow> - 1 | Some m \<Rightarrow> match_tag m),
      aet_addrtag = (case part of None \<Rightarrow> - 1 | Some p \<Rightarrow> part_tag p)\<rparr>"
  have ne: "sl \<noteq> []" "ps \<noteq> []" and m: "match_ok c m" and f: "comparator_of coll m \<noteq> None"
    using assms by (auto simp: ok_headers_def ok_patterns_def match_ok_def)
  define T where "T = tree_test (TAddress envelope coll m part sl ps)"
  have build: "static_build_address envelope (static_canon_aetags ?h) sl (patterns_of coll m ps)
      = Some T"
    using f by (auto simp: T_def static_build_address_def canon_tags comparator_of_def)
  have "reads_any c (y_bind (y_stringlist cl g n) (\<lambda>ps.
      y_bind (static_verify_stringlist (static_verify_header cl) sl) (\<lambda>ok.
       if \<not> ok then yyerror
       else (let ae = static_canon_aetags ?h
             in y_bind (y_patterns cl (ht_comptag ae) (canon_comparator (ht_comparator ae)) ps) (\<lambda>pl.
                y_some_test (static_build_address envelope ae sl pl)))))) (tokens_sl ps @ []) T c"
    by (intro reads_stringlist_bind n ne reads_nil_bind [OF reads_verify_header [OF assms(1)]])
      (auto simp: Let_def canon_tags build y_some_test_def intro!: reads_nil_bind [OF reads_patterns [OF assms(2)]] reads_ret)
  then show ?thesis
    unfolding y_address_test_def T_def [symmetric]
    by (intro reads_bind [where vs = "tokens_sl sl @ tokens_sl ps", OF reads_aetags [OF assms(3) m part]]
        reads_stringlist_bind n ne) (auto simp: starts_tokens_sl)
qed

lemma reads_hasflag_test:
  assumes "sl \<noteq> []" and "s_imap4flags (require c)" and "1 \<le> n" and "length (tokens_sl sl) \<le> n"
  shows "reads_any c (y_hasflag_test cl g n) (tokens_sl sl) (Hasflag None sl) c"
proof -
  obtain k where n: "n = Suc k" using assms(3) by (cases n) auto
  have tags: "reads starts_sl c (y_hftags cl g n static_new_hftags) [] static_new_hftags c"
    unfolding n by (auto intro!: reads_peek_nil reads_ret simp: starts_sl_tags)
  have rest: "reads_any c (y_bind (y_stringlist cl g n) (\<lambda>sl.
     y_bind y_context (\<lambda>c.
       if \<not> s_imap4flags (require c) then y_reject cl ''imap4flags not required''
       else y_bind (static_verify_stringlist static_verify_flag sl) (\<lambda>ok.
         if \<not> ok then yyerror
         else if ht_comptag static_new_hftags \<noteq> - 1 then
           y_bind (y_some (ht_comparator static_new_hftags)) (\<lambda>coll.
             y_ret (Hasflag (Some (ht_comptag static_new_hftags, libsieve_comparator_lookup coll (ht_comptag static_new_hftags))) sl))
         else y_ret (Hasflag None sl))))) (tokens_sl sl @ []) (Hasflag None sl) c"
    by (rule reads_stringlist_bind [OF assms(4,1)])
      (use assms(2) in \<open>auto simp: static_new_hftags_def intro!: reads_context reads_nil_bind [OF reads_verify_flag] reads_ret\<close>)
  show ?thesis
    unfolding y_hasflag_test_def
    by (rule reads_bind [where vs = "tokens_sl sl", OF tags])
      (use rest starts_tokens_sl [of sl "[]"] in auto)
qed

text \<open>\<open>room ts r n\<close>: the fuel \<open>n\<close> is enough for the tokens \<open>ts\<close>.\<close>

abbreviation room :: "stoken list \<Rightarrow> nat \<Rightarrow> nat \<Rightarrow> bool" where
  "room ts r n \<equiv> 8 * length ts + r \<le> n"

lemma reads_tests:
  assumes "\<And>t n. t \<in> set ts \<Longrightarrow> room (tokens_test t) 2 n \<Longrightarrow>
      reads_any c (y_test_at cl g n) (tokens_test t) (Some (tree_test t)) c"
    and "room (concat (map (\<lambda>t. SCh CHR '','' # tokens_test t) ts)) 1 n"
  shows "reads (\<lambda>l. l \<noteq> Some (SCh CHR '','')) c (y_tests cl g n)
    (concat (map (\<lambda>t. SCh CHR '','' # tokens_test t) ts)) (map (\<lambda>t. Some (tree_test t)) ts) c"
  using assms
proof (induction ts arbitrary: n)
  case Nil
  then obtain k where n: "n = Suc k" by (cases n) auto
  show ?case by (auto simp: n intro!: reads_peek_nil reads_ret)
next
  case (Cons t ts)
  then obtain k where n: "n = Suc k" by (cases n) auto
  have t: "reads_any c (y_test_at cl g k) (tokens_test t) (Some (tree_test t)) c"
    using Cons.prems by (intro Cons.prems(1)) (auto simp: n)
  have ts: "reads (\<lambda>l. l \<noteq> Some (SCh CHR '','')) c (y_tests cl g k)
      (concat (map (\<lambda>t. SCh CHR '','' # tokens_test t) ts)) (map (\<lambda>t. Some (tree_test t)) ts) c"
    using Cons.prems by (intro Cons.IH) (auto simp: n)
  show ?case
    by (auto simp: n libsieve_new_testlist_def
        intro!: reads_peek_cons reads_shift reads_any_bind [OF t] reads_map [OF ts])
qed

lemma reads_testlist:
  assumes at: "\<And>u n. u \<in> set (t # ts) \<Longrightarrow> room (tokens_test u) 2 n \<Longrightarrow>
      reads_any c (y_test_at cl g n) (tokens_test u) (Some (tree_test u)) c"
    and room: "room (tokens_test t @ concat (map (\<lambda>t. SCh CHR '','' # tokens_test t) ts)) 8 n"
  shows "reads_any c (y_testlist cl g n)
    (SCh CHR ''('' # tokens_test t @ concat (map (\<lambda>t. SCh CHR '','' # tokens_test t) ts) @ [SCh CHR '')''])
    (Some (tree_test t) # map (\<lambda>t. Some (tree_test t)) ts) c"
proof -
  obtain k where n: "n = Suc (Suc k)" using room by (cases n; cases "n - 1") auto
  have t: "reads_any c (y_test_at cl g (Suc k)) (tokens_test t) (Some (tree_test t)) c"
    using room by (intro at) (auto simp: n)
  have ts: "reads (\<lambda>l. l \<noteq> Some (SCh CHR '','')) c (y_tests cl g k)
      (concat (map (\<lambda>t. SCh CHR '','' # tokens_test t) ts)) (map (\<lambda>t. Some (tree_test t)) ts) c"
    using room at by (intro reads_tests) (auto simp: n)
  have "reads_any c (y_paren cl g (Suc k) (Some (tree_test t)))
      (concat (map (\<lambda>t. SCh CHR '','' # tokens_test t) ts) @ [SCh CHR '')''])
      (Some (tree_test t) # map (\<lambda>t. Some (tree_test t)) ts) c"
    unfolding y_paren.simps
    by (rule reads_catch, rule reads_bind [OF ts])
      (auto simp: head_of_def libsieve_new_testlist_def intro!: reads_expect_then reads_ret)
  then show ?thesis
    unfolding n by (subst y_testlist.simps) (intro reads_expect_then reads_any_bind [OF t])
qed

lemma reads_test_at:
  "(\<And>n. room ts 1 n \<Longrightarrow> reads_any c (y_test cl g n) ts x c) \<Longrightarrow> room ts 2 n \<Longrightarrow>
   reads_any c (y_test_at cl g n) ts (Some x) c"
  by (cases n) (auto intro!: reads_catch reads_map)

lemma length_sl_room: "length (tokens_sl sl) + length (tokens_sl ps) \<le> k \<Longrightarrow> length (tokens_sl sl) \<le> k"
  by simp

lemma reads_test:
  "ok_test cl (require c) t \<Longrightarrow> room (tokens_test t) 1 n \<Longrightarrow> reads_any c (y_test cl g n) (tokens_test t) (tree_test t) c"
proof (induction t arbitrary: n)
  case (TAnyof t ts)
  then obtain k where n: "n = Suc k" by (cases n) auto
  have "reads_any c (y_testlist cl g k)
    (SCh CHR ''('' # tokens_test t @ concat (map (\<lambda>t. SCh CHR '','' # tokens_test t) ts) @ [SCh CHR '')''])
    (Some (tree_test t) # map (\<lambda>t. Some (tree_test t)) ts) c"
    by (rule reads_testlist) (use TAnyof in \<open>auto simp: n intro!: reads_test_at\<close>)
  then show ?case by (auto simp: n intro!: reads_peek_cons reads_shift reads_map)
next
  case (TAllof t ts)
  then obtain k where n: "n = Suc k" by (cases n) auto
  have "reads_any c (y_testlist cl g k)
    (SCh CHR ''('' # tokens_test t @ concat (map (\<lambda>t. SCh CHR '','' # tokens_test t) ts) @ [SCh CHR '')''])
    (Some (tree_test t) # map (\<lambda>t. Some (tree_test t)) ts) c"
    by (rule reads_testlist) (use TAllof in \<open>auto simp: n intro!: reads_test_at\<close>)
  then show ?case by (auto simp: n intro!: reads_peek_cons reads_shift reads_map)
next
  case (TExists sl)
  then obtain k where n: "n = Suc k" by (cases n) auto
  show ?case
    using TExists by (auto simp: n intro!: reads_peek_cons reads_shift reads_map [where y = sl] reads_stringlist)
next
  case (THasflag sl)
  then obtain k where n: "n = Suc k" by (cases n) auto
  show ?case using THasflag by (auto simp: n intro!: reads_peek_cons reads_shift reads_hasflag_test)
next
  case (THeader coll m sl ps)
  then obtain k where n: "n = Suc k" by (cases n) auto
  have "8 * (length (tokens_sl sl) + length (tokens_sl ps)) \<le> k" using THeader.prems(2) by (simp add: n)
  moreover from this length_tokens_sl(2) [of sl] have "3 \<le> k" by (cases "tokens_sl sl") auto
  ultimately show ?case
    using THeader.prems(1) by (auto simp: n intro!: reads_peek_cons reads_shift reads_header_test simp del: tree_test.simps)
next
  case (TAddress envelope coll m part sl ps)
  then obtain k where n: "n = Suc k" by (cases n) auto
  have "8 * (length (tokens_sl sl) + length (tokens_sl ps)) \<le> k" using TAddress.prems(2) by (simp add: n)
  moreover from this length_tokens_sl(2) [of sl] have "4 \<le> k" by (cases "tokens_sl sl") auto
  ultimately show ?case
    using TAddress.prems(1)
    by (cases envelope) (auto simp: n intro!: reads_peek_cons reads_shift reads_address_test simp del: tree_test.simps)
next
  case (TNot t)
  then obtain k where n: "n = Suc k" by (cases n) auto
  have "reads_any c (y_test_at cl g k) (tokens_test t) (Some (tree_test t)) c"
    by (rule reads_test_at) (use TNot in \<open>auto simp: n\<close>)
  then show ?case by (auto simp: n intro!: reads_peek_cons reads_shift reads_map)
next
  case (TSize over k)
  then obtain m where n: "n = Suc m" by (cases n) auto
  show ?case by (cases over) (auto simp: n y_size_test_def intro!: reads_peek_cons reads_shift reads_number_bind reads_ret)
next
  case TFalse
  then obtain k where n: "n = Suc k" by (cases n) auto
  show ?case by (auto simp: n intro!: reads_peek_cons reads_shift reads_ret)
next
  case TTrue
  then obtain k where n: "n = Suc k" by (cases n) auto
  show ?case by (auto simp: n intro!: reads_peek_cons reads_shift reads_ret)
qed

section \<open>Actions\<close>

lemma reads_address:
  assumes "good_address cl s" and "addr_scan c = (INITIAL, 0)"
  shows "reads_any c (static_verify_address cl s) [] True c"
proof -
  obtain addrs where p: "addr_parse (cl_syntax_error cl) (INITIAL, 0) s = Some (Some addrs, (INITIAL, 0), [])"
    and ne: "tl addrs \<noteq> []"
    using assms(1) by (auto simp: good_address_def split: option.splits)
  have "libsieve_addr_parse_buffer cl c0 s = Some (tl addrs, c0)" if "unscanned c0 = c" for c0
  proof -
    have "addr_scan c0 = (INITIAL, 0)" using assms(2) that by (auto simp: unscanned_def)
    then show ?thesis using p by (simp add: libsieve_addr_parse_buffer_def)
  qed
  then show ?thesis
    unfolding static_verify_address_def
    by (intro reads_nil_bind [where y = "tl addrs"] reads_y_do) (auto simp: ne intro: reads_ret)
qed

lemma reads_addresses:
  "\<forall>a \<in> set sl. good_address cl a \<Longrightarrow> addr_scan c = (INITIAL, 0) \<Longrightarrow>
   reads_any c (static_verify_stringlist (static_verify_address cl) sl) [] True c"
  by (auto intro!: reads_verify reads_address)

lemma reads_string_tag:
  "old = None \<Longrightarrow> reads_any c (y_string_tag cl g dup old) [Tk t, SStr v] v c"
  unfolding y_string_tag_def by (auto simp: static_ok_header_def intro!: reads_shift reads_string_bind reads_ret)

lemma reads_string_tag_bind:
  "old = None \<Longrightarrow> reads F c (f v) ts x c' \<Longrightarrow>
   reads F c (y_bind (y_string_tag cl g dup old) f) (Tk t # SStr v # ts) x c'"
  using reads_any_bind [OF reads_string_tag] by fastforce

text \<open>A loop over tags: with fuel from \<open>k\<close> on it reads \<open>ts\<close> and takes the tags from \<open>v\<close> to \<open>x\<close>.\<close>

definition reads_tags ::
  "(stoken option \<Rightarrow> bool) \<Rightarrow> (nat \<Rightarrow> 'v \<Rightarrow> ('v, 'w) parser) \<Rightarrow> 'w sieve2_context \<Rightarrow> nat \<Rightarrow> 'v \<Rightarrow> stoken list \<Rightarrow> 'v \<Rightarrow> bool" where
  "reads_tags F p c k v ts x \<longleftrightarrow> (\<forall>n \<ge> k. reads F c (p n v) ts x c)"

lemma reads_tagsI:
  "(\<And>n. k \<le> n \<Longrightarrow> reads F c (p (Suc n) v) ts x c) \<Longrightarrow> reads_tags F p c (Suc k) v ts x"
  unfolding reads_tags_def using Suc_le_D by (metis Suc_le_mono)

lemma reads_tagsD: "reads_tags F p c k v ts x \<Longrightarrow> k \<le> n \<Longrightarrow> reads F c (p n v) ts x c"
  by (simp add: reads_tags_def)

lemma reads_tags_mono: "reads_tags F p c k v ts x \<Longrightarrow> k \<le> k' \<Longrightarrow> reads_tags F p c k' v ts x"
  by (auto simp: reads_tags_def)

abbreviation "reads_v cl g \<equiv> reads_tags (\<lambda>l. \<exists>s. l = Some (SStr s)) (y_vtags cl g)"

abbreviation "reads_n cl g \<equiv> reads_tags (\<lambda>l. l = Some (SCh CHR '';'')) (y_ntags cl g)"

lemma reads_v_end: "reads_v cl g c (Suc 0) v [] v"
  by (rule reads_tagsI) (auto intro!: reads_peek_nil reads_ret)

lemma reads_v_days:
  assumes "reads_v cl g c k (v\<lparr>vt_days := (case d of None \<Rightarrow> vt_days v | Some d \<Rightarrow> d)\<rparr>) ts x" and "vt_days v = - 1"
  shows "reads_v cl g c (Suc k) v ((case d of None \<Rightarrow> [] | Some n \<Rightarrow> [Tk ''DAYS'', SNum n]) @ ts) x"
proof (cases d)
  case None
  then have "v\<lparr>vt_days := (case d of None \<Rightarrow> vt_days v | Some d \<Rightarrow> d)\<rparr> = v" by simp
  then show ?thesis using assms(1) None by (auto intro: reads_tags_mono)
next
  case (Some m)
  have step: "reads (\<lambda>l. \<exists>s. l = Some (SStr s)) c (y_vtags cl g n (v\<lparr>vt_days := m\<rparr>)) ts x c" if "k \<le> n" for n
    using reads_tagsD [OF assms(1) that] Some by simp
  show ?thesis unfolding Some
    by (rule reads_tagsI) (use assms(2) in \<open>auto simp: tokens_tag_def static_ok_header_def
      intro!: reads_peek_cons reads_shift reads_number_bind reads_string_tag_bind step\<close>)
qed

lemma reads_v_addresses:
  assumes "reads_v cl g c k (v\<lparr>vt_addresses := addrs\<rparr>) ts x" and "vt_addresses v = []"
    and "\<forall>a \<in> set addrs. good_address cl a" and "addr_scan c = (INITIAL, 0)" and "length (tokens_sl addrs) \<le> k"
  shows "reads_v cl g c (Suc k) v ((if addrs = [] then [] else Tk ''ADDRESSES'' # tokens_sl addrs) @ ts) x"
proof (cases "addrs = []")
  case True
  then have "v\<lparr>vt_addresses := addrs\<rparr> = v" using assms(2) by simp
  then show ?thesis using assms(1) True by (auto intro: reads_tags_mono)
next
  case False
  have "reads (\<lambda>l. \<exists>s. l = Some (SStr s)) c (y_bind (y_stringlist cl g n) (\<lambda>sl.
      if vt_addresses v \<noteq> [] then y_reject cl ''duplicate :addresses''
      else y_bind (static_verify_stringlist (static_verify_address cl) sl) (\<lambda>ok.
        if \<not> ok then yyerror else y_vtags cl g n (v\<lparr>vt_addresses := sl\<rparr>)))) (tokens_sl addrs @ ts) x c" if "k \<le> n" for n
    by (rule reads_stringlist_bind) (use assms that False in \<open>auto intro!: reads_nil_bind [OF reads_addresses] reads_tagsD [OF assms(1)]\<close>)
  then show ?thesis using False by (auto intro!: reads_tagsI reads_peek_cons reads_shift)
qed

lemma reads_v_subject:
  assumes "reads_v cl g c k (v\<lparr>vt_subject := t\<rparr>) ts x" and "vt_subject v = None"
  shows "reads_v cl g c (Suc k) v (tokens_tag ''SUBJECT'' t @ ts) x"
proof (cases t)
  case None
  then have "v\<lparr>vt_subject := t\<rparr> = v" using assms(2) by simp
  then show ?thesis using assms(1) None by (auto simp: tokens_tag_def intro: reads_tags_mono)
next
  case (Some s)
  have step: "reads (\<lambda>l. \<exists>s. l = Some (SStr s)) c (y_vtags cl g n (v\<lparr>vt_subject := Some s\<rparr>)) ts x c" if "k \<le> n" for n
    using reads_tagsD [OF assms(1) that] Some by simp
  show ?thesis unfolding Some
    by (rule reads_tagsI) (use assms(2) in \<open>auto simp: tokens_tag_def static_ok_header_def
      intro!: reads_peek_cons reads_shift reads_number_bind reads_string_tag_bind step\<close>)
qed

lemma reads_v_from:
  assumes "reads_v cl g c k (v\<lparr>vt_from := t\<rparr>) ts x" and "vt_from v = None"
  shows "reads_v cl g c (Suc k) v (tokens_tag ''FROM'' t @ ts) x"
proof (cases t)
  case None
  then have "v\<lparr>vt_from := t\<rparr> = v" using assms(2) by simp
  then show ?thesis using assms(1) None by (auto simp: tokens_tag_def intro: reads_tags_mono)
next
  case (Some s)
  have step: "reads (\<lambda>l. \<exists>s. l = Some (SStr s)) c (y_vtags cl g n (v\<lparr>vt_from := Some s\<rparr>)) ts x c" if "k \<le> n" for n
    using reads_tagsD [OF assms(1) that] Some by simp
  show ?thesis unfolding Some
    by (rule reads_tagsI) (use assms(2) in \<open>auto simp: tokens_tag_def static_ok_header_def
      intro!: reads_peek_cons reads_shift reads_number_bind reads_string_tag_bind step\<close>)
qed

lemma reads_v_handle:
  assumes "reads_v cl g c k (v\<lparr>vt_handle := t\<rparr>) ts x" and "vt_handle v = None"
  shows "reads_v cl g c (Suc k) v (tokens_tag ''HANDLE'' t @ ts) x"
proof (cases t)
  case None
  then have "v\<lparr>vt_handle := t\<rparr> = v" using assms(2) by simp
  then show ?thesis using assms(1) None by (auto simp: tokens_tag_def intro: reads_tags_mono)
next
  case (Some s)
  have step: "reads (\<lambda>l. \<exists>s. l = Some (SStr s)) c (y_vtags cl g n (v\<lparr>vt_handle := Some s\<rparr>)) ts x c" if "k \<le> n" for n
    using reads_tagsD [OF assms(1) that] Some by simp
  show ?thesis unfolding Some
    by (rule reads_tagsI) (use assms(2) in \<open>auto simp: tokens_tag_def static_ok_header_def
      intro!: reads_peek_cons reads_shift reads_number_bind reads_string_tag_bind step\<close>)
qed

lemma reads_v_mime:
  assumes "reads_v cl g c k (v\<lparr>vt_mime := (if mime then tok_MIME else vt_mime v)\<rparr>) ts x" and "vt_mime v = - 1"
  shows "reads_v cl g c (Suc k) v ((if mime then [Tk ''MIME''] else []) @ ts) x"
proof (cases mime)
  case False
  then have "v\<lparr>vt_mime := (if mime then tok_MIME else vt_mime v)\<rparr> = v" by simp
  then show ?thesis using assms(1) False by (auto intro: reads_tags_mono)
next
  case True
  have step: "reads (\<lambda>l. \<exists>s. l = Some (SStr s)) c (y_vtags cl g n (v\<lparr>vt_mime := tok_MIME\<rparr>)) ts x c" if "k \<le> n" for n
    using reads_tagsD [OF assms(1) that] True by simp
  show ?thesis using True
    by (auto intro!: reads_tagsI) (use assms(2) in \<open>auto intro!: reads_peek_cons reads_shift step\<close>)
qed

lemma reads_vtags:
  assumes "\<forall>a \<in> set addrs. good_address cl a" and "addr_scan c = (INITIAL, 0)" and "length (tokens_sl addrs) + 5 \<le> k"
  shows "reads_v cl g c (Suc (Suc k)) static_new_vtags
    ((case days of None \<Rightarrow> [] | Some n \<Rightarrow> [Tk ''DAYS'', SNum n])
     @ (if addrs = [] then [] else Tk ''ADDRESSES'' # tokens_sl addrs) @ tokens_tag ''SUBJECT'' subject
     @ tokens_tag ''FROM'' from @ tokens_tag ''HANDLE'' handle @ (if mime then [Tk ''MIME''] else []) @ [])
    \<lparr>vt_days = (case days of None \<Rightarrow> - 1 | Some n \<Rightarrow> n), vt_addresses = addrs, vt_subject = subject,
     vt_mime = (if mime then tok_MIME else - 1), vt_from = from, vt_handle = handle\<rparr>"
proof -
  have "5 \<le> k" using assms(3) by simp
  then obtain j where "k = 5 + j" using le_Suc_ex by blast
  then have k: "k = Suc (Suc (Suc (Suc (Suc j))))" by simp
  show ?thesis
    unfolding k
    by (intro reads_v_days reads_v_addresses reads_v_subject reads_v_from reads_v_handle reads_v_mime)
      (use assms k in \<open>auto simp: static_new_vtags_def split: option.split intro: reads_tags_mono [OF reads_v_end]\<close>)
qed

lemma reads_n_end: "reads_n cl g c (Suc 0) v [] v"
  by (rule reads_tagsI) (auto simp: priority_of_def intro!: reads_peek_nil reads_ret)

lemma reads_n_method:
  assumes "reads_n cl g c k (v\<lparr>nt_method := t\<rparr>) ts x" and "nt_method v = None"
  shows "reads_n cl g c (Suc k) v (tokens_tag ''METHOD'' t @ ts) x"
proof (cases t)
  case None
  then have "v\<lparr>nt_method := t\<rparr> = v" using assms(2) by simp
  then show ?thesis using assms(1) None by (auto simp: tokens_tag_def intro: reads_tags_mono)
next
  case (Some s)
  have step: "reads (\<lambda>l. l = Some (SCh CHR '';'')) c (y_ntags cl g n (v\<lparr>nt_method := Some s\<rparr>)) ts x c" if "k \<le> n" for n
    using reads_tagsD [OF assms(1) that] Some by simp
  show ?thesis unfolding Some
    by (rule reads_tagsI) (use assms(2) in \<open>auto simp: tokens_tag_def intro!: reads_peek_cons reads_string_tag_bind step\<close>)
qed

lemma reads_n_id:
  assumes "reads_n cl g c k (v\<lparr>nt_id := t\<rparr>) ts x" and "nt_id v = None"
  shows "reads_n cl g c (Suc k) v (tokens_tag ''ID'' t @ ts) x"
proof (cases t)
  case None
  then have "v\<lparr>nt_id := t\<rparr> = v" using assms(2) by simp
  then show ?thesis using assms(1) None by (auto simp: tokens_tag_def intro: reads_tags_mono)
next
  case (Some s)
  have step: "reads (\<lambda>l. l = Some (SCh CHR '';'')) c (y_ntags cl g n (v\<lparr>nt_id := Some s\<rparr>)) ts x c" if "k \<le> n" for n
    using reads_tagsD [OF assms(1) that] Some by simp
  show ?thesis unfolding Some
    by (rule reads_tagsI) (use assms(2) in \<open>auto simp: tokens_tag_def intro!: reads_peek_cons reads_string_tag_bind step\<close>)
qed

lemma reads_n_message:
  assumes "reads_n cl g c k (v\<lparr>nt_message := t\<rparr>) ts x" and "nt_message v = None"
  shows "reads_n cl g c (Suc k) v (tokens_tag ''MESSAGE'' t @ ts) x"
proof (cases t)
  case None
  then have "v\<lparr>nt_message := t\<rparr> = v" using assms(2) by simp
  then show ?thesis using assms(1) None by (auto simp: tokens_tag_def intro: reads_tags_mono)
next
  case (Some s)
  have step: "reads (\<lambda>l. l = Some (SCh CHR '';'')) c (y_ntags cl g n (v\<lparr>nt_message := Some s\<rparr>)) ts x c" if "k \<le> n" for n
    using reads_tagsD [OF assms(1) that] Some by simp
  show ?thesis unfolding Some
    by (rule reads_tagsI) (use assms(2) in \<open>auto simp: tokens_tag_def intro!: reads_peek_cons reads_string_tag_bind step\<close>)
qed

lemma reads_n_priority:
  assumes "reads_n cl g c k (v\<lparr>nt_priority := t\<rparr>) ts x" and "nt_priority v = None"
    and "t \<in> {None, Some ''low'', Some ''normal'', Some ''high''}"
  shows "reads_n cl g c (Suc k) v (tokens_priority t @ ts) x"
proof (cases t)
  case None
  then have "v\<lparr>nt_priority := t\<rparr> = v" using assms(2) by simp
  then show ?thesis using assms(1) None by (auto simp: tokens_priority_def intro: reads_tags_mono)
next
  case (Some s)
  have step: "reads (\<lambda>l. l = Some (SCh CHR '';'')) c (y_ntags cl g n (v\<lparr>nt_priority := Some s\<rparr>)) ts x c" if "k \<le> n" for n
    using reads_tagsD [OF assms(1) that] Some by simp
  have "s \<in> {''low'', ''normal'', ''high''}" using assms(3) Some by auto
  then show ?thesis unfolding Some
    by (intro reads_tagsI) (use assms(2) step in \<open>auto simp: tokens_priority_def priority_of_def intro!: reads_peek_cons reads_shift\<close>)
qed

lemma reads_ntags:
  assumes "prio \<in> {None, Some ''low'', Some ''normal'', Some ''high''}" and "5 \<le> n"
  shows "reads (\<lambda>l. l = Some (SCh CHR '';'')) c (y_ntags cl g n static_new_ntags)
    (tokens_tag ''METHOD'' meth @ tokens_tag ''ID'' ident @ tokens_priority prio @ tokens_tag ''MESSAGE'' msg @ [])
    \<lparr>nt_method = meth, nt_id = ident, nt_options = [], nt_priority = prio, nt_message = msg\<rparr> c"
proof -
  have "reads_n cl g c (Suc (Suc (Suc (Suc (Suc 0))))) static_new_ntags
    (tokens_tag ''METHOD'' meth @ tokens_tag ''ID'' ident @ tokens_priority prio @ tokens_tag ''MESSAGE'' msg @ [])
    \<lparr>nt_method = meth, nt_id = ident, nt_options = [], nt_priority = prio, nt_message = msg\<rparr>"
    by (intro reads_n_method reads_n_id reads_n_priority reads_n_message)
      (use assms in \<open>auto simp: static_new_ntags_def intro: reads_n_end\<close>)
  then show ?thesis by (rule reads_tagsD) (use assms(2) in simp)
qed

lemma reads_stringlist_end:
  "length (tokens_sl sl) \<le> n \<Longrightarrow> sl \<noteq> [] \<Longrightarrow> reads F c (f sl) [] x c' \<Longrightarrow>
   reads F c (y_bind (y_stringlist cl g n) f) (tokens_sl sl) x c'"
  using reads_stringlist_bind [of sl n F c f "[]"] by simp

lemma reads_flag_action:
  assumes "sl \<noteq> []" and "s_imap4flags (require c)" and "length (tokens_sl sl) \<le> n"
  shows "reads_any c (y_flag_action cl g n f) (Tk t # tokens_sl sl) [f sl] c"
  using assms(2)
  by (auto simp: y_flag_action_def intro!: reads_shift reads_stringlist_end [OF assms(3,1)] reads_context reads_needs reads_nil_bind [OF reads_verify_flag] reads_ret)

lemma reads_keep:
  assumes "sl \<noteq> [] \<longrightarrow> s_imap4flags (require c)" and "length (tokens_sl sl) \<le> n"
  shows "reads (\<lambda>l. l = Some (SCh CHR '';'')) c (y_keep cl g n) (tokens_flags sl) [Keep sl] c"
proof (cases "sl = []")
  case True
  then show ?thesis by (auto simp: y_keep_def tokens_flags_def intro!: reads_peek_nil reads_ret)
next
  case False
  then show ?thesis
    using assms(1)
    by (auto simp: y_keep_def tokens_flags_def intro!: reads_peek_cons reads_shift reads_stringlist_end [OF assms(2) False] reads_context reads_needs reads_ret)
qed

lemma reads_fileinto:
  assumes "sl \<noteq> [] \<longrightarrow> s_imap4flags (require c)" and "s_fileinto (require c)" and "length (tokens_sl sl) \<le> n"
  shows "reads_any c (y_fileinto cl g n) (tokens_flags sl @ [SStr mbox]) [Fileinto mbox sl] c"
proof (cases "sl = []")
  case True
  then show ?thesis using assms
    by (auto simp: y_fileinto_def tokens_flags_def static_verify_mailbox_def
        intro!: reads_peek_cons reads_string_bind reads_context reads_needs reads_ret)
next
  case False
  then show ?thesis
    using assms(1,2)
    by (auto simp: y_fileinto_def tokens_flags_def static_verify_mailbox_def
        intro!: reads_peek_cons reads_shift reads_stringlist_bind [OF assms(3) False] reads_string_bind reads_context
          reads_needs reads_nil_bind [OF reads_verify_flag] reads_ret)
qed

lemma reads_vacation:
  assumes ok: "ok_action cl (require c) (CVacation days addrs subject from handle mime reason)" and "addr_scan c = (INITIAL, 0)"
    and n: "length (tokens_sl addrs) + 7 \<le> n"
  shows "reads_any c (y_bind (y_vtags cl g n static_new_vtags) (\<lambda>v.
         y_bind (y_string cl g) (\<lambda>reason.
         y_bind y_context (\<lambda>c.
         y_needs cl (s_vacation (require c)) ''vacation not required''
           (y_ret (static_build_vacation (static_canon_vtags v) reason))))))
    (tl (tokens_action (CVacation days addrs subject from handle mime reason)))
    [tree_action (CVacation days addrs subject from handle mime reason)] c"
proof -
  define v where "v = \<lparr>vt_days = (case days of None \<Rightarrow> - 1 | Some n \<Rightarrow> n), vt_addresses = addrs, vt_subject = subject,
     vt_mime = (if mime then tok_MIME else - 1), vt_from = from, vt_handle = handle\<rparr>"
  have "reads_v cl g c (Suc (Suc (n - 2))) static_new_vtags
    ((case days of None \<Rightarrow> [] | Some n \<Rightarrow> [Tk ''DAYS'', SNum n])
     @ (if addrs = [] then [] else Tk ''ADDRESSES'' # tokens_sl addrs) @ tokens_tag ''SUBJECT'' subject
     @ tokens_tag ''FROM'' from @ tokens_tag ''HANDLE'' handle @ (if mime then [Tk ''MIME''] else []) @ []) v"
    unfolding v_def by (rule reads_vtags) (use assms in auto)
  then have tags: "reads (\<lambda>l. \<exists>s. l = Some (SStr s)) c (y_vtags cl g n static_new_vtags)
    ((case days of None \<Rightarrow> [] | Some n \<Rightarrow> [Tk ''DAYS'', SNum n])
     @ (if addrs = [] then [] else Tk ''ADDRESSES'' # tokens_sl addrs) @ tokens_tag ''SUBJECT'' subject
     @ tokens_tag ''FROM'' from @ tokens_tag ''HANDLE'' handle @ (if mime then [Tk ''MIME''] else []) @ []) v c"
    by (rule reads_tagsD) (use n in simp)
  have build: "static_build_vacation (static_canon_vtags v) reason
      = [tree_action (CVacation days addrs subject from handle mime reason)]"
    using ok by (auto simp: static_build_vacation_def static_canon_vtags_def v_def codes split: option.split)
  show ?thesis
    by (rule reads_bind [where vs = "[SStr reason]", OF tags])
      (use ok in \<open>auto simp: build head_of_def simp del: tree_action.simps intro!: reads_string_bind reads_context reads_needs reads_ret\<close>)
qed

lemma reads_notify:
  assumes ok: "ok_action cl (require c) (CNotify meth ident prio msg)" and "5 \<le> n"
  shows "reads (\<lambda>l. l = Some (SCh CHR '';'')) c (y_bind (y_ntags cl g n static_new_ntags) (\<lambda>v.
         y_bind y_context (\<lambda>c.
         y_needs cl (s_notify (require c)) ''notify not required''
           (y_ret (static_build_notify (static_canon_ntags v))))))
    (tl (tokens_action (CNotify meth ident prio msg))) [tree_action (CNotify meth ident prio msg)] c"
proof -
  have build: "static_build_notify (static_canon_ntags
      \<lparr>nt_method = meth, nt_id = ident, nt_options = [], nt_priority = prio, nt_message = msg\<rparr>)
      = [tree_action (CNotify meth ident prio msg)]"
    by (simp add: static_build_notify_def static_canon_ntags_def)
  have p: "prio \<in> {None, Some ''low'', Some ''normal'', Some ''high''}" using ok by simp
  show ?thesis
    by (rule reads_bind [where vs = "[]", OF reads_ntags [OF p assms(2)]])
      (use ok in \<open>auto simp: build head_of_def simp del: tree_action.simps intro!: reads_context reads_needs reads_ret\<close>)
qed

lemma reads_action:
  assumes "ok_action cl (require c) a" and "addr_scan c = (INITIAL, 0)" and "8 * length (tokens_action a) \<le> n"
  shows "reads (\<lambda>l. l = Some (SCh CHR '';'')) c (y_action cl g n) (tokens_action a) [tree_action a] c"
proof (cases a)
  case (CVacation days addrs subject sender handle mime reason)
  have "length (tokens_sl addrs) + 7 \<le> n"
    using assms(3) by (cases "addrs = []") (auto simp: CVacation tokens_sl_def)
  note tags = reads_anyD [OF reads_vacation [OF assms(1) [unfolded CVacation] assms(2) this]]
  show ?thesis
    using tags by (auto simp: CVacation y_action_def simp del: tree_action.simps intro!: reads_peek_cons reads_shift)
next
  case (CNotify meth ident prio msg)
  have "5 \<le> n" using assms(3) by (auto simp: CNotify)
  from reads_notify [OF assms(1) [unfolded CNotify] this] show ?thesis
    by (auto simp: CNotify y_action_def simp del: tree_action.simps intro!: reads_peek_cons reads_shift)
next
  case (CKeep sl)
  have "length (tokens_sl sl) \<le> n" using assms(3) by (auto simp: CKeep tokens_flags_def tokens_sl_def split: if_splits)
  then show ?thesis
    using assms(1) by (auto simp: CKeep y_action_def intro!: reads_peek_cons reads_shift reads_keep)
next
  case (CFileinto mbox sl)
  have "length (tokens_sl sl) \<le> n" using assms(3) by (auto simp: CFileinto tokens_flags_def tokens_sl_def split: if_splits)
  then show ?thesis
    using assms(1) by (auto simp: CFileinto y_action_def intro!: reads_peek_cons reads_shift intro!: reads_anyD [OF reads_fileinto])
next
  case (CRedirect s)
  have "good_address cl s" using assms(1) by (simp add: CRedirect)
  then show ?thesis
    using assms(2) by (auto simp: CRedirect y_action_def
        intro!: reads_peek_cons reads_shift reads_string_bind reads_nil_bind [OF reads_address] reads_ret)
qed (use assms in \<open>auto simp: y_action_def intro!: reads_peek_cons reads_shift reads_string_bind reads_context reads_needs reads_ret
      intro!: reads_anyD [OF reads_flag_action]\<close>)

section \<open>Commands\<close>

definition ends_list :: "stoken option \<Rightarrow> bool" where
  "ends_list l \<longleftrightarrow> l = None \<or> l = Some (SCh CHR ''}'')"

definition no_branch :: "stoken option \<Rightarrow> bool" where
  "no_branch l \<longleftrightarrow> l \<noteq> Some (Tk ''ELSIF'') \<and> l \<noteq> Some (Tk ''ELSE'')"

lemma command_head:
  "\<exists>t. head_of (tokens_command c @ ts) l = Some (Tk t) \<and> t \<noteq> ''ELSIF'' \<and> t \<noteq> ''ELSE''"
proof (cases c)
  case (CAct a)
  then show ?thesis by (cases a) (auto simp: head_of_def)
qed (simp add: head_of_def)

lemma command_no_end: "\<not> ends_list (head_of (tokens_command c @ ts) l)" "no_branch (head_of (tokens_command c @ ts) l)"
  using command_head [of c ts l] by (auto simp: ends_list_def no_branch_def)

lemma commands_no_branch: "ends_list l \<Longrightarrow> no_branch (head_of (concat (map tokens_command cs)) l)"
  by (cases cs) (auto simp: command_no_end, auto simp: head_of_def ends_list_def no_branch_def)

lemma length_tokens_command: "2 \<le> length (tokens_command c)"
proof (cases c)
  case (CAct a)
  then show ?thesis by (cases a) auto
qed auto

lemma action_head: "head_of (tokens_action a @ ts) l \<noteq> Some (Tk ''IF'')"
  by (cases a) (auto simp: head_of_def)

lemma tokens_action_ne: "tokens_action a \<noteq> []"
  by (cases a) auto

lemma reads_commands:
  assumes "\<And>c n. c \<in> set cs \<Longrightarrow> room (tokens_command c) 2 n \<Longrightarrow>
      reads no_branch ctx (y_command cl g n) (tokens_command c) [tree_command c] ctx"
    and "cs \<noteq> []" and "room (concat (map tokens_command cs)) 3 n"
  shows "reads ends_list ctx (y_commands cl g n) (concat (map tokens_command cs)) (map tree_command cs) ctx"
  using assms
proof (induction cs arbitrary: n)
  case (Cons c cs)
  obtain k where n: "n = Suc k" using Cons.prems(3) by (cases n) auto
  have c: "reads no_branch ctx (y_command cl g k) (tokens_command c) [tree_command c] ctx"
    by (rule Cons.prems(1)) (use Cons.prems(3) in \<open>auto simp: n\<close>)
  have "16 \<le> 8 * length (tokens_command c)" using length_tokens_command [of c] by simp
  then obtain j where k: "k = Suc j" and j: "room (concat (map tokens_command cs)) 3 j"
    using Cons.prems(3) by (cases k) (auto simp: n)
  have more: "reads ends_list ctx (y_more cl g k [tree_command c]) (concat (map tokens_command cs))
      (map tree_command (c # cs)) ctx"
  proof (cases cs)
    case Nil
    then show ?thesis by (auto simp: k ends_list_def intro!: reads_peek_nil reads_ret)
  next
    case (Cons d ds)
    have "reads ends_list ctx (y_commands cl g j) (concat (map tokens_command cs)) (map tree_command cs) ctx"
      by (rule Cons.IH) (use Cons.prems(1) j Cons in auto)
    then have "reads ends_list ctx (y_bind (y_commands cl g j) (\<lambda>cs. y_ret ([tree_command c] @ cs)))
        (concat (map tokens_command cs)) (map tree_command (c # cs)) ctx"
      by (rule reads_map) simp
    moreover have "\<not> ends_list (tok_head (concat (map tokens_command cs)))" "concat (map tokens_command cs) \<noteq> []"
      using command_no_end(1) [of d] command_head [of d "[]" None] by (auto simp: Cons head_of_def)
    ultimately show ?thesis
      unfolding k y_more.simps by (intro reads_peek) (auto simp: ends_list_def)
  qed
  show ?case
    unfolding n y_commands.simps
    by (rule reads_bind [where f = "y_more cl g k", OF reads_catch [OF c] more]) (simp_all add: commands_no_branch)
qed simp

lemma reads_block:
  assumes "\<And>c n. c \<in> set cs \<Longrightarrow> room (tokens_command c) 2 n \<Longrightarrow>
      reads no_branch ctx (y_command cl g n) (tokens_command c) [tree_command c] ctx"
    and "room (SCh CHR ''{'' # concat (map tokens_command cs) @ [SCh CHR ''}'']) 1 n"
  shows "reads_any ctx (y_block cl g n) (SCh CHR ''{'' # concat (map tokens_command cs) @ [SCh CHR ''}''])
    (map tree_command cs) ctx"
proof -
  obtain k where n: "n = Suc k" using assms(2) by (cases n) auto
  show ?thesis
  proof (cases cs)
    case Nil
    then show ?thesis by (auto simp: n intro!: reads_expect_then reads_peek_cons reads_shift reads_ret)
  next
    case (Cons d ds)
    have cs: "reads ends_list ctx (y_commands cl g k) (concat (map tokens_command cs)) (map tree_command cs) ctx"
      by (rule reads_commands) (use assms Cons in \<open>auto simp: n\<close>)
    have close: "reads_any ctx (y_then (y_catch (y_expect cl g (SCh CHR ''}'')) y_abort) (y_ret xs)) [SCh CHR ''}''] xs ctx"
      for xs :: "command list"
      unfolding y_then_def using reads_any_bind [OF reads_catch [OF reads_expect] reads_ret] by fastforce
    have "reads_any ctx (y_bind (y_commands cl g k)
        (\<lambda>cs. y_then (y_catch (y_expect cl g (SCh CHR ''}'')) y_abort) (y_ret cs)))
        (concat (map tokens_command cs) @ [SCh CHR ''}'']) (map tree_command cs) ctx"
      by (rule reads_bind [OF cs close]) (auto simp: head_of_def ends_list_def)
    moreover have "tok_head (concat (map tokens_command cs) @ [SCh CHR ''}'']) \<noteq> Some (SCh CHR ''}'')"
      using command_head [of d "concat (map tokens_command ds) @ [SCh CHR ''}'']" None] by (auto simp: Cons)
    ultimately show ?thesis
      unfolding n y_block.simps by (intro reads_expect_then reads_peek) auto
  qed
qed

lemma reads_cond:
  assumes cs: "\<And>c n. c \<in> set cs \<Longrightarrow> room (tokens_command c) 2 n \<Longrightarrow>
      reads no_branch ctx (y_command cl g n) (tokens_command c) [tree_command c] ctx"
    and e: "\<And>n. room (tokens_else e) 1 n \<Longrightarrow> reads no_branch ctx (y_elsif cl g n) (tokens_else e) (tree_else e) ctx"
    and n: "room (SCh CHR ''{'' # concat (map tokens_command cs) @ SCh CHR ''}'' # tokens_else e) 2 n"
  shows "reads no_branch ctx (y_cond cl g n t) (SCh CHR ''{'' # concat (map tokens_command cs) @ SCh CHR ''}'' # tokens_else e)
    [Cond t (map tree_command cs) (tree_else e)] ctx"
proof -
  obtain k where k: "n = Suc k" using n by (cases n) auto
  have block: "reads_any ctx (y_block cl g k) (SCh CHR ''{'' # concat (map tokens_command cs) @ [SCh CHR ''}''])
      (map tree_command cs) ctx"
    by (rule reads_block) (use assms in \<open>auto simp: k\<close>)
  have e': "reads no_branch ctx (y_elsif cl g k) (tokens_else e) (tree_else e) ctx"
    by (rule e) (use n in \<open>auto simp: k\<close>)
  have "reads no_branch ctx (y_bind (y_block cl g k) (\<lambda>y. y_bind (y_elsif cl g k) (\<lambda>e. y_ret (libsieve_new_if t y e))))
      (SCh CHR ''{'' # concat (map tokens_command cs) @ SCh CHR ''}'' # tokens_else e)
      [Cond t (map tree_command cs) (tree_else e)] ctx"
    by (rule reads_bind [OF block reads_map [OF e']]) (auto simp: libsieve_new_if_def)
  then show ?thesis unfolding k y_cond.simps by (rule reads_catch)
qed

lemma reads_command:
  "ok_command cl (require ctx) c \<Longrightarrow> addr_scan ctx = (INITIAL, 0) \<Longrightarrow> room (tokens_command c) 2 n \<Longrightarrow>
     reads no_branch ctx (y_command cl g n) (tokens_command c) [tree_command c] ctx"
  and "ok_else cl (require ctx) e \<Longrightarrow> addr_scan ctx = (INITIAL, 0) \<Longrightarrow> room (tokens_else e) 1 n \<Longrightarrow>
     reads no_branch ctx (y_elsif cl g n) (tokens_else e) (tree_else e) ctx"
proof (induction c and e arbitrary: n and n)
  case (CIf t cs e)
  obtain k where n: "n = Suc k" using CIf.prems(3) by (cases n) auto
  have t: "reads_any ctx (y_test_at cl g k) (tokens_test t) (Some (tree_test t)) ctx"
    by (rule reads_test_at [OF reads_test]) (use CIf.prems in \<open>auto simp: n\<close>)
  have rest: "reads no_branch ctx (y_cond cl g k (Some (tree_test t)))
      (SCh CHR ''{'' # concat (map tokens_command cs) @ SCh CHR ''}'' # tokens_else e)
      [Cond (Some (tree_test t)) (map tree_command cs) (tree_else e)] ctx"
    by (rule reads_cond) (use CIf in \<open>auto simp: n\<close>)
  show ?case
    using reads_any_bind [where f = "y_cond cl g k", OF t rest] by (auto simp: n intro!: reads_peek_cons reads_shift)
next
  case (CAct a)
  obtain k where n: "n = Suc k" using CAct.prems(3) by (cases n) auto
  have a: "reads (\<lambda>l. l = Some (SCh CHR '';'')) ctx (y_action cl g k) (tokens_action a) [tree_action a] ctx"
    by (rule reads_action) (use CAct in \<open>auto simp: n\<close>)
  have "reads no_branch ctx (y_bind (y_action cl g k) (\<lambda>c. y_then (y_expect cl g (SCh CHR '';'')) (y_ret c)))
      (tokens_action a @ [SCh CHR '';'']) [tree_action a] ctx"
    by (rule reads_bind [OF a]) (auto simp: head_of_def intro!: reads_expect_then reads_ret)
  then show ?case
    unfolding n y_command.simps
    by (intro reads_peek) (use action_head [of a "[SCh CHR '';'']" None] in \<open>auto simp: tokens_action_ne\<close>)
next
  case NoElse
  then obtain k where n: "n = Suc k" by (cases n) auto
  show ?case by (auto simp: n no_branch_def intro!: reads_peek_nil reads_ret)
next
  case (Else cs)
  obtain k where n: "n = Suc k" using Else.prems(3) by (cases n) auto
  have "reads_any ctx (y_block cl g k) (SCh CHR ''{'' # concat (map tokens_command cs) @ [SCh CHR ''}''])
      (map tree_command cs) ctx"
  proof (rule reads_block)
    show "reads no_branch ctx (y_command cl g m) (tokens_command c) [tree_command c] ctx"
      if "c \<in> set cs" "room (tokens_command c) 2 m" for c m
      by (rule Else.IH [OF that(1)]) (use that Else.prems in auto)
  qed (use Else.prems(3) in \<open>simp add: n\<close>)
  from reads_anyD [OF this] show ?case by (auto simp: n intro!: reads_peek_cons reads_shift)
next
  case (Elsif t cs e)
  obtain k where n: "n = Suc k" using Elsif.prems(3) by (cases n) auto
  have t: "reads_any ctx (y_test_at cl g k) (tokens_test t) (Some (tree_test t)) ctx"
    by (rule reads_test_at [OF reads_test]) (use Elsif.prems in \<open>auto simp: n\<close>)
  have rest: "reads no_branch ctx (y_cond cl g k (Some (tree_test t)))
      (SCh CHR ''{'' # concat (map tokens_command cs) @ SCh CHR ''}'' # tokens_else e)
      [Cond (Some (tree_test t)) (map tree_command cs) (tree_else e)] ctx"
    by (rule reads_cond) (use Elsif in \<open>auto simp: n\<close>)
  show ?case
    using reads_any_bind [where f = "y_cond cl g k", OF t rest] by (auto simp: n intro!: reads_peek_cons reads_shift)
qed

end
