(* ===== verification/Sieve_Roundtrip.thy ===== *)
theory Sieve_Roundtrip
  imports Sieve_Reading
begin

text \<open>
  From the text of a script to its tree: requirements, the start of the grammar, the end of the input,
  how the scanner reads spelled tokens, and the round trip of whole scripts.
\<close>

section \<open>Scripts\<close>

lemma check_reqs_unscanned:
  "static_check_reqs (unscanned c) s = (fst (static_check_reqs c s), unscanned (snd (static_check_reqs c s)))"
  "sieve_scan (snd (static_check_reqs c s)) = sieve_scan c" "addr_scan (snd (static_check_reqs c s)) = addr_scan c"
  by (simp_all add: static_check_reqs_def unscanned_def Let_def)

lemma require_loop_required:
  "required sl (unscanned c) = Some c' \<Longrightarrow>
   \<exists>c1. require_loop sl False msg c = Some ((False, msg), c1) \<and> unscanned c1 = c' \<and> sieve_scan c1 = sieve_scan c"
proof (induction sl arbitrary: c)
  case (Cons s sl)
  obtain ok c1 where c1: "static_check_reqs c s = (ok, c1)" by fastforce
  show ?case
    using Cons.IH [of c1] Cons.prems check_reqs_unscanned [of c s] by (auto simp: c1 split: bool.splits)
qed simp

lemma required_addr_scan: "required sl c = Some c' \<Longrightarrow> addr_scan c' = addr_scan c"
proof (induction sl arbitrary: c)
  case (Cons s sl)
  then show ?case
    using check_reqs_unscanned(3) [of c s] by (auto split: prod.splits bool.splits)
qed simp

lemma require_message: "strconcat_str [''unsupported feature:''] = Some ''unsupported feature:''"
  by code_simp

lemma reads_some: "reads F c (f x) ts y c' \<Longrightarrow> reads F c (y_bind (y_some (Some x)) f) ts y c'"
  by (simp add: reads_def y_bind_def y_some_def)

lemma reads_require:
  assumes sl: "sl \<noteq> []" and n: "length (tokens_sl sl) \<le> n" and req: "required sl c = Some c'"
  shows "reads_any c (y_require cl g n) (tokens_sl sl @ [SCh CHR '';'']) () c'"
proof -
  have loop: "reads_any c (y_do (require_loop sl False m)) [] (False, m) c'" for m
    by (rule reads_y_do) (use require_loop_required req in fastforce)
  show ?thesis
    unfolding y_require_def
    by (rule reads_stringlist_bind [OF n sl], rule reads_expect_then)
      (auto simp: require_message intro!: reads_some reads_nil_bind [OF loop] reads_ret)
qed


text \<open>All \<^verbatim>\<open>require\<close> statements of a script, and the script.\<close>

fun required_all :: "string list list \<Rightarrow> 'w sieve2_context \<Rightarrow> 'w sieve2_context option" where
  "required_all [] c = Some c"
| "required_all (sl # rs) c = (if sl = [] then None else do { c \<leftarrow> required sl c; required_all rs c })"

definition tokens_script :: "string list list \<Rightarrow> s_command list \<Rightarrow> stoken list" where
  "tokens_script rs cs = concat (map tokens_require rs) @ tokens_commands cs"

definition ok_script :: "'w client \<Rightarrow> string list list \<Rightarrow> s_command list \<Rightarrow> 'w sieve2_context \<Rightarrow> bool" where
  "ok_script cl rs cs c \<longleftrightarrow> cs \<noteq> [] \<and> addr_scan c = (INITIAL, 0) \<and>
     (case required_all rs c of None \<Rightarrow> False | Some c' \<Rightarrow> \<forall>x \<in> set cs. ok_command cl (require c') x)"

lemma required_unscanned: "required sl c = Some c' \<Longrightarrow> required sl (unscanned c) = Some (unscanned c')"
proof (induction sl arbitrary: c)
  case (Cons s sl)
  obtain ok c1 where c1: "static_check_reqs c s = (ok, c1)" by fastforce
  then show ?case
    using Cons check_reqs_unscanned(1) [of c s] by (auto split: bool.splits)
qed simp

lemma required_all_unscanned: "required_all rs c = Some c' \<Longrightarrow> required_all rs (unscanned c) = Some (unscanned c')"
  by (induction rs arbitrary: c) (auto split: if_splits bind_splits simp: required_unscanned)

lemma required_scan: "required sl c = Some c' \<Longrightarrow> sieve_scan c' = sieve_scan c"
proof (induction sl arbitrary: c)
  case (Cons s sl)
  then show ?case
    using check_reqs_unscanned(2) [of c s] by (auto split: prod.splits bool.splits)
qed simp

lemma required_all_keeps:
  "required_all rs c = Some c' \<Longrightarrow> addr_scan c' = addr_scan c \<and> sieve_scan c' = sieve_scan c"
  by (induction rs arbitrary: c) (fastforce split: if_splits bind_splits simp: required_addr_scan required_scan)+

lemma reads_reqs:
  assumes "required_all rs c = Some c'" and "length (concat (map tokens_require rs)) < n"
  shows "reads (\<lambda>l. l \<noteq> Some (Tk ''REQUIRE'')) c (y_reqs cl g n) (concat (map tokens_require rs)) () c'"
  using assms
proof (induction rs arbitrary: c n)
  case Nil
  then obtain k where n: "n = Suc k" by (cases n) auto
  show ?case using Nil by (auto simp: n intro!: reads_peek_nil reads_ret)
next
  case (Cons sl rs)
  obtain k where n: "n = Suc k" using Cons.prems by (cases n) auto
  obtain c1 where c1: "required sl c = Some c1" "required_all rs c1 = Some c'" and sl: "sl \<noteq> []"
    using Cons.prems(1) by (auto split: if_splits bind_splits)
  have req: "reads_any c (y_require cl g k) (tokens_sl sl @ [SCh CHR '';'']) () c1"
    by (rule reads_require) (use Cons.prems c1 sl in \<open>auto simp: n tokens_require_def\<close>)
  have rest: "reads (\<lambda>l. l \<noteq> Some (Tk ''REQUIRE'')) c1 (y_reqs cl g k) (concat (map tokens_require rs)) () c'"
    by (rule Cons.IH [OF c1(2)]) (use Cons.prems(2) in \<open>auto simp: n tokens_require_def\<close>)
  have "reads (\<lambda>l. l \<noteq> Some (Tk ''REQUIRE'')) c (y_then (y_require cl g k) (y_reqs cl g k))
      ((tokens_sl sl @ [SCh CHR '';'']) @ concat (map tokens_require rs)) () c'"
    unfolding y_then_def by (rule reads_any_bind [OF req rest])
  then show ?case
    by (auto simp: n tokens_require_def [of sl] intro!: reads_peek_cons reads_shift)
qed

lemma command_no_require: "cs \<noteq> [] \<Longrightarrow> head_of (tokens_commands cs) l \<noteq> Some (Tk ''REQUIRE'')"
proof (cases cs)
  case (Cons c cs)
  show ?thesis
  proof (cases c)
    case (CAct a)
    then show ?thesis unfolding Cons by (cases a) (auto simp: head_of_def tokens_commands_def)
  qed (simp add: Cons head_of_def tokens_commands_def)
qed simp

lemma tokens_script_ne: "cs \<noteq> [] \<Longrightarrow> \<exists>t. tok_head (tokens_script rs cs) = Some t"
  using length_tokens_command [of "hd cs"]
  by (cases cs; cases "tokens_script rs cs") (auto simp: tokens_script_def tokens_commands_def head_of_def)

text \<open>The end of the script: with its last token read, the scanner is back in its initial state.\<close>

definition reads_end ::
  "'w sieve2_context \<Rightarrow> (unit, 'w) parser \<Rightarrow> stoken list \<Rightarrow> 'w sieve2_context \<Rightarrow> bool" where
  "reads_end c p ts c' \<longleftrightarrow>
     (\<forall>s. in_front s ts \<longrightarrow> unscanned (ps_ctx s) = c \<longrightarrow> (\<exists>s'. p s = YOk () s' \<and> ps_ctx s' = c'))"

lemma reads_end_bind:
  assumes p: "reads F c p us y c1" and f: "reads_end c1 (f y) vs c'" and F: "F (tok_head vs)"
  shows "reads_end c (y_bind p f) (us @ vs) c'"
  unfolding reads_end_def
proof (intro allI impI)
  fix s assume s: "in_front s (us @ vs)" "unscanned (ps_ctx s) = c"
  from readsE [OF p s(1) F s(2)] obtain s1 where s1: "p s = YOk y s1" "in_front s1 vs" "unscanned (ps_ctx s1) = c1" .
  with f show "\<exists>s'. y_bind p f s = YOk () s' \<and> ps_ctx s' = c'"
    by (auto simp: reads_end_def y_bind_def)
qed

lemma reads_end_peek:
  "unscanned c = c \<Longrightarrow> reads_end c (y_bind (y_peek cl) (\<lambda>l. if l = None then y_ret () else y_syntax_error cl g)) [] c"
  unfolding reads_end_def
proof (intro allI impI)
  fix s :: "'a pstate" assume s: "in_front s []" "unscanned (ps_ctx s) = c" and c: "unscanned c = c"
  from reads_peek_result [OF s(1), of cl] obtain s1 where s1: "y_peek cl s = YOk None s1" "in_front s1 []" "ps_look s1"
    "unscanned (ps_ctx s1) = c" using s(2) by (auto simp: head_of_def)
  then have "sieve_scan (ps_ctx s1) = (S_INITIAL, None)"
    by (cases "(ps_events s1, [] :: stoken list)" rule: carries.cases) (auto simp: in_front_def)
  then have "ps_ctx s1 = unscanned (ps_ctx s1)" by (simp add: unscanned_def)
  with s1 show "\<exists>s'. y_bind (y_peek cl) (\<lambda>l. if l = None then y_ret () else y_syntax_error cl g) s = YOk () s' \<and> ps_ctx s' = c"
    by (auto simp: y_bind_def y_ret_def)
qed

lemma reads_end_catch: "reads_end c p ts c' \<Longrightarrow> reads_end c (y_catch p h) ts c'"
  by (fastforce simp: reads_end_def y_catch_def)

lemma reads_end_start:
  assumes "reads_end c (f (tok_head ts)) ts c'"
  shows "reads_end c (y_bind (y_peek cl) f) ts c'"
  unfolding reads_end_def
proof (intro allI impI)
  fix s :: "'a pstate" assume s: "in_front s ts" "unscanned (ps_ctx s) = c"
  from reads_peek_result [OF s(1), of cl] obtain s1 where s1: "y_peek cl s = YOk (tok_head ts) s1" "in_front s1 ts"
    "unscanned (ps_ctx s1) = c" using s(2) by auto
  with assms show "\<exists>s'. y_bind (y_peek cl) f s = YOk () s' \<and> ps_ctx s' = c'"
    by (auto simp: reads_end_def y_bind_def)
qed

lemma unscanned_iff: "unscanned c = c \<longleftrightarrow> sieve_scan c = (S_INITIAL, None)"
  by (cases c) (auto simp: unscanned_def)

lemma reads_start:
  assumes "cs \<noteq> []" and "addr_scan c = (INITIAL, 0)" and req: "required_all rs c = Some c'" and "sieve_scan c = (S_INITIAL, None)"
    and ok: "\<forall>x \<in> set cs. ok_command cl (require c') x" and n: "room (tokens_script rs cs) 3 n"
  shows "reads_end c (y_start cl g n) (tokens_script rs cs) (c'\<lparr>sieve_ret := map tree_command cs\<rparr>)"
proof -
  let ?finish = "\<lambda>cmds. y_then (y_set_ret cmds) (y_bind (y_peek cl) (\<lambda>l. if l = None then y_ret () else y_syntax_error cl g))"
  have unscanned: "unscanned c' = c'" using required_all_keeps [OF req] assms(4) by (simp add: unscanned_iff)
  have commands: "reads ends_list c' (y_commands cl g n) (tokens_commands cs) (map tree_command cs) c'"
    unfolding tokens_commands_def
    by (rule reads_commands [OF reads_command(1)])
      (use assms required_all_keeps [OF req] in \<open>auto simp: tokens_script_def tokens_commands_def\<close>)
  have set_ret: "reads_any c' (y_set_ret xs) [] () (c'\<lparr>sieve_ret := xs\<rparr>)" for xs
    unfolding y_set_ret_def by (rule reads_y_do) (auto simp: unscanned_def)
  have fin: "reads_end c' (?finish xs) ([] @ []) (c'\<lparr>sieve_ret := xs\<rparr>)" for xs
    unfolding y_then_def by (rule reads_end_bind [OF set_ret]) (use unscanned in \<open>auto intro!: reads_end_peek simp: unscanned_iff\<close>)
  have "reads_end c' (y_bind (y_commands cl g n) ?finish) (tokens_commands cs @ []) (c'\<lparr>sieve_ret := map tree_command cs\<rparr>)"
    by (rule reads_end_bind [where f = ?finish, OF commands]) (use fin in \<open>auto simp: ends_list_def head_of_def\<close>)
  then have "reads_end c (y_then (y_reqs cl g n) (y_bind (y_commands cl g n) ?finish)) (tokens_script rs cs)
      (c'\<lparr>sieve_ret := map tree_command cs\<rparr>)"
    unfolding y_then_def tokens_script_def
    by (intro reads_end_bind [OF reads_reqs [OF req]])
      (use n command_no_require [OF assms(1)] in \<open>auto simp: tokens_script_def\<close>)
  then show ?thesis
    unfolding y_start_def using tokens_script_ne [OF assms(1), of rs]
    by (intro reads_end_catch reads_end_start) auto
qed

section \<open>Text\<close>

text \<open>A token as an author may spell it. A string is spelled as it is: its quotes stand behind a backslash.\<close>

definition spelling :: "string \<Rightarrow> string" where
  "spelling t = (case find (\<lambda>k. snd k = t) sieve_keywords of None \<Rightarrow> [] | Some k \<Rightarrow> fst k)"

fun print_token :: "stoken \<Rightarrow> string" where
  "print_token (SNum n) = dec_string (nat n)"
| "print_token (SStr s) = CHR 0x22 # s @ [CHR 0x22]"
| "print_token (Tk t) = spelling t"
| "print_token (SCh c) = [c]"

definition print_tokens :: "stoken list \<Rightarrow> string" where
  "print_tokens ts = concat (map (\<lambda>t. print_token t @ '' '') ts)"

fun printable_token :: "stoken \<Rightarrow> bool" where
  "printable_token (SNum n) \<longleftrightarrow> 0 \<le> n \<and> n < 2 ^ 31"
| "printable_token (SStr s) \<longleftrightarrow> qtext False (s @ [CHR 0x22]) = s"
| "printable_token (Tk t) \<longleftrightarrow> t \<in> snd ` set sieve_keywords"
| "printable_token (SCh c) \<longleftrightarrow> c \<in> set '';,[](){}''"

lemma longest_keyword_sound:
  "longest_keyword ks s = Some (w, t) \<Longrightarrow> (w, t) \<in> set ks \<and> take (length w) s = w"
  by (induction ks s rule: longest_keyword.induct) (auto simp: Let_def split: if_splits option.splits)

lemma longest_keyword_max:
  "(w, t) \<in> set ks \<Longrightarrow> take (length w) s = w \<Longrightarrow> \<exists>v u. longest_keyword ks s = Some (v, u) \<and> length w \<le> length v"
proof (induction ks s rule: longest_keyword.induct)
  case (2 w' t' ks s)
  then show ?case by (fastforce simp: Let_def split: option.splits)
qed simp

lemma keywords_distinct: "distinct (map fst sieve_keywords)" "distinct (map snd sieve_keywords)"
  by (simp_all add: sieve_keywords_def)

lemma keyword_chars: "\<forall>k \<in> set sieve_keywords. fst k \<noteq> [] \<and> (\<forall>c \<in> set (fst k). c \<in> set '':_abcdefghijklmnopqrstuvwxyz'')"
  by (simp add: sieve_keywords_def)

lemma longest_keyword_space:
  assumes "(w, t) \<in> set sieve_keywords"
  shows "longest_keyword sieve_keywords (w @ CHR '' '' # s) = Some (w, t)"
proof -
  let ?s = "w @ CHR '' '' # s"
  obtain v u where v: "longest_keyword sieve_keywords ?s = Some (v, u)" "length w \<le> length v"
    using longest_keyword_max [OF assms, of ?s] by auto
  have vu: "(v, u) \<in> set sieve_keywords" "take (length v) ?s = v" using longest_keyword_sound [OF v(1)] by auto
  have "length v = length w"
  proof (rule ccontr)
    assume "length v \<noteq> length w"
    then obtain k where "length v = length w + Suc k" using v(2) by (metis le_neq_implies_less less_iff_Suc_add add_Suc_right)
    then have "v = w @ CHR '' '' # take k s" using vu(2) by simp
    then have "CHR '' '' \<in> set v" by simp
    with vu(1) keyword_chars show False by fastforce
  qed
  then have "v = w" using vu(2) by simp
  then have "u = t" using vu(1) assms keywords_distinct(1) eq_key_imp_eq_value by fastforce
  then show ?thesis using v(1) \<open>v = w\<close> by simp
qed

lemma longest_keyword_none:
  assumes "c \<notin> set '':_abcdefghijklmnopqrstuvwxyz''"
  shows "longest_keyword sieve_keywords (c # s) = None"
proof (cases "longest_keyword sieve_keywords (c # s)")
  case (Some k)
  obtain w t where k: "k = (w, t)" by fastforce
  from longest_keyword_sound [OF Some [unfolded k]] have w: "(w, t) \<in> set sieve_keywords" "take (length w) (c # s) = w" by auto
  from w(1) keyword_chars have "w \<noteq> []" "\<forall>c \<in> set w. c \<in> set '':_abcdefghijklmnopqrstuvwxyz''" by fastforce+
  moreover have "c \<in> set w" using w(2) \<open>w \<noteq> []\<close> by (metis list.set_intros(1) take_Cons' length_0_conv)
  ultimately show ?thesis using assms by blast
qed simp

lemma find_member: "find P xs = Some k \<Longrightarrow> k \<in> set xs \<and> P k"
  by (induction xs) (auto split: if_splits)

lemma spelling_keyword: "t \<in> snd ` set sieve_keywords \<Longrightarrow> (spelling t, t) \<in> set sieve_keywords"
proof -
  assume t: "t \<in> snd ` set sieve_keywords"
  then obtain k where k: "find (\<lambda>k. snd k = t) sieve_keywords = Some k"
    by (cases "find (\<lambda>k. snd k = t) sieve_keywords") (auto simp: find_None_iff)
  from find_member [OF this] show ?thesis by (cases k) (simp add: spelling_def k)
qed

lemma no_text_block:
  assumes "take 5 (c # s) \<noteq> ''text:''"
  shows "text_block_length (c # s) = 0"
  unfolding text_block_length_def by (simp only: assms if_False)

lemma keyword_no_text: "(w, t) \<in> set sieve_keywords \<Longrightarrow> take 5 (w @ CHR '' '' # s) \<noteq> ''text:''"
  by (auto simp: sieve_keywords_def)

lemma qtext_stop: "qtext b (s @ [CHR 0x22]) = s \<Longrightarrow> qtext b (s @ CHR 0x22 # r) = s"
  by (induction s arbitrary: b) (auto split: if_splits)

lemma lex_space:
  "sieve_lex S_INITIAL extra bol line (CHR '' '' # s) = sieve_lex S_INITIAL extra False line s"
  by (subst sieve_lex.simps)
    (simp add: no_text_block longest_keyword_none h_white_def newlines_def c_isdigit_def)

lemma strtonum_dec: "n < 2 ^ 31 \<Longrightarrow> libsieve_strtonum (dec_string n) = Some (int n)"
proof -
  assume n: "n < 2 ^ 31"
  then have "int n < 2 ^ 31" by (metis of_nat_less_iff of_nat_numeral of_nat_power)
  then have "strtol10 (dec_string n) = (int n, [])"
    using strtol10_digits [OF dec_string_not_Nil dec_string_digits] by (simp add: dec_string_val)
  then show ?thesis using \<open>int n < 2 ^ 31\<close> by (simp add: libsieve_strtonum_def unit_bits_def to_int32_id)
qed

lemma lex_string:
  assumes "qtext False (v @ [CHR 0x22]) = v"
  shows "\<exists>sc line' bol'. sieve_lex S_INITIAL extra bol line (CHR 0x22 # v @ CHR 0x22 # CHR '' '' # s)
    = STok (SStr v) sc line' # sieve_lex S_INITIAL extra bol' line' (CHR '' '' # s)
      \<or> sieve_lex S_INITIAL extra bol line (CHR 0x22 # v @ CHR 0x22 # CHR '' '' # s)
    = STok (SStr v) sc line' # sieve_lex S_QSTRING extra bol' line' (CHR 0x22 # CHR '' '' # s)"
proof (cases v)
  case Nil
  then show ?thesis by (auto simp: sieve_lex.simps(2) no_text_block)
next
  case (Cons c u)
  have q: "qtext False (c # u @ CHR 0x22 # CHR '' '' # s) = c # u"
    using qtext_stop [OF assms, of "CHR '' '' # s"] Cons by simp
  then have "c \<noteq> CHR 0x22" by (auto split: if_splits)
  then show ?thesis using Cons q
    by (auto simp: sieve_lex.simps(2,4) no_text_block Let_def)
qed

lemma lex_quote: "sieve_lex S_QSTRING extra bol line (CHR 0x22 # s) = sieve_lex S_INITIAL extra False line s"
  by (simp add: sieve_lex.simps(4))

lemma lex_number:
  assumes "n < 2 ^ 31"
  shows "sieve_lex S_INITIAL extra bol line (dec_string n @ CHR '' '' # s)
    = STok (SNum (int n)) (S_INITIAL, extra) line # sieve_lex S_INITIAL extra False line (CHR '' '' # s)"
proof -
  obtain c u where c: "dec_string n = c # u" by (cases "dec_string n") auto
  have d: "c_isdigit c" "\<forall>d \<in> set u. c_isdigit d" using dec_string_digits [of n] by (auto simp: c)
  have sp: "\<not> c_isdigit CHR '' ''" by (simp add: c_isdigit_def)
  have run: "takeWhile c_isdigit (u @ CHR '' '' # s) = u" "dropWhile c_isdigit (u @ CHR '' '' # s) = CHR '' '' # s"
    using d(2) sp by (simp_all add: takeWhile_append dropWhile_append)
  have ne: "c \<noteq> CHR 0x22" "c \<noteq> CHR ''t''" using d(1) by (auto simp: c_isdigit_def)
  have v: "libsieve_strtonum (c # u) = Some (int n)" using strtonum_dec [OF assms] c by simp
  show ?thesis
    unfolding c append_Cons by (subst sieve_lex.simps(2)) (simp add: no_text_block ne d(1) run v Let_def)
qed

lemma lex_keyword:
  assumes "(w, t) \<in> set sieve_keywords"
  shows "sieve_lex S_INITIAL extra bol line (w @ CHR '' '' # s)
    = STok (Tk t) (S_INITIAL, extra) line # sieve_lex S_INITIAL extra False line (CHR '' '' # s)"
proof -
  obtain c u where w: "w = c # u" using assms keyword_chars by (cases w) fastforce+
  have c: "c \<in> set '':_abcdefghijklmnopqrstuvwxyz''" using assms keyword_chars by (fastforce simp: w)
  then have ne: "c \<noteq> CHR 0x22" "\<not> c_isdigit c" by (auto simp: c_isdigit_def)
  show ?thesis
    using longest_keyword_space [OF assms, of s] keyword_no_text [OF assms, of s] ne
    unfolding w append_Cons by (subst sieve_lex.simps(2)) (simp add: no_text_block Let_def)
qed

lemma lex_char:
  assumes "c \<in> set '';,[](){}''"
  shows "sieve_lex S_INITIAL extra bol line (c # s)
    = STok (SCh c) (S_INITIAL, extra) line # sieve_lex S_INITIAL extra False line s"
proof -
  have "longest_keyword sieve_keywords (c # s) = None" by (rule longest_keyword_none) (use assms in auto)
  moreover have "take 5 (c # s) \<noteq> ''text:''" "c \<noteq> CHR 0x22" "\<not> c_isdigit c" "\<not> h_white c" "\<not> h_crlf c"
    "c \<noteq> CHR ''#''" "c \<noteq> CHR ''/''"
    using assms by (auto simp: c_isdigit_def h_white_def h_crlf_def)
  ultimately show ?thesis by (subst sieve_lex.simps(2)) (simp add: no_text_block Let_def)
qed

text \<open>The scanner reads a printed list of tokens back.\<close>

lemma lex_tokens:
  "\<forall>t \<in> set ts. printable_token t \<Longrightarrow> carries (sieve_lex S_INITIAL None bol line (print_tokens ts)) ts"
proof (induction ts arbitrary: bol line)
  case (Cons t ts)
  have IH: "carries (sieve_lex S_INITIAL None bol line (CHR '' '' # print_tokens ts)) ts" for bol line
    using Cons by (simp add: lex_space)
  have split: "print_tokens (t # ts) = print_token t @ CHR '' '' # print_tokens ts"
    by (simp add: print_tokens_def)
  show ?case
  proof (cases t)
    case (SNum n)
    then have "nat n < 2 ^ 31" "0 \<le> n" using Cons.prems by (auto simp: nat_less_iff)
    then show ?thesis
      unfolding split using lex_number [of "nat n" None bol line "print_tokens ts"] by (simp add: SNum IH)
  next
    case (SStr v)
    then have v: "qtext False (v @ [CHR 0x22]) = v" using Cons.prems by simp
    show ?thesis
      unfolding split unfolding SStr using lex_string [OF v, of None bol line "print_tokens ts"]
      by (auto simp: lex_quote IH)
  next
    case (Tk w)
    then have "(spelling w, w) \<in> set sieve_keywords" using Cons.prems by (auto intro: spelling_keyword)
    then show ?thesis unfolding split by (simp add: Tk lex_keyword IH)
  next
    case (SCh c)
    then have "c \<in> set '';,[](){}''" using Cons.prems by simp
    then show ?thesis unfolding split by (auto simp: SCh lex_char IH)
  qed
qed (simp add: print_tokens_def)

section \<open>The round trip\<close>

definition print_script :: "string list list \<Rightarrow> s_command list \<Rightarrow> string" where
  "print_script rs cs = print_tokens (tokens_script rs cs)"

text \<open>Front to end: the scanner's tokens, the requirements, the commands, the end of the input.\<close>

lemma printed_script_read:
  fixes c :: "'w sieve2_context"
  assumes "cs \<noteq> []" and "\<forall>t \<in> set (tokens_script rs cs). printable_token t"
    and "required_all rs c = Some c'" and "\<forall>x \<in> set cs. ok_command cl (require c') x"
    and "script_text (script c) = Some (print_script rs cs)"
    and "sieve_scan c = (S_INITIAL, None)" and "addr_scan c = (INITIAL, 0)"
  shows "libsieve_sieve_parse_buffer cl g c = Some (map tree_command cs, c'\<lparr>sieve_ret := []\<rparr>)"
proof -
  let ?s = "parser_start g (print_script rs cs) c" and ?ts = "tokens_script rs cs"
  have front: "in_front ?s ?ts"
    using lex_tokens [OF assms(2)] assms(6) by (simp add: in_front_def parser_start_def print_script_def)
  have length: "carries es us \<Longrightarrow> length us < length es" for es us
    by (induction es us rule: carries.induct) auto
  have "room ?ts 3 (sieve_fuel (ps_events ?s))"
    using length [of "ps_events ?s" ?ts] front by (simp add: in_front_def sieve_fuel_def)
  from reads_start [OF assms(1,7,3,6,4) this, of g] front assms(6)
  obtain s' where "y_start cl g (sieve_fuel (ps_events ?s)) ?s = YOk () s'"
    "ps_ctx s' = c'\<lparr>sieve_ret := map tree_command cs\<rparr>"
    by (auto simp: reads_end_def unscanned_iff parser_start_def)
  then show ?thesis
    by (simp add: libsieve_sieve_parse_buffer_def assms(5) libsieve_sieveparse_def Let_def)
qed

text \<open>
  C2. Scripts round trip: a script of supported requirements and of commands that pass the checks of the
  grammar, written out with its tokens spelled, is read back by \<^verbatim>\<open>libsieve_sieve_parse_buffer\<close> as the tree
  its author meant, with the requirements recorded and the rest of the context, the scanner's state
  included, as it was.
\<close>
theorem script_roundtrip:
  fixes c :: "'w sieve2_context"
  assumes "cs \<noteq> []" and "\<forall>t \<in> set (tokens_script rs cs). printable_token t"
    and "required_all rs c = Some c'" and "\<forall>x \<in> set cs. ok_command cl (require c') x"
    and "script_text (script c) = Some (print_script rs cs)"
    and "sieve_scan c = (S_INITIAL, None)" and "addr_scan c = (INITIAL, 0)"
  shows "libsieve_sieve_parse_buffer cl g c = Some (map tree_command cs, c'\<lparr>sieve_ret := []\<rparr>)"
  by (rule printed_script_read [OF assms])

lemma script_roundtrip_witness:
  "\<exists>c'. libsieve_sieve_parse_buffer silent_client \<lparr>syntax_text = (\<lambda>_. ''syntax error''), first_line = 1\<rparr>
      (let c = zero_context no_message ()
       in c\<lparr>support := no_support\<lparr>s_fileinto := True\<rparr>,
            script := (script c)\<lparr>script_text := Some (print_script [[''fileinto'']]
              [CIf (THeader None (Some MContains) [''subject''] [''x'', ''y''])
                 [CAct (CFileinto ''in'' [])] (Else [CAct CStop]), CAct (CKeep [])])\<rparr>\<rparr>) =
     Some ([Cond (Some (Header tok_CONTAINS Casemap_contains [''subject''] [PatStr ''x'', PatStr ''y'']))
            [Fileinto ''in'' []] [Stop], Keep []], c')"
proof -
  let ?cs = "[CIf (THeader None (Some MContains) [''subject''] [''x'', ''y''])
                 [CAct (CFileinto ''in'' [])] (Else [CAct CStop]), CAct (CKeep [])]"
  let ?c = "let c = zero_context no_message ()
       in c\<lparr>support := no_support\<lparr>s_fileinto := True\<rparr>, script := (script c)\<lparr>script_text := Some (print_script [[''fileinto'']] ?cs)\<rparr>\<rparr>"
  have printable: "\<forall>t \<in> set (tokens_script [[''fileinto'']] ?cs). printable_token t"
    by code_simp
  have lookup: "comparator_of None (Some MContains) = Some Casemap_contains"
    by (simp add: comparator_of_def canon_comparator_def comptag_of_def libsieve_comparator_lookup_def codes)
  obtain c' where req: "required_all [[''fileinto'']] ?c = Some c'" "s_fileinto (require c')"
    by (simp add: static_check_reqs_def Let_def)
  have ok: "\<forall>x \<in> set ?cs. ok_command silent_client (require c') x"
    using req(2) by (simp add: ok_headers_def header_char_def ok_patterns_def lookup)
  have "map tree_command ?cs = [Cond (Some (Header tok_CONTAINS Casemap_contains [''subject''] [PatStr ''x'', PatStr ''y'']))
            [Fileinto ''in'' []] [Stop], Keep []]"
    by (simp add: lookup comptag_of_def patterns_of_def)
  with script_roundtrip [OF _ printable req(1) ok] show ?thesis by (simp add: zero_context_def Let_def)
qed

end
