(* ===== verification/Sieve_Trees.thy ===== *)
theory Sieve_Trees
  imports Sieve_Parser Interface_Props
begin

text \<open>
  What the parser of scripts gives and keeps: the trees are well typed, only supported extensions are
  used, and the script, the callbacks, the flags and the message of the context stay as they are.
\<close>

section \<open>Well-typed trees\<close>

text \<open>
  A comparator takes its pattern as a string or as a compiled expression; the two that answer an unknown
  relation do not look at it.
\<close>

fun fits :: "comparator \<Rightarrow> pattern \<Rightarrow> bool" where
  "fits Casemap_unknown p = True"
| "fits Numeric_unknown p = True"
| "fits Octet_regex p = (case p of PatRe _ \<Rightarrow> True | PatStr _ \<Rightarrow> False)"
| "fits _ p = (case p of PatStr _ \<Rightarrow> True | PatRe _ \<Rightarrow> False)"

lemma fits_runs:
  "fits cmp p \<Longrightarrow> cmp \<notin> {Octet_matches, Casemap_matches} \<Longrightarrow> \<exists>b. run_comparator rx cmp p t = Some b"
  by (cases cmp; cases p) auto

text \<open>
  What the evaluation relies on: comparators fit their patterns, no list is empty, and what needs an
  extension \<open>U\<close> is there only with it. A test may be missing where the grammar recovered from an error.
\<close>

fun typed_test :: "support2 \<Rightarrow> test \<Rightarrow> bool" and typed_tests :: "support2 \<Rightarrow> test option \<Rightarrow> bool" where
  "typed_test U (Anyof ts) = (ts \<noteq> [] \<and> (\<forall>t \<in> set ts. typed_tests U t))"
| "typed_test U (Allof ts) = (ts \<noteq> [] \<and> (\<forall>t \<in> set ts. typed_tests U t))"
| "typed_test U (Exists sl) = (sl \<noteq> [])"
| "typed_test U (Header mode cmp sl pl) = (sl \<noteq> [] \<and> pl \<noteq> [] \<and> (\<forall>p \<in> set pl. fits cmp p))"
| "typed_test U (Address mode cmp sl pl part) = (sl \<noteq> [] \<and> pl \<noteq> [] \<and> (\<forall>p \<in> set pl. fits cmp p) \<and>
     (part \<in> {tok_USER, tok_DETAIL} \<longrightarrow> s_subaddress U))"
| "typed_test U (Envelope mode cmp sl pl part) = (sl \<noteq> [] \<and> pl \<noteq> [] \<and> (\<forall>p \<in> set pl. fits cmp p) \<and>
     (part \<in> {tok_USER, tok_DETAIL} \<longrightarrow> s_subaddress U))"
| "typed_test U (Hasflag m sl) = (sl \<noteq> [])"
| "typed_test U (Tnot t) = typed_tests U t"
| "typed_test U (Tsize k n) = (k \<in> {tok_OVER, tok_UNDER})"
| "typed_test U _ = True"
| "typed_tests U None = True"
| "typed_tests U (Some t) = typed_test U t"

fun typed_command :: "support2 \<Rightarrow> command \<Rightarrow> bool" where
  "typed_command U (Cond t a b) =
     (typed_tests U t \<and> (\<forall>c \<in> set a. typed_command U c) \<and> (\<forall>c \<in> set b. typed_command U c))"
| "typed_command U (Rejct s) = s_reject U"
| "typed_command U (Fileinto s sl) = s_fileinto U"
| "typed_command U (Vacation v) = s_vacation U"
| "typed_command U (Notify n) = s_notify U"
| "typed_command U Validnotif = s_notify U"
| "typed_command U (Setflag sl) = (sl \<noteq> [])"
| "typed_command U (Addflag sl) = (sl \<noteq> [])"
| "typed_command U (Removeflag sl) = (sl \<noteq> [])"
| "typed_command U _ = True"

lemma lookup_fits:
  assumes "libsieve_comparator_lookup coll mode = Some cmp"
  shows "mode = tok_REGEX \<Longrightarrow> fits cmp (PatRe r)" and "mode \<noteq> tok_REGEX \<Longrightarrow> fits cmp (PatStr s)"
  using assms by (auto simp: libsieve_comparator_lookup_def codes num_of_code_def split: if_splits option.splits)


section \<open>What the parser keeps and gives\<close>

text \<open>Supported and required are extensions of \<open>U\<close> only, and the commands handed over are well typed.\<close>

definition within :: "support2 \<Rightarrow> support2 \<Rightarrow> bool" where
  "within U r \<longleftrightarrow> (s_reject r \<longrightarrow> s_reject U) \<and> (s_notify r \<longrightarrow> s_notify U) \<and> (s_fileinto r \<longrightarrow> s_fileinto U) \<and>
     (s_vacation r \<longrightarrow> s_vacation U) \<and> (s_subaddress r \<longrightarrow> s_subaddress U)"

definition grounded :: "support2 \<Rightarrow> 'w sieve2_context \<Rightarrow> bool" where
  "grounded U c \<longleftrightarrow> within U (support c) \<and> within U (require c) \<and> (\<forall>x \<in> set (sieve_ret c). typed_command U x)"

definition kept :: "'w sieve2_context \<Rightarrow> 'w sieve2_context \<Rightarrow> bool" where
  "kept c c' \<longleftrightarrow> script c' = script c \<and> support c' = support c \<and> callbacks c' = callbacks c \<and> slflags c' = slflags c \<and> actions c' = actions c \<and>
     message c' = message c \<and> parse_errors c \<le> parse_errors c'"

lemma kept_refl [simp]: "kept c c" by (simp add: kept_def)

lemma kept_trans: "kept a b \<Longrightarrow> kept b c \<Longrightarrow> kept a c" by (auto simp: kept_def)

text \<open>
  \<open>gives U Q p\<close>: from a grounded context \<open>p\<close> gives a result with \<open>Q\<close>; whatever its outcome, the context
  stays grounded, and the parser has kept it.
\<close>

definition gives :: "support2 \<Rightarrow> ('a \<Rightarrow> bool) \<Rightarrow> ('a, 'w) parser \<Rightarrow> bool" where
  "gives U Q p \<longleftrightarrow>
     (\<forall>s. grounded U (ps_ctx s) \<longrightarrow>
        (case p s of
           YOk x s' \<Rightarrow> Q x \<and> grounded U (ps_ctx s') \<and> kept (ps_ctx s) (ps_ctx s')
         | YError s' \<Rightarrow> grounded U (ps_ctx s') \<and> kept (ps_ctx s) (ps_ctx s')
         | YAbort s' \<Rightarrow> grounded U (ps_ctx s') \<and> kept (ps_ctx s) (ps_ctx s')
         | _ \<Rightarrow> True))"

abbreviation safe :: "support2 \<Rightarrow> ('a, 'w) parser \<Rightarrow> bool" where
  "safe U \<equiv> gives U (\<lambda>_. True)"

named_theorems gives \<open>what the parsers give\<close>

lemma givesI:
  assumes "\<And>s. grounded U (ps_ctx s) \<Longrightarrow>
    (case p s of
       YOk x s' \<Rightarrow> Q x \<and> grounded U (ps_ctx s') \<and> kept (ps_ctx s) (ps_ctx s')
     | YError s' \<Rightarrow> grounded U (ps_ctx s') \<and> kept (ps_ctx s) (ps_ctx s')
     | YAbort s' \<Rightarrow> grounded U (ps_ctx s') \<and> kept (ps_ctx s) (ps_ctx s')
     | _ \<Rightarrow> True)"
  shows "gives U Q p"
  using assms by (simp add: gives_def)

lemma givesD:
  assumes "gives U Q p" and "grounded U (ps_ctx s)"
  shows "p s = YOk x s' \<Longrightarrow> Q x \<and> grounded U (ps_ctx s') \<and> kept (ps_ctx s) (ps_ctx s')"
    and "p s = YError s' \<Longrightarrow> grounded U (ps_ctx s') \<and> kept (ps_ctx s) (ps_ctx s')"
    and "p s = YAbort s' \<Longrightarrow> grounded U (ps_ctx s') \<and> kept (ps_ctx s) (ps_ctx s')"
  using assms by (auto simp: gives_def dest!: spec [of _ s])

lemma gives_weaken: "gives U Q p \<Longrightarrow> (\<And>x. Q x \<Longrightarrow> Q' x) \<Longrightarrow> gives U Q' p"
  by (rule givesI) (auto dest: givesD split: outcome.split)

lemma gives_safe: "gives U Q p \<Longrightarrow> safe U p"
  by (erule gives_weaken) simp

lemma gives_ret [gives]: "Q x \<Longrightarrow> gives U Q (y_ret x)"
  by (simp add: gives_def y_ret_def)

lemma gives_error [gives]: "gives U Q yyerror"
  by (simp add: gives_def yyerror_def)

lemma gives_abort [gives]: "gives U Q y_abort"
  by (simp add: gives_def y_abort_def)

lemma gives_fuel [gives]: "gives U Q y_fuel"
  by (simp add: gives_def y_fuel_def)

lemma gives_bind:
  assumes "gives U Q p" and "\<And>x. Q x \<Longrightarrow> gives U Q' (f x)"
  shows "gives U Q' (y_bind p f)"
proof (rule givesI)
  fix s :: "'b pstate" assume s: "grounded U (ps_ctx s)"
  note p = givesD [OF assms(1) s]
  show "case y_bind p f s of
       YOk x s' \<Rightarrow> Q' x \<and> grounded U (ps_ctx s') \<and> kept (ps_ctx s) (ps_ctx s')
     | YError s' \<Rightarrow> grounded U (ps_ctx s') \<and> kept (ps_ctx s) (ps_ctx s')
     | YAbort s' \<Rightarrow> grounded U (ps_ctx s') \<and> kept (ps_ctx s) (ps_ctx s')
     | _ \<Rightarrow> True"
  proof (cases "p s")
    case (YOk x s1)
    note x = p(1) [OF YOk]
    have f: "gives U Q' (f x)" using x by (intro assms(2)) simp
    from x have g: "grounded U (ps_ctx s1)" "kept (ps_ctx s) (ps_ctx s1)" by auto
    have run: "y_bind p f s = f x s1" by (simp add: y_bind_def YOk)
    note D = givesD [OF f g(1)]
    show ?thesis unfolding run using D by (simp split: outcome.split) (blast intro: kept_trans [OF g(2)])
  qed (use p in \<open>auto simp: y_bind_def\<close>)
qed

lemma safe_bind: "safe U p \<Longrightarrow> (\<And>x. gives U Q (f x)) \<Longrightarrow> gives U Q (y_bind p f)"
  by (rule gives_bind)

lemma safe_then: "safe U p \<Longrightarrow> gives U Q q \<Longrightarrow> gives U Q (y_then p q)"
  unfolding y_then_def by (rule safe_bind)

lemma gives_catch:
  assumes "gives U Q p" and "gives U Q h"
  shows "gives U Q (y_catch p h)"
proof (rule givesI)
  fix s :: "'b pstate" assume s: "grounded U (ps_ctx s)"
  note p = givesD [OF assms(1) s]
  show "case y_catch p h s of
       YOk x s' \<Rightarrow> Q x \<and> grounded U (ps_ctx s') \<and> kept (ps_ctx s) (ps_ctx s')
     | YError s' \<Rightarrow> grounded U (ps_ctx s') \<and> kept (ps_ctx s) (ps_ctx s')
     | YAbort s' \<Rightarrow> grounded U (ps_ctx s') \<and> kept (ps_ctx s) (ps_ctx s')
     | _ \<Rightarrow> True"
  proof (cases "p s")
    case (YError s1)
    from p(2) [OF YError] have g: "grounded U (ps_ctx (s1\<lparr>ps_status := 3\<rparr>))" "kept (ps_ctx s) (ps_ctx s1)" by auto
    have run: "y_catch p h s = h (s1\<lparr>ps_status := 3\<rparr>)" by (simp add: y_catch_def YError)
    note D = givesD [OF assms(2) g(1)]
    show ?thesis unfolding run using D by (simp split: outcome.split) (blast intro: kept_trans [OF g(2)])
  qed (use p in \<open>auto simp: y_catch_def\<close>)
qed

lemma gives_if [gives]: "(b \<Longrightarrow> gives U Q p) \<Longrightarrow> (\<not> b \<Longrightarrow> gives U Q q) \<Longrightarrow> gives U Q (if b then p else q)"
  by simp

lemma gives_context_bind [gives]:
  assumes "\<And>c. grounded U c \<Longrightarrow> gives U Q (f c)"
  shows "gives U Q (y_bind y_context f)"
  using assms by (auto simp: gives_def y_bind_def y_context_def)

lemma gives_do:
  assumes "\<And>c x c'. grounded U c \<Longrightarrow> f c = Some (x, c') \<Longrightarrow> Q x \<and> grounded U c' \<and> kept c c'"
  shows "gives U Q (y_do f)"
  using assms by (auto simp: gives_def y_do_def split: option.split)

lemma safe_some [gives]: "safe U (y_some x)"
  by (auto simp: gives_def y_some_def split: option.split)

text \<open>Messages and tokens.\<close>

lemma frame_grounded: "frame c c' \<Longrightarrow> sieve_ret c' = sieve_ret c \<Longrightarrow> grounded U c \<Longrightarrow> grounded U c' \<and> kept c c'"
  by (auto simp: grounded_def kept_def dest: frame_fields)

lemma frame_sieve_ret: "frame c c' \<Longrightarrow> sieve_ret c' = sieve_ret c"
  by (cases c'; cases c) (auto simp: frame_def)

lemma error_parse_frame: "libsieve_do_error_parse cl c l msg = Some (r, c') \<Longrightarrow> frame c c'"
  by (auto simp: libsieve_do_error_parse_def Let_def bind_eq_Some_conv intro!: begin_frame frame_into(1,2)
      elim!: frame_into(5) [rotated])

lemma error_address_frame: "libsieve_do_error_address cl c msg = Some (r, c') \<Longrightarrow> frame c c'"
  by (auto simp: libsieve_do_error_address_def Let_def bind_eq_Some_conv intro!: begin_frame frame_into(1,2)
      elim!: frame_into(5) [rotated])

lemma sieveerror_kept:
  assumes "libsieve_sieveerror cl n msg c = Some (x, c')" and c: "grounded U c"
  shows "grounded U c' \<and> kept c c'"
proof -
  let ?c = "c\<lparr>parse_errors := parse_errors c + 1\<rparr>"
  obtain r where "libsieve_do_error_parse cl ?c (int n) msg = Some (r, c')"
    using assms(1) by (auto simp: libsieve_sieveerror_def bind_eq_Some_conv)
  note f = error_parse_frame [OF this]
  have "grounded U ?c" using c by (simp add: grounded_def)
  from frame_grounded [OF f frame_sieve_ret [OF f] this] have "grounded U c'" "kept ?c c'" by auto
  moreover have "kept c ?c" by (simp add: kept_def)
  ultimately show ?thesis using kept_trans by blast
qed

lemma safe_message [gives]: "safe U (y_message cl msg)"
  by (rule givesI) (auto simp: y_message_def y_do_def sieveerror_kept split: option.split)

lemma gives_reject [gives]: "gives U Q (y_reject cl msg)"
  unfolding y_reject_def by (intro safe_then gives)


lemma scan_kept: "grounded U c \<Longrightarrow> grounded U (c\<lparr>sieve_scan := sc\<rparr>) \<and> kept c (c\<lparr>sieve_scan := sc\<rparr>)"
  by (simp add: grounded_def kept_def)

lemma safe_look:
  "safe U p \<Longrightarrow> safe U (\<lambda>s. p (s\<lparr>ps_look := b, ps_line := l, ps_ctx := (ps_ctx s)\<lparr>sieve_scan := sc\<rparr>\<rparr>))"
proof (rule givesI)
  fix s :: "'b pstate" assume p: "safe U p" and s: "grounded U (ps_ctx s)"
  let ?s = "s\<lparr>ps_look := b, ps_line := l, ps_ctx := (ps_ctx s)\<lparr>sieve_scan := sc\<rparr>\<rparr>"
  have g: "grounded U (ps_ctx ?s)" "kept (ps_ctx s) ((ps_ctx s)\<lparr>sieve_scan := sc\<rparr>)" using scan_kept [OF s] by auto
  note D = givesD [OF p g(1)]
  show "case p ?s of
       YOk x s' \<Rightarrow> True \<and> grounded U (ps_ctx s') \<and> kept (ps_ctx s) (ps_ctx s')
     | YError s' \<Rightarrow> grounded U (ps_ctx s') \<and> kept (ps_ctx s) (ps_ctx s')
     | YAbort s' \<Rightarrow> grounded U (ps_ctx s') \<and> kept (ps_ctx s) (ps_ctx s')
     | _ \<Rightarrow> True"
    using D by (simp split: outcome.split) (blast intro: kept_trans [OF g(2)])
qed

lemma safe_by_cases:
  fixes p :: "('b, 'w) parser"
  assumes "\<And>s. \<exists>q. p s = q s \<and> safe U q"
  shows "safe U p"
  unfolding gives_def
proof (intro allI impI)
  fix s :: "'w pstate" assume s: "grounded U (ps_ctx s)"
  obtain q where q: "p s = q s" "safe U q" using assms by blast
  from q(2) s show "case p s of
       YOk x s' \<Rightarrow> True \<and> grounded U (ps_ctx s') \<and> kept (ps_ctx s) (ps_ctx s')
     | YError s' \<Rightarrow> grounded U (ps_ctx s') \<and> kept (ps_ctx s) (ps_ctx s')
     | YAbort s' \<Rightarrow> grounded U (ps_ctx s') \<and> kept (ps_ctx s) (ps_ctx s')
     | _ \<Rightarrow> True"
    unfolding q(1) by (simp add: gives_def)
qed

lemma safe_undef: "safe U (\<lambda>_. YUndef)" by (simp add: gives_def)

lemma safe_same: "safe U (\<lambda>s. YOk x s)" by (simp add: gives_def)

lemma safe_peek [gives]: "safe U (y_peek cl)"
proof (rule safe_by_cases)
  fix s :: "'a pstate"
  have msg: "safe U (y_then (y_message cl ''unexpected end of file in string'') (y_ret (None :: stoken option)))"
    by (intro safe_then gives) simp
  show "\<exists>q. y_peek cl s = q s \<and> safe U q"
  proof (cases "ps_look s \<or> ps_events s = []")
    case True
    have "y_peek cl s = (if ps_look s then YOk (lookahead (ps_events s)) s else YUndef)"
      using True by (auto simp: y_peek_def)
    then show ?thesis
      using safe_same [of U "lookahead (ps_events s)"] safe_undef [of U] by (cases "ps_look s") fastforce+
  next
    case False
    then obtain ev es where ev: "ps_events s = ev # es" "\<not> ps_look s" by (cases "ps_events s") auto
    show ?thesis
    proof (cases ev)
      case (STok t sc line)
      then show ?thesis using ev safe_look [OF safe_same, where x1 = "lookahead (ps_events s)" and b = True and l = line and sc = sc and U = U]
        by (intro exI) (auto simp: y_peek_def)
    next
      case (SEnd sc line unfinished)
      note none = safe_look [OF safe_same, where x1 = None and b = True and l = line and sc = sc and U = U]
      note some = safe_look [OF msg, where b = True and l = line and sc = sc]
      show ?thesis
      proof (cases unfinished)
        case True
        show ?thesis by (rule exI, rule conjI [OF _ some]) (simp add: y_peek_def ev SEnd True Let_def)
      next
        case False
        show ?thesis by (rule exI, rule conjI [OF _ none]) (simp add: y_peek_def ev SEnd False Let_def)
      qed
    next
      case SUndef
      show ?thesis by (rule exI, rule conjI [OF _ safe_undef]) (simp add: y_peek_def ev SUndef)
    qed
  qed
qed

lemma safe_shift [gives]: "safe U y_shift"
  by (simp add: gives_def y_shift_def)

lemma gives_discard: "gives U Q y_discard"
  by (simp add: gives_def y_discard_def)

lemma gives_syntax_error [gives]:
  fixes cl :: "'w client"
  shows "gives U Q (y_syntax_error cl g)"
proof (rule givesI)
  fix s :: "'w pstate" assume s: "grounded U (ps_ctx s)"
  have q: "gives U Q (y_then (y_message cl (syntax_text g (ps_nerrs s))) y_discard)"
    by (intro safe_then gives gives_discard)
  show "case y_syntax_error cl g s of
       YOk x s' \<Rightarrow> Q x \<and> grounded U (ps_ctx s') \<and> kept (ps_ctx s) (ps_ctx s')
     | YError s' \<Rightarrow> grounded U (ps_ctx s') \<and> kept (ps_ctx s) (ps_ctx s')
     | YAbort s' \<Rightarrow> grounded U (ps_ctx s') \<and> kept (ps_ctx s) (ps_ctx s')
     | _ \<Rightarrow> True"
    using givesD [OF q, of "s\<lparr>ps_nerrs := ps_nerrs s + 1\<rparr>"] givesD [OF gives_discard [of U Q] s] s
    by (simp add: y_syntax_error_def split: outcome.split)
qed

text \<open>Sequences: what a bound parser gives is known to the rest.\<close>

lemma gives_then [gives]: "safe U p \<Longrightarrow> gives U Q q \<Longrightarrow> gives U Q (y_then p q)"
  by (rule safe_then)

lemma gives_peek_bind [gives]: "(\<And>l. gives U Q (f l)) \<Longrightarrow> gives U Q (y_bind (y_peek cl) f)"
  by (rule safe_bind [OF safe_peek])

lemma gives_some_bind [gives]: "(\<And>x. gives U Q (f x)) \<Longrightarrow> gives U Q (y_bind (y_some z) f)"
  by (rule safe_bind [OF safe_some])

lemma safe_expect [gives]: "safe U (y_expect cl g t)"
  unfolding y_expect_def by (intro gives)

lemma safe_string [gives]: "safe U (y_string cl g)"
  unfolding y_string_def by (auto intro!: gives split: option.split stoken.split)

lemma safe_number [gives]: "safe U (y_number cl g)"
  unfolding y_number_def by (auto intro!: gives split: option.split stoken.split)

lemma gives_string_bind [gives]: "(\<And>v. gives U Q (f v)) \<Longrightarrow> gives U Q (y_bind (y_string cl g) f)"
  by (rule safe_bind [OF safe_string])

lemma gives_number_bind [gives]: "(\<And>v. gives U Q (f v)) \<Longrightarrow> gives U Q (y_bind (y_number cl g) f)"
  by (rule safe_bind [OF safe_number])

lemma gives_strings: "gives U (\<lambda>sl. sl \<noteq> []) (y_strings cl g n)"
proof (induction n)
  case (Suc n)
  show ?case
    by (auto intro!: gives gives_bind [OF Suc] simp: libsieve_new_sl_def)
qed (simp add: gives)

lemma gives_stringlist: "gives U (\<lambda>sl. sl \<noteq> []) (y_stringlist cl g n)"
  unfolding y_stringlist_def by (auto intro!: gives gives_bind [OF gives_strings] simp: libsieve_new_sl_def)

lemma gives_stringlist_bind [gives]:
  "(\<And>sl. sl \<noteq> [] \<Longrightarrow> gives U Q (f sl)) \<Longrightarrow> gives U Q (y_bind (y_stringlist cl g n) f)"
  by (rule gives_bind [OF gives_stringlist])

lemma gives_needs [gives]: "(ok \<Longrightarrow> gives U Q p) \<Longrightarrow> gives U Q (y_needs cl ok msg p)"
  unfolding y_needs_def by (auto intro: gives)

section \<open>The phrases of the grammar\<close>

lemma report_address_kept:
  "report_address_errors cl ms c = Some c' \<Longrightarrow> grounded U c \<Longrightarrow> grounded U c' \<and> kept c c'"
proof (induction ms arbitrary: c)
  case (Cons m ms)
  let ?c = "c\<lparr>exec_errors := exec_errors c + 1\<rparr>"
  from Cons.prems(1) obtain r c1 where e: "libsieve_do_error_address cl ?c m = Some (r, c1)"
    and c': "report_address_errors cl ms c1 = Some c'"
    by (auto simp: libsieve_addrerror_def bind_eq_Some_conv)
  have "grounded U ?c" "kept c ?c" using Cons.prems(2) by (auto simp: grounded_def kept_def)
  moreover note f = error_address_frame [OF e]
  ultimately have "grounded U c1" "kept c c1" using frame_grounded [OF f frame_sieve_ret [OF f]] kept_trans by blast+
  with Cons.IH [OF c'] show ?case using kept_trans by blast
qed simp

lemma addr_parse_kept:
  assumes "libsieve_addr_parse_buffer cl c s = Some (a, c')" and "grounded U c"
  shows "grounded U c' \<and> kept c c'"
proof -
  obtain scan msgs where "report_address_errors cl msgs (c\<lparr>addr_scan := scan\<rparr>) = Some c'"
    using assms(1) by (auto simp: libsieve_addr_parse_buffer_def bind_eq_Some_conv)
  moreover have "grounded U (c\<lparr>addr_scan := scan\<rparr>)" "kept c (c\<lparr>addr_scan := scan\<rparr>)"
    using assms(2) by (auto simp: grounded_def kept_def)
  ultimately show ?thesis using report_address_kept kept_trans by blast
qed

lemma safe_verify [gives]: "(\<And>s. safe U (verify s)) \<Longrightarrow> safe U (static_verify_stringlist verify sl)"
  by (induction sl) (auto intro!: gives safe_bind)

lemma safe_verify_flag [gives]: "safe U (static_verify_flag s)"
  unfolding static_verify_flag_def by (intro gives) simp

lemma safe_verify_address [gives]: "safe U (static_verify_address cl s)"
  unfolding static_verify_address_def
  by (intro safe_bind gives_do gives) (auto dest: addr_parse_kept)

lemma safe_verify_header [gives]: "safe U (static_verify_header cl s)"
  unfolding static_verify_header_def by (auto intro!: gives)

lemma gives_verify_bind [gives]:
  "(\<And>s. safe U (verify s)) \<Longrightarrow> (\<And>ok. gives U Q (f ok)) \<Longrightarrow> gives U Q (y_bind (static_verify_stringlist verify sl) f)"
  by (rule safe_bind [OF safe_verify])

text \<open>Patterns come out compiled for a \<^verbatim>\<open>:regex\<close>, as strings for every other match.\<close>

abbreviation is_re :: "pattern \<Rightarrow> bool" where
  "is_re p \<equiv> (case p of PatRe _ \<Rightarrow> True | PatStr _ \<Rightarrow> False)"

lemma gives_regexs: "\<forall>p \<in> set pl. is_re p \<Longrightarrow> gives U (\<lambda>pl. \<forall>p \<in> set pl. is_re p) (verify_regexs_loop cl fl sl pl)"
proof (induction sl arbitrary: pl)
  case (Cons s sl)
  have "safe U (static_verify_regex cl s fl)"
    unfolding static_verify_regex_def by (auto intro!: gives split: option.split)
  moreover have "gives U (\<lambda>pl. \<forall>p \<in> set pl. is_re p) (verify_regexs_loop cl fl sl (libsieve_new_pl r pl))" for r
    by (rule Cons.IH) (use Cons.prems in \<open>simp add: libsieve_new_pl_def\<close>)
  ultimately show ?case
    by (auto intro!: gives_ret safe_bind split: option.split)
qed (simp add: gives)

lemma gives_patterns:
  "ps \<noteq> [] \<Longrightarrow> gives U (\<lambda>pl. pl \<noteq> [] \<and> (\<forall>p \<in> set pl. is_re p \<longleftrightarrow> mode = tok_REGEX)) (y_patterns cl mode coll ps)"
  unfolding y_patterns_def static_verify_regexs_def Let_def
  by (auto intro!: gives gives_bind [OF gives_regexs])

lemma lookup_fits_all:
  assumes "libsieve_comparator_lookup coll mode = Some cmp" and "\<forall>p \<in> set pl. is_re p \<longleftrightarrow> mode = tok_REGEX"
  shows "\<forall>p \<in> set pl. fits cmp p"
proof
  fix p assume "p \<in> set pl"
  then have "is_re p \<longleftrightarrow> mode = tok_REGEX" using assms(2) by blast
  then show "fits cmp p" using lookup_fits [OF assms(1)] by (cases p) auto
qed

lemma safe_comptag [gives]: "safe U (y_comptag cl g)"
  unfolding y_comptag_def by (intro gives) simp_all

definition part_ok :: "support2 \<Rightarrow> int \<Rightarrow> bool" where
  "part_ok U t \<longleftrightarrow> (t \<in> {tok_USER, tok_DETAIL} \<longrightarrow> s_subaddress U)"

lemma gives_addrparttag: "gives U (part_ok U) (y_addrparttag cl g)"
  unfolding y_addrparttag_def by (intro gives) (auto simp: grounded_def within_def part_ok_def codes)

lemma gives_comptag_bind [gives]: "(\<And>v. gives U Q (f v)) \<Longrightarrow> gives U Q (y_bind (y_comptag cl g) f)"
  by (rule safe_bind [OF safe_comptag])

lemma safe_hftags [gives]: "safe U (y_hftags cl g n h)"
proof (induction n arbitrary: h)
  case (Suc n)
  show ?case unfolding y_hftags.simps by (intro gives Suc) simp_all
qed (simp add: gives)

lemma safe_htags [gives]: "safe U (y_htags cl g n h)"
proof (induction n arbitrary: h)
  case (Suc n)
  show ?case unfolding y_htags.simps by (intro gives Suc) simp_all
qed (simp add: gives)

lemma gives_aetags:
  "part_ok U (aet_addrtag ae) \<Longrightarrow> gives U (\<lambda>ae. part_ok U (aet_addrtag ae)) (y_aetags cl g n ae)"
proof (induction n arbitrary: ae)
  case (Suc n)
  show ?case
    unfolding y_aetags.simps
    by (intro gives gives_bind [OF gives_addrparttag] Suc.IH) (use Suc.prems in simp_all)
qed (simp add: gives)

lemma safe_string_tag [gives]: "safe U (y_string_tag cl g dup old)"
  unfolding y_string_tag_def by (intro gives) simp

lemma gives_string_tag_bind [gives]: "(\<And>v. gives U Q (f v)) \<Longrightarrow> gives U Q (y_bind (y_string_tag cl g dup old) f)"
  by (rule safe_bind [OF safe_string_tag])

lemma safe_vtags [gives]: "safe U (y_vtags cl g n v)"
proof (induction n arbitrary: v)
  case (Suc n)
  have address: "safe U (static_verify_address cl s)" for s by (rule safe_verify_address)
  show ?case unfolding y_vtags.simps by (intro gives Suc) simp_all
qed (simp add: gives)

lemma gives_option [gives]:
  "(z = None \<Longrightarrow> gives U Q p) \<Longrightarrow> (\<And>x. z = Some x \<Longrightarrow> gives U Q (q x)) \<Longrightarrow>
   gives U Q (case z of None \<Rightarrow> p | Some x \<Rightarrow> q x)"
  by (cases z) auto

lemma safe_ntags [gives]: "safe U (y_ntags cl g n v)"
proof (induction n arbitrary: v)
  case (Suc n)
  show ?case unfolding y_ntags.simps by (intro gives Suc) simp_all
qed (simp add: gives)

section \<open>Tests\<close>

lemma gives_some_test:
  "(\<And>t. z = Some t \<Longrightarrow> Q t) \<Longrightarrow> gives U Q (y_some_test z)"
  unfolding y_some_test_def by (intro gives)

lemma gives_header_test: "gives U (typed_test U) (y_header_test cl g n)"
  unfolding y_header_test_def Let_def
  by (intro safe_bind [OF safe_htags] gives gives_bind [OF gives_patterns] gives_some_test)
    (auto simp: static_build_header_def dest!: lookup_fits_all)

lemma gives_address_test: "gives U (typed_test U) (y_address_test cl g n envelope)"
  unfolding y_address_test_def Let_def
  by (intro gives_bind [OF gives_aetags] gives gives_bind [OF gives_patterns] gives_some_test)
    (auto simp: static_build_address_def static_new_aetags_def static_canon_aetags_def part_ok_def codes
      dest!: lookup_fits_all)

lemma gives_hasflag_test: "gives U (typed_test U) (y_hasflag_test cl g n)"
  unfolding y_hasflag_test_def by (intro safe_bind [OF safe_hftags] gives) simp_all

lemma gives_size_test: "gives U (typed_test U) (y_size_test cl g)"
  unfolding y_size_test_def by (intro gives) simp_all

text \<open>The optional test of a place where a test stands, and the lists of tests.\<close>

lemma gives_tests:
  "gives U (typed_test U) (y_test cl g n)"
  "gives U (typed_tests U) (y_test_at cl g n)"
  "gives U (\<lambda>ts. ts \<noteq> [] \<and> (\<forall>t \<in> set ts. typed_tests U t)) (y_testlist cl g n)"
  "typed_tests U t \<Longrightarrow> gives U (\<lambda>ts. ts \<noteq> [] \<and> (\<forall>t \<in> set ts. typed_tests U t)) (y_paren cl g n t)"
  "gives U (\<lambda>ts. \<forall>t \<in> set ts. typed_tests U t) (y_tests cl g n)"
proof (induction n arbitrary: t)
  case 0
  { case 1 then show ?case by (simp add: gives) } { case 2 then show ?case by (simp add: gives) }
  { case 3 then show ?case by (simp add: gives) } { case 4 then show ?case by (simp add: gives) }
  { case 5 then show ?case by (simp add: gives) }
next
  case (Suc n)
  { case 1
    show ?case
      unfolding y_test.simps
      by (intro gives gives_bind [OF Suc.IH(3)] gives_bind [OF Suc.IH(2)] gives_header_test gives_address_test
          gives_hasflag_test gives_size_test) simp_all }
  { case 2
    show ?case unfolding y_test_at.simps by (intro gives_catch gives_bind [OF Suc.IH(1)] gives) simp_all }
  { case 3
    show ?case unfolding y_testlist.simps by (intro gives gives_bind [OF Suc.IH(2)] Suc.IH(4)) }
  { case 4
    then show ?case
      unfolding y_paren.simps
      by (intro gives_catch gives_bind [OF Suc.IH(5)] gives Suc.IH(4)) (auto simp: libsieve_new_testlist_def) }
  { case 5
    show ?case
      unfolding y_tests.simps
      by (intro gives gives_bind [OF Suc.IH(2)] gives_bind [OF Suc.IH(5)]) (auto simp: libsieve_new_testlist_def) }
qed

section \<open>Commands\<close>

abbreviation typed_commands :: "support2 \<Rightarrow> command list \<Rightarrow> bool" where
  "typed_commands U cs \<equiv> \<forall>c \<in> set cs. typed_command U c"

lemma gives_flag_action:
  "(\<And>sl. sl \<noteq> [] \<Longrightarrow> typed_command U (f sl)) \<Longrightarrow> gives U (typed_commands U) (y_flag_action cl g n f)"
  unfolding y_flag_action_def by (intro gives) simp_all

lemma gives_keep: "gives U (typed_commands U) (y_keep cl g n)"
  unfolding y_keep_def by (intro gives) simp_all

lemma gives_fileinto: "gives U (typed_commands U) (y_fileinto cl g n)"
  unfolding y_fileinto_def by (intro gives) (simp_all add: grounded_def within_def)

lemma gives_action: "gives U (typed_commands U) (y_action cl g n)"
  unfolding y_action_def
  by (intro gives safe_bind [OF safe_vtags] safe_bind [OF safe_ntags] safe_bind [OF safe_verify_address] gives_flag_action
      gives_keep gives_fileinto)
    (simp_all add: grounded_def within_def static_build_vacation_def static_build_notify_def static_build_validnotif_def)

lemma safe_skip [gives]: "safe U (y_skip cl g n)"
proof (induction n)
  case (Suc n)
  show ?case unfolding y_skip.simps by (intro gives_catch gives Suc)
qed (simp add: gives)

lemma gives_commands:
  "gives U (typed_commands U) (y_commands cl g n)"
  "typed_commands U c \<Longrightarrow> gives U (typed_commands U) (y_more cl g n c)"
  "gives U (typed_commands U) (y_command cl g n)"
  "typed_tests U t \<Longrightarrow> gives U (typed_commands U) (y_cond cl g n t)"
  "gives U (typed_commands U) (y_elsif cl g n)"
  "gives U (typed_commands U) (y_block cl g n)"
proof (induction n arbitrary: t c)
  case 0
  { case 1 then show ?case by (simp add: gives) } { case 2 then show ?case by (simp add: gives) }
  { case 3 then show ?case by (simp add: gives) } { case 4 then show ?case by (simp add: gives) }
  { case 5 then show ?case by (simp add: gives) } { case 6 then show ?case by (simp add: gives) }
next
  case (Suc n)
  { case 1
    have "gives U (typed_commands U) (y_catch (y_command cl g n) (y_then (y_skip cl g n) (y_ret [Stop])))"
      by (intro gives_catch gives Suc.IH(3)) simp
    then show ?case unfolding y_commands.simps by (rule gives_bind) (rule Suc.IH(2)) }
  { case 2
    then show ?case
      unfolding y_more.simps by (intro gives gives_bind [OF Suc.IH(1)]) auto }
  { case 3
    show ?case
      unfolding y_command.simps
      by (intro gives gives_bind [OF gives_tests(2)] gives_bind [OF gives_action] Suc.IH(4)) }
  { case 4
    then show ?case
      unfolding y_cond.simps
      by (intro gives_catch gives gives_bind [OF Suc.IH(6)] gives_bind [OF Suc.IH(5)] Suc.IH(4))
        (auto simp: libsieve_new_if_def) }
  { case 5
    show ?case
      unfolding y_elsif.simps
      by (intro gives gives_bind [OF gives_tests(2)] Suc.IH(4,6)) simp_all }
  { case 6
    show ?case
      unfolding y_block.simps
      by (intro gives gives_bind [OF Suc.IH(1)] gives_catch) simp_all }
qed

section \<open>Scripts\<close>

lemma only_require:
  "\<exists>q. snd (b, c\<lparr>require := r\<rparr>) = c\<lparr>require := q\<rparr>" "\<exists>q. snd (b, c) = c\<lparr>require := q\<rparr>"
  "\<exists>q. snd x = c\<lparr>require := q\<rparr> \<Longrightarrow> \<exists>q. snd y = c\<lparr>require := q\<rparr> \<Longrightarrow> \<exists>q. snd (if p then x else y) = c\<lparr>require := q\<rparr>"
proof -
  have "c = c\<lparr>require := require c\<rparr>" by simp
  then show "\<exists>q. snd (b, c) = c\<lparr>require := q\<rparr>" unfolding snd_conv by (rule exI)
qed auto

lemma check_reqs_only: "\<exists>r. snd (static_check_reqs c s) = c\<lparr>require := r\<rparr>"
  unfolding static_check_reqs_def Let_def by (intro only_require)

lemma grounded_if: "grounded U (snd x) \<Longrightarrow> grounded U (snd y) \<Longrightarrow> grounded U (snd (if p then x else y))"
  by simp

lemma check_reqs_grounded: "grounded U c \<Longrightarrow> grounded U (snd (static_check_reqs c s))"
  unfolding static_check_reqs_def Let_def by (intro grounded_if) (simp_all add: grounded_def within_def)

lemma check_reqs_keeps: "kept c (snd (static_check_reqs c s))"
  using check_reqs_only [of c s] by (auto simp: kept_def)

lemma check_reqs_kept:
  "static_check_reqs c s = (ok, c') \<Longrightarrow> grounded U c \<Longrightarrow> grounded U c' \<and> kept c c'"
  using check_reqs_grounded [of U c s] check_reqs_keeps [of c s] by simp

lemma require_loop_kept:
  "require_loop sl b m c = Some (x, c') \<Longrightarrow> grounded U c \<Longrightarrow> grounded U c' \<and> kept c c'"
proof (induction sl arbitrary: b m c)
  case (Cons s sl)
  obtain ok c1 where c1: "static_check_reqs c s = (ok, c1)" by fastforce
  from check_reqs_kept [OF c1 Cons.prems(2)] have k: "grounded U c1" "kept c c1" by auto
  then show ?case
    using Cons.prems(1) Cons.IH [of _ _ c1] kept_trans [OF k(2)] by (cases ok) (auto simp: c1 bind_eq_Some_conv)
qed simp

lemma safe_require [gives]: "safe U (y_require cl g n)"
proof -
  have loop: "safe U (y_do (require_loop sl b m))" for sl b m
    by (rule gives_do) (use require_loop_kept in fastforce)
  have rest: "safe U (case x of (unsupp, msg) \<Rightarrow> if unsupp then y_reject cl msg else y_ret ())" for x
    by (cases x) (auto intro!: gives)
  show ?thesis unfolding y_require_def by (intro gives safe_bind [OF loop] rest)
qed

lemma safe_reqs [gives]: "safe U (y_reqs cl g n)"
proof (induction n)
  case (Suc n)
  show ?case unfolding y_reqs.simps by (intro gives Suc) simp
qed (simp add: gives)

lemma safe_set_ret [gives]: "typed_commands U cs \<Longrightarrow> safe U (y_set_ret cs)"
  unfolding y_set_ret_def by (rule gives_do) (auto simp: grounded_def kept_def)

lemma safe_start: "safe U (y_start cl g n)"
  unfolding y_start_def by (intro gives_catch gives gives_bind [OF gives_commands(1)]) simp_all

text \<open>The parser as an argument of the functions of \<^verbatim>\<open>script2.c\<close>.\<close>

definition script_parser :: "'w client \<Rightarrow> grammar_texts \<Rightarrow> 'w sieve2_context \<Rightarrow> (parse_result \<times> 'w sieve2_context) option" where
  "script_parser cl g c = map_option (\<lambda>(cs, c). (Commands cs, c)) (libsieve_sieve_parse_buffer cl g c)"

lemma parse_buffer_typed:
  assumes parse: "libsieve_sieve_parse_buffer cl g c = Some (cs, c')" and c: "grounded U c"
  shows "typed_commands U cs" and "kept c c'" and "grounded U c'"
proof -
  obtain body where run: "libsieve_sieveparse cl g body c = y_start cl g (sieve_fuel (ps_events (parser_start g body c))) (parser_start g body c)"
    and res: "(case libsieve_sieveparse cl g body c of
          YOk _ s \<Rightarrow> Some (sieve_ret (ps_ctx s), (ps_ctx s)\<lparr>sieve_ret := []\<rparr>)
        | YAbort s \<Rightarrow> Some ([], ps_ctx s)
        | _ \<Rightarrow> None) = Some (cs, c')"
    using parse by (auto simp: libsieve_sieve_parse_buffer_def bind_eq_Some_conv libsieve_sieveparse_def Let_def)
  have start: "grounded U (ps_ctx (parser_start g body c))" "ps_ctx (parser_start g body c) = c"
    using c by (simp_all add: parser_start_def)
  note D = givesD [OF safe_start [where n = "sieve_fuel (ps_events (parser_start g body c))" and cl = cl and g = g] start(1),
      folded run, unfolded start(2)]
  have clear: "grounded U (x\<lparr>sieve_ret := []\<rparr>)" "kept a x \<Longrightarrow> kept a (x\<lparr>sieve_ret := []\<rparr>)" if "grounded U x" for a x :: "'a sieve2_context"
    using that by (auto simp: grounded_def kept_def)
  have "typed_commands U cs \<and> kept c c' \<and> grounded U c'"
  proof (cases "libsieve_sieveparse cl g body c")
    case (YOk x s)
    from D(1) [OF this] res YOk clear show ?thesis by (auto simp: grounded_def)
  next
    case (YAbort s)
    from D(3) [OF this] res YAbort show ?thesis by auto
  qed (use res in auto)
  then show "typed_commands U cs" "kept c c'" "grounded U c'" by auto
qed

text \<open>
  C3. Every tree the parser gives is well typed, whatever the text and its errors: each comparator of a
  header or address test gets patterns of the kind it reads, so that only the wildcard matchers may be
  undefined; no list of headers, patterns, flags or tests is empty; and an action, or the part of an address, that needs
  an extension is there only when the context supports it, if the context's requirements were supported
  before. The parser keeps the script, the callbacks, the flags and the message of the context.
\<close>
theorem parsed_trees_typed:
  assumes "libsieve_sieve_parse_buffer cl g c = Some (cs, c')" and "grounded (support c) c"
  shows "(\<forall>x \<in> set cs. typed_command (support c) x) \<and> kept c c' \<and> grounded (support c') c' \<and>
    (\<forall>cmp p rx t. fits cmp p \<longrightarrow> run_comparator rx cmp p t = None \<longrightarrow> cmp \<in> {Octet_matches, Casemap_matches})"
proof (intro conjI)
  note parsed = parse_buffer_typed [OF assms]
  show "\<forall>x \<in> set cs. typed_command (support c) x" and "kept c c'" by (rule parsed)+
  then have "support c' = support c" by (simp add: kept_def)
  with parsed(3) show "grounded (support c') c'" by simp
  show "\<forall>cmp p rx t. fits cmp p \<longrightarrow> run_comparator rx cmp p t = None \<longrightarrow> cmp \<in> {Octet_matches, Casemap_matches}"
    using fits_runs by (metis option.distinct(1))
qed

text \<open>
  C8. \<^verbatim>\<open>sieve2_validate\<close> accepts every script: with the parser of the grammar its result is
  \<^verbatim>\<open>SIEVE2_OK\<close>, or \<^verbatim>\<open>SIEVE2_ERROR_GETSCRIPT\<close> when the client gives no script. Errors
  are counted in \<^verbatim>\<open>parse_errors\<close>, which nothing reads; the count that is tested stays zero.
\<close>
theorem validate_accepts:
  assumes "sieve2_validate cl (script_parser cl g) (Some c) ud = Some (r, Some c')" and "grounded U c"
  shows "r \<in> {SIEVE2_OK, SIEVE2_ERROR_GETSCRIPT} \<and> error_count (script c') = 0 \<and> parse_errors c \<le> parse_errors c'"
proof -
  obtain r1 c1 where g: "get_script cl (start_script ud c) = Some (r1, c1)"
    and rest: "(if r1 \<noteq> SIEVE2_OK then Some (SIEVE2_ERROR_GETSCRIPT, Some c1)
      else do {
        (p, c) \<leftarrow> script_parser cl g c1;
        (if p = Throws SIEVE2_ERROR_INTERNAL then Some (SIEVE2_ERROR_INTERNAL, Some c)
         else do {
           let c = (case p of Commands cmds \<Rightarrow> with_cmds [] c | Throws _ \<Rightarrow> c);
           Some (if error_count (script c) > 0 then SIEVE2_ERROR_PARSE else SIEVE2_OK, Some c)
         })
      }) = Some (r, Some c')"
    using assms(1) by (auto simp: sieve2_validate_def bind_eq_Some_conv)
  obtain r0 s l c0 where c0: "libsieve_do_getscript cl (start_script ud c) [] [] = Some (r0, s, l, c0)"
    and c1: "c1 = c0\<lparr>script := (script c0)\<lparr>script_text := s, script_length := l\<rparr>\<rparr>"
    using g by (auto simp: get_script_def bind_eq_Some_conv)
  note f = getscript_frame [OF c0]
  have "grounded U (start_script ud c)" using assms(2) by (simp add: start_script_def grounded_def)
  from frame_grounded [OF f frame_sieve_ret [OF f] this]
  have c1': "grounded U c1" "error_count (script c1) = 0" "parse_errors c \<le> parse_errors c1"
    using frame_fields(7,12) [OF f] by (auto simp: c1 grounded_def start_script_def)
  show ?thesis
  proof (cases "r1 = SIEVE2_OK")
    case True
    with rest obtain cs c2 where c2: "libsieve_sieve_parse_buffer cl g c1 = Some (cs, c2)"
      and r: "Some (if error_count (script (with_cmds [] c2)) > 0 then SIEVE2_ERROR_PARSE else SIEVE2_OK, Some (with_cmds [] c2)) = Some (r, Some c')"
      by (auto simp: script_parser_def bind_eq_Some_conv Let_def split: prod.splits)
    from parse_buffer_typed(2) [OF c2 c1'(1)] c1'(2,3) r show ?thesis
      by (auto simp: kept_def with_cmds_def)
  qed (use rest c1' in auto)
qed


lemma parsed_trees_typed_witness:
  "\<exists>cs c'. libsieve_sieve_parse_buffer silent_client \<lparr>syntax_text = (\<lambda>_. ''syntax error''), first_line = 1\<rparr>
      (let c = zero_context no_message () in c\<lparr>script := (script c)\<lparr>script_text := Some ''kep;''\<rparr>\<rparr>) = Some (cs, c') \<and>
    cs \<noteq> [] \<and> (\<forall>x \<in> set cs. typed_command no_support x)"
proof -
  let ?g = "\<lparr>syntax_text = (\<lambda>_. ''syntax error''), first_line = 1\<rparr>"
  let ?c = "let c = zero_context no_message () in c\<lparr>script := (script c)\<lparr>script_text := Some ''kep;''\<rparr>\<rparr>"
  have "map_option fst (libsieve_sieve_parse_buffer silent_client ?g ?c) = Some [Stop]"
    by code_simp
  then obtain c' where c': "libsieve_sieve_parse_buffer silent_client ?g ?c = Some ([Stop], c')"
    by auto
  have "support ?c = no_support" "grounded no_support ?c" by (simp_all add: zero_context_def grounded_def within_def)
  with parsed_trees_typed [OF c'] c' show ?thesis by auto
qed

lemma validate_accepts_witness:
  "\<exists>c'. sieve2_validate (silent_client\<lparr>cl_call := (\<lambda>_ _ _ w. ([SetString (Some ''script'') (Some ''kep;'')], w))\<rparr>)
      (script_parser (silent_client\<lparr>cl_call := (\<lambda>_ _ _ w. ([SetString (Some ''script'') (Some ''kep;'')], w))\<rparr>)
        \<lparr>syntax_text = (\<lambda>_. ''syntax error''), first_line = 1\<rparr>)
      (Some ((zero_context no_message ())\<lparr>callbacks := no_callbacks\<lparr>cb_getscript := Some (User 0)\<rparr>\<rparr>)) 0
    = Some (SIEVE2_OK, Some c') \<and> error_count (script c') = 0 \<and> parse_errors c' = 1"
proof -
  let ?cl = "silent_client\<lparr>cl_call := (\<lambda>_ _ _ w. ([SetString (Some ''script'') (Some ''kep;'')], w))\<rparr>"
  let ?g = "\<lparr>syntax_text = (\<lambda>_. ''syntax error''), first_line = 1\<rparr>"
  let ?c = "(zero_context no_message ())\<lparr>callbacks := no_callbacks\<lparr>cb_getscript := Some (User 0)\<rparr>\<rparr>"
  have "map_option (\<lambda>(r, c). (r, map_option parse_errors c)) (sieve2_validate ?cl (script_parser ?cl ?g) (Some ?c) 0)
      = Some (SIEVE2_OK, Some 1)"
    by code_simp
  then obtain c' where c': "sieve2_validate ?cl (script_parser ?cl ?g) (Some ?c) 0 = Some (SIEVE2_OK, Some c')" "parse_errors c' = 1"
    by auto
  have "grounded no_support ?c" by (simp add: zero_context_def grounded_def within_def)
  with validate_accepts [OF c'(1)] c' show ?thesis by auto
qed

end
