(* ===== verification/Sieve_Recovery.thy ===== *)
theory Sieve_Recovery
  imports Sieve_Roundtrip Sieve_Trees
begin

text \<open>
  The recovery of the script parser from an unknown command: messages leave the context calm, the tokens
  up to the semicolon are dropped, and the lists of commands around them are read as usual.
\<close>

section \<open>Messages\<close>

text \<open>A context in which a message can be reported, between two calls of the client.\<close>

definition calm :: "support2 \<Rightarrow> 'w sieve2_context \<Rightarrow> bool" where
  "calm r c \<longleftrightarrow> idle c \<and> cb_err_parse (callbacks c) \<noteq> Some Message2_getheader \<and> require c = r \<and> addr_scan c = (INITIAL, 0)"

lemma do_and_end_defined:
  assumes "in_call callback c" and "callback_of callback (callbacks c) \<noteq> Some Message2_getheader"
  shows "\<exists>c'. do_and_end cl callback c = Some c' \<and> idle c' \<and> frame c c'"
proof -
  have "libsieve_callback_do cl c callback \<noteq> None"
    using assms(2) by (auto simp: libsieve_callback_do_def run_callback_def split: option.split callback_func.split prod.split)
  then obtain r c1 where c1: "libsieve_callback_do cl c callback = Some (r, c1)" by fastforce
  then have "in_call callback c1" using do_protocol assms(1) by blast
  from end_protocol [OF this] obtain c' where "libsieve_callback_end c1 callback = Some (SIEVE2_OK, c')" by blast
  then have "do_and_end cl callback c = Some c'" by (simp add: do_and_end_def c1)
  with do_and_end_protocol [OF assms(1) this] show ?thesis by blast
qed

lemma frame_sieve_scan: "frame c c' \<Longrightarrow> sieve_scan c' = sieve_scan c"
  by (cases c'; cases c) (auto simp: frame_def)

lemma sieveerror_calm:
  assumes "calm r c"
  shows "\<exists>c'. libsieve_sieveerror cl n msg c = Some ((), c') \<and> calm r c' \<and> parse_errors c' = parse_errors c + 1 \<and>
    sieve_scan c' = sieve_scan c"
proof -
  let ?d = "c\<lparr>parse_errors := parse_errors c + 1\<rparr>"
  let ?c = "set_string ''message'' (Some msg) (set_int ''lineno'' (int n) (begin_call SIEVE2_ERRCALL_PARSE ?d))"
  have "idle ?d" using assms by (simp add: calm_def idle_def)
  then have call: "in_call SIEVE2_ERRCALL_PARSE ?c" by (intro protocol begin_in_call)
  have f: "frame ?d ?c" by (intro frame_into(1,2) begin_frame)
  then have "callback_of SIEVE2_ERRCALL_PARSE (callbacks ?c) \<noteq> Some Message2_getheader"
    using assms by (auto simp: calm_def callback_of_def frame_fields)
  from do_and_end_defined [OF call this, of cl] obtain c' where c': "do_and_end cl SIEVE2_ERRCALL_PARSE ?c = Some c'"
    "idle c'" "frame ?c c'" by blast
  note f' = frame_fields [OF frame_trans [OF f c'(3)]]
  have "calm r c'" unfolding calm_def f' using assms c'(2) by (simp add: calm_def)
  moreover have "parse_errors c' = parse_errors c + 1" by (simp add: f')
  moreover have "sieve_scan c' = sieve_scan c" using frame_sieve_scan [OF frame_trans [OF f c'(3)]] by simp
  ultimately show ?thesis by (auto simp: libsieve_sieveerror_def libsieve_do_error_parse_def c'(1) Let_def)
qed

lemma calm_unscanned: "calm r (unscanned c) = calm r c" "parse_errors (unscanned c) = parse_errors c"
  by (simp_all add: calm_def unscanned_def idle_def)

lemma calm_scan: "calm r (c\<lparr>sieve_scan := sc\<rparr>) = calm r c"
  by (simp add: calm_def idle_def)

section \<open>Skipping\<close>

text \<open>
  \<open>gets r p s x s' k\<close>: from the state \<open>s\<close> the parser gives \<open>x\<close> and the state \<open>s'\<close>, with \<open>k\<close> messages,
  between calm contexts.
\<close>

definition gets :: "support2 \<Rightarrow> ('a, 'w) parser \<Rightarrow> 'w pstate \<Rightarrow> 'a \<Rightarrow> 'w pstate \<Rightarrow> int \<Rightarrow> bool" where
  "gets r p s x s' k \<longleftrightarrow> p s = YOk x s' \<and> calm r (ps_ctx s') \<and> parse_errors (ps_ctx s') = parse_errors (ps_ctx s) + k"

lemma reads_gets:
  assumes "reads F (unscanned (ps_ctx s)) p ts x (unscanned (ps_ctx s))" and "in_front s (ts @ rest)" and "F (tok_head rest)"
    and "calm r (ps_ctx s)"
  obtains s' where "gets r p s x s' 0" "in_front s' rest" "ps_status s' \<le> ps_status s" "unscanned (ps_ctx s') = unscanned (ps_ctx s)"
proof -
  from readsE [OF assms(1-3) refl] obtain s' where s': "p s = YOk x s'" "in_front s' rest"
    "unscanned (ps_ctx s') = unscanned (ps_ctx s)" "ps_status s' \<le> ps_status s" .
  then have "calm r (ps_ctx s')" "parse_errors (ps_ctx s') = parse_errors (ps_ctx s)"
    using assms(4) calm_unscanned by metis+
  with that [of s'] s' show ?thesis by (simp add: gets_def)
qed

text \<open>A token that no command starts with, and that does not end a list of commands.\<close>

definition starts_command :: "stoken \<Rightarrow> bool" where
  "starts_command t \<longleftrightarrow> t \<in> Tk ` set [''IF'', ''REJCT'', ''KEEP'', ''FILEINTO'', ''REDIRECT'', ''STOP'', ''DISCARD'', ''VACATION'',
     ''SETFLAG'', ''ADDFLAG'', ''REMOVEFLAG'', ''NOTIFY'', ''VALIDNOTIF'']"

lemma peek_state:
  fixes s :: "'w pstate"
  assumes "in_front s ts" and "calm r (ps_ctx s)"
  obtains s1 where "y_peek cl s = YOk (tok_head ts) s1" "in_front s1 ts" "calm r (ps_ctx s1)"
    "parse_errors (ps_ctx s1) = parse_errors (ps_ctx s)" "ps_status s1 = ps_status s" "ps_look s1"
proof -
  from reads_peek_result [OF assms(1), of cl] obtain s1 where s1: "y_peek cl s = YOk (tok_head ts) s1" "in_front s1 ts"
    "ps_look s1" "unscanned (ps_ctx s1) = unscanned (ps_ctx s)" "ps_status s1 = ps_status s" by blast
  moreover from this have "calm r (ps_ctx s1)" "parse_errors (ps_ctx s1) = parse_errors (ps_ctx s)"
    using assms(2) calm_unscanned by metis+
  ultimately show ?thesis using that by blast
qed

lemma in_front_tl:
  "in_front s (t # ts) \<Longrightarrow> in_front (s\<lparr>ps_events := tl (ps_events s), ps_look := False, ps_status := k\<rparr>) ts"
  by (cases "(ps_events s, t # ts)" rule: carries.cases) (auto simp: in_front_def)

lemma in_front_lookahead: "in_front s ts \<Longrightarrow> lookahead (ps_events s) = tok_head ts"
  by (simp add: in_front_def carries_lookahead)

lemma in_front_simps [simp]:
  "in_front (s\<lparr>ps_status := k\<rparr>) ts = in_front s ts" "in_front (s\<lparr>ps_nerrs := n\<rparr>) ts = in_front s ts"
  by (simp_all add: in_front_def)

text \<open>What stands before the semicolon is dropped without a message.\<close>

lemma skip_junk:
  fixes s :: "'w pstate"
  assumes "in_front s (js @ SCh CHR '';'' # rest)" and "SCh CHR '';'' \<notin> set js" and "calm r (ps_ctx s)"
    and "ps_status s = 3" and "length js < n"
  shows "\<exists>s'. gets r (y_skip cl g n) s () s' 0 \<and> in_front s' rest"
  using assms
proof (induction js arbitrary: s n)
  case Nil
  then obtain m where n: "n = Suc m" by (cases n) auto
  from Nil(1) obtain s1 where s1: "y_peek cl s = YOk (Some (SCh CHR '';'')) s1" "in_front s1 (SCh CHR '';'' # rest)"
    "calm r (ps_ctx s1)" "parse_errors (ps_ctx s1) = parse_errors (ps_ctx s)"
    using peek_state [OF _ Nil(3), of "SCh CHR '';'' # rest" cl] by (auto simp: head_of_def)
  with in_front_tl [OF s1(2), of "ps_status s1 - 1"] show ?case
    by (simp add: n gets_def y_catch_def y_expect_def y_bind_def y_shift_def)
next
  case (Cons j js)
  then obtain m where n: "n = Suc m" by (cases n) auto
  have j: "j \<noteq> SCh CHR '';''" using Cons.prems(2) by auto
  from Cons.prems(1) obtain s1 where s1: "y_peek cl s = YOk (Some j) s1" "in_front s1 (j # js @ SCh CHR '';'' # rest)"
    "calm r (ps_ctx s1)" "parse_errors (ps_ctx s1) = parse_errors (ps_ctx s)" "ps_status s1 = 3"
    using peek_state [OF _ Cons.prems(3), of "j # js @ SCh CHR '';'' # rest" cl] Cons.prems(4) by (auto simp: head_of_def)
  let ?s = "s1\<lparr>ps_events := tl (ps_events s1), ps_look := False, ps_status := 3\<rparr>"
  have run: "y_skip cl g n s = y_skip cl g m ?s"
    using s1(1,5) in_front_lookahead [OF s1(2)] j
    by (simp add: n y_catch_def y_expect_def y_bind_def y_syntax_error_def y_discard_def head_of_def)
  have "\<exists>s'. gets r (y_skip cl g m) ?s () s' 0 \<and> in_front s' rest"
    by (rule Cons.IH) (use Cons.prems in_front_tl [OF s1(2)] s1(3) in \<open>auto simp: n\<close>)
  then show ?case using s1(4) unfolding gets_def run by simp
qed

section \<open>A command that is none\<close>

text \<open>Tokens up to a semicolon that cannot start a command, nor go on with the one before.\<close>

definition stray :: "stoken list \<Rightarrow> bool" where
  "stray us \<longleftrightarrow> SCh CHR '';'' \<notin> set us \<and>
     (case head_of us (Some (SCh CHR '';'')) of None \<Rightarrow> False
      | Some t \<Rightarrow> \<not> starts_command t \<and> t \<notin> {SCh CHR ''}'', Tk ''ELSE'', Tk ''ELSIF''})"

lemma stray_command:
  fixes s :: "'w pstate"
  assumes front: "in_front s (us @ SCh CHR '';'' # rest)" and us: "stray us" and "calm r (ps_ctx s)" and "ps_status s = 0"
    and n: "length us + 3 \<le> n"
  shows "\<exists>s'. gets r (y_catch (y_command cl g n) (y_then (y_skip cl g n) (y_ret [Stop]))) s [Stop] s' 1 \<and> in_front s' rest"
proof -
  obtain m where m: "n = Suc m" using n by (cases n) auto
  let ?ts = "us @ SCh CHR '';'' # rest"
  obtain t where t: "tok_head ?ts = Some t" "head_of us (Some (SCh CHR '';'')) = Some t" by (cases us) (auto simp: head_of_def)
  then have no: "\<not> starts_command t" using us by (auto simp: stray_def)
  obtain s1 where s1: "y_peek cl s = YOk (Some t) s1" "in_front s1 ?ts" "calm r (ps_ctx s1)"
    "parse_errors (ps_ctx s1) = parse_errors (ps_ctx s)" "ps_status s1 = 0" "ps_look s1"
    using peek_state [OF front assms(3), of cl] assms(4) t(1) by metis
  obtain s2 where s2: "y_peek cl s1 = YOk (Some t) s2" "in_front s2 ?ts" "calm r (ps_ctx s2)"
    "parse_errors (ps_ctx s2) = parse_errors (ps_ctx s)" "ps_status s2 = 0"
    using peek_state [OF s1(2,3), of cl] s1(4,5) t(1) by metis
  obtain c' where c': "libsieve_sieveerror cl (ps_line s2) (syntax_text g (ps_nerrs s2)) (ps_ctx s2) = Some ((), c')"
    "calm r c'" "parse_errors c' = parse_errors (ps_ctx s) + 1" "sieve_scan c' = sieve_scan (ps_ctx s2)"
    using sieveerror_calm [OF s2(3), of cl "ps_line s2" "syntax_text g (ps_nerrs s2)"] s2(4) by auto
  let ?s = "s2\<lparr>ps_nerrs := ps_nerrs s2 + 1, ps_ctx := c'\<rparr>"
  have action: "y_action cl g m s1 = YError ?s"
    using no c'(1) s2(5)
    by (simp add: y_action_def y_bind_def [of "y_peek cl"] s2(1) starts_command_def y_syntax_error_def y_then_def y_bind_def
        y_message_def y_do_def y_discard_def)
  have "y_command cl g n s = YError ?s"
    using no by (simp add: m y_bind_def s1(1) starts_command_def action)
  moreover have front3: "in_front (?s\<lparr>ps_status := 3\<rparr>) (us @ SCh CHR '';'' # rest)"
    using s2(2) c'(4) by (simp add: in_front_def)
  moreover have "\<exists>s'. gets r (y_skip cl g n) (?s\<lparr>ps_status := 3\<rparr>) () s' 0 \<and> in_front s' rest"
    by (rule skip_junk [OF front3]) (use us n c'(2) in \<open>auto simp: stray_def\<close>)
  ultimately show ?thesis
    using c'(3) by (auto simp: gets_def y_catch_def y_then_def y_bind_def y_ret_def)
qed

lemma stray_head: "stray us \<Longrightarrow> no_branch (head_of (us @ SCh CHR '';'' # ts) l) \<and> \<not> ends_list (head_of (us @ SCh CHR '';'' # ts) l)"
  by (cases us) (auto simp: stray_def no_branch_def ends_list_def head_of_def)

lemma stray_follow:
  assumes "stray us"
  shows "no_branch (tok_head (tokens_commands cs @ us @ SCh CHR '';'' # tokens_commands ds)) \<and>
    \<not> ends_list (tok_head (tokens_commands cs @ us @ SCh CHR '';'' # tokens_commands ds))"
proof (cases cs)
  case Nil
  then show ?thesis using stray_head [OF assms, of "tokens_commands ds" None] by (simp add: tokens_commands_def)
next
  case (Cons c cs')
  then show ?thesis by (simp add: tokens_commands_def command_no_end)
qed

text \<open>A list of commands around it: the others are read as if it were a \<^verbatim>\<open>stop\<close>.\<close>

lemma stray_commands:
  fixes s :: "'w pstate"
  assumes front: "in_front s (tokens_commands cs @ us @ SCh CHR '';'' # tokens_commands ds)" and us: "stray us"
    and calm: "calm r (ps_ctx s)" and status: "ps_status s = 0"
    and ok: "\<forall>x \<in> set (cs @ ds). ok_command cl r x" and n: "room (tokens_commands cs @ us @ SCh CHR '';'' # tokens_commands ds) 6 n"
  shows "\<exists>s'. gets r (y_commands cl g n) s (map tree_command cs @ Stop # map tree_command ds) s' 1 \<and> in_front s' []"
  using front calm status ok n
proof (induction cs arbitrary: s n)
  case Nil
  obtain m where m: "n = Suc m" using Nil.prems(5) by (cases n) auto
  obtain k where k: "m = Suc k" using Nil.prems(5) by (cases m) (auto simp: m)
  have "in_front s (us @ SCh CHR '';'' # tokens_commands ds)" using Nil.prems(1) by (simp add: tokens_commands_def)
  from stray_command [OF this us Nil.prems(2,3), of m cl g] Nil.prems(5)
  obtain s1 where s1: "gets r (y_catch (y_command cl g m) (y_then (y_skip cl g m) (y_ret [Stop]))) s [Stop] s1 1"
    "in_front s1 (tokens_commands ds)" by (auto simp: m)
  then have calm1: "calm r (ps_ctx s1)" by (simp add: gets_def)
  obtain s2 where s2: "y_peek cl s1 = YOk (tok_head (tokens_commands ds)) s2" "in_front s2 (tokens_commands ds)"
    "calm r (ps_ctx s2)" "parse_errors (ps_ctx s2) = parse_errors (ps_ctx s1)"
    using peek_state [OF s1(2) calm1, of cl] by metis
  show ?case
  proof (cases ds)
    case Nil
    then have "y_commands cl g n s = YOk [Stop] s2"
      using s1(1) s2(1) by (simp add: m k gets_def y_bind_def y_ret_def tokens_commands_def head_of_def)
    then show ?thesis using s1(1) s2 Nil by (auto simp: gets_def tokens_commands_def)
  next
    case (Cons d ds')
    have "\<not> ends_list (tok_head (tokens_commands ds))"
      using command_no_end(1) [of d] Cons by (simp add: tokens_commands_def)
    then have more: "y_more cl g m [Stop] s1 = y_bind (y_commands cl g k) (\<lambda>cs. y_ret ([Stop] @ cs)) s2"
      using s2(1) by (auto simp: k y_bind_def ends_list_def)
    have r: "require (unscanned (ps_ctx s2)) = r" "addr_scan (unscanned (ps_ctx s2)) = (INITIAL, 0)" using s2(3) by (simp_all add: calm_def)
    have "reads ends_list (unscanned (ps_ctx s2)) (y_commands cl g k) (tokens_commands ds) (map tree_command ds) (unscanned (ps_ctx s2))"
      unfolding tokens_commands_def
      by (rule reads_commands [OF reads_command(1)]) (use Nil.prems(4,5) r Cons in \<open>auto simp: m k tokens_commands_def\<close>)
    from reads_gets [OF this _ _ s2(3), of "[]"] s2(2) obtain s3 where
      s3: "gets r (y_commands cl g k) s2 (map tree_command ds) s3 0" "in_front s3 []"
      by (auto simp: ends_list_def head_of_def)
    have "y_commands cl g n s = YOk (Stop # map tree_command ds) s3"
      using s1(1) s3(1) more by (simp add: m gets_def y_bind_def y_ret_def)
    then show ?thesis using s1(1) s2(4) s3 by (auto simp: gets_def)
  qed
next
  case (Cons c cs)
  obtain m where m: "n = Suc m" using Cons.prems(5) by (cases n) auto
  obtain k where k: "m = Suc k" using Cons.prems(5) by (cases m) (auto simp: m)
  let ?ts = "tokens_commands cs @ us @ SCh CHR '';'' # tokens_commands ds"
  have r: "require (unscanned (ps_ctx s)) = r" "addr_scan (unscanned (ps_ctx s)) = (INITIAL, 0)" using Cons.prems(2) by (simp_all add: calm_def)
  have c: "reads no_branch (unscanned (ps_ctx s)) (y_command cl g m) (tokens_command c) [tree_command c] (unscanned (ps_ctx s))"
    by (rule reads_command(1)) (use Cons.prems(4,5) r in \<open>auto simp: m tokens_commands_def\<close>)
  have follow: "no_branch (tok_head ?ts)" "\<not> ends_list (tok_head ?ts)"
    using stray_follow [OF us, of cs ds] by simp_all
  have "in_front s (tokens_command c @ ?ts)" using Cons.prems(1) by (simp add: tokens_commands_def)
  from reads_gets [OF reads_catch [OF c] this follow(1) Cons.prems(2)]
  obtain s1 where s1: "gets r (y_catch (y_command cl g m) (y_then (y_skip cl g m) (y_ret [Stop]))) s [tree_command c] s1 0"
    "in_front s1 ?ts" "ps_status s1 \<le> ps_status s" by blast
  then have calm1: "calm r (ps_ctx s1)" by (simp add: gets_def)
  obtain s2 where s2: "y_peek cl s1 = YOk (tok_head ?ts) s2" "in_front s2 ?ts" "calm r (ps_ctx s2)"
    "parse_errors (ps_ctx s2) = parse_errors (ps_ctx s1)" "ps_status s2 = 0"
    using peek_state [OF s1(2) calm1, of cl] s1(3) Cons.prems(3) by (metis le_zero_eq)
  have "16 \<le> 8 * length (tokens_command c)" using length_tokens_command [of c] by simp
  then have "room ?ts 6 k" using Cons.prems(5) by (auto simp: m k tokens_commands_def)
  with Cons.IH [OF s2(2,3,5)] Cons.prems(4) obtain s3 where
    s3: "gets r (y_commands cl g k) s2 (map tree_command cs @ Stop # map tree_command ds) s3 1" "in_front s3 []" by auto
  have go: "\<not> (tok_head ?ts = None \<or> tok_head ?ts = Some (SCh CHR ''}''))" using follow(2) unfolding ends_list_def .
  have "y_more cl g m [tree_command c] s1 = YOk (tree_command c # map tree_command cs @ Stop # map tree_command ds) s3"
    using s3(1) unfolding k y_more.simps y_bind_def [of "y_peek cl"] s2(1) outcome.case if_not_P [OF go]
    by (simp add: gets_def y_bind_def y_ret_def)
  then have "y_commands cl g n s = YOk (map tree_command (c # cs) @ Stop # map tree_command ds) s3"
    using s1(1) by (simp add: m gets_def y_bind_def [of "y_catch _ _"])
  then show ?case using s1(1) s2(4) s3 by (auto simp: gets_def)
qed

lemma required_only: "required sl c = Some c' \<Longrightarrow> \<exists>r. c' = c\<lparr>require := r\<rparr>"
proof (induction sl arbitrary: c)
  case Nil
  then have "c' = c\<lparr>require := require c\<rparr>" by simp
  then show ?case by blast
next
  case (Cons s sl)
  obtain ok c1 where c1: "static_check_reqs c s = (ok, c1)" by fastforce
  obtain r where r: "c1 = c\<lparr>require := r\<rparr>" using check_reqs_only [of c s] c1 by auto
  from Cons.prems c1 have "required sl c1 = Some c'" by (auto split: bool.splits)
  from Cons.IH [OF this] r show ?case by auto
qed

lemma required_all_only: "required_all rs c = Some c' \<Longrightarrow> \<exists>r. c' = c\<lparr>require := r\<rparr>"
proof (induction rs arbitrary: c)
  case Nil
  then have "c' = c\<lparr>require := require c\<rparr>" by simp
  then show ?case by blast
next
  case (Cons sl rs)
  then obtain c1 where c1: "required sl c = Some c1" "required_all rs c1 = Some c'"
    by (auto simp: bind_eq_Some_conv split: if_splits)
  from required_only [OF c1(1)] Cons.IH [OF c1(2)] show ?case by auto
qed

text \<open>
  C6. An unknown command does not stop a script: tokens up to a semicolon that start no command and
  stand between commands are reported once, with one more count in \<^verbatim>\<open>parse_errors\<close>, and become
  a \<^verbatim>\<open>stop\<close>; the commands before and after them are read as without them. A late
  \<^verbatim>\<open>require\<close> and a stray semicolon are of this kind.
\<close>
theorem stray_command_stops:
  assumes "stray us" and "cs = [] \<longrightarrow> hd (us @ [SCh CHR '';'']) \<noteq> Tk ''REQUIRE''"
    and "\<forall>t \<in> set (tokens_script rs cs @ us @ SCh CHR '';'' # tokens_commands ds). printable_token t"
    and "required_all rs c = Some c'" and "\<forall>x \<in> set (cs @ ds). ok_command cl (require c') x" and "calm (require c) c"
    and "script_text (script c) = Some (print_tokens (tokens_script rs cs @ us @ SCh CHR '';'' # tokens_commands ds))"
    and "sieve_scan c = (S_INITIAL, None)"
  shows "\<exists>c''. libsieve_sieve_parse_buffer cl g c = Some (map tree_command cs @ Stop # map tree_command ds, c'') \<and>
    parse_errors c'' = parse_errors c + 1"
proof -
  let ?ts = "tokens_commands cs @ us @ SCh CHR '';'' # tokens_commands ds"
  let ?all = "tokens_script rs cs @ us @ SCh CHR '';'' # tokens_commands ds"
  let ?s = "parser_start g (print_tokens ?all) c"
  let ?n = "sieve_fuel (ps_events ?s)"
  let ?finish = "\<lambda>cmds. y_then (y_set_ret cmds) (y_bind (y_peek cl) (\<lambda>l. if l = None then y_ret () else y_syntax_error cl g))"
  have front: "in_front ?s ?all"
    using lex_tokens [OF assms(3)] assms(8) by (simp add: in_front_def parser_start_def)
  have "carries es us \<Longrightarrow> length us < length es" for es us
    by (induction es us rule: carries.induct) auto
  then have n: "room ?all 11 ?n" using front by (fastforce simp: in_front_def sieve_fuel_def)
  have ctx: "ps_ctx ?s = c" "ps_status ?s = 0" by (simp_all add: parser_start_def)
  have calm: "calm (require c) (ps_ctx ?s)" using assms(6) ctx by simp
  obtain t where t: "tok_head ?all = Some t"
    by (cases ?all) (auto simp: head_of_def)
  obtain s1 where s1: "y_peek cl ?s = YOk (Some t) s1" "in_front s1 ?all" "unscanned (ps_ctx s1) = unscanned c" "ps_status s1 = 0"
    using reads_peek_result [OF front, of cl] t ctx by auto
  have reqs: "reads (\<lambda>l. l \<noteq> Some (Tk ''REQUIRE'')) (unscanned c) (y_reqs cl g ?n) (concat (map tokens_require rs)) () (unscanned c')"
    by (rule reads_reqs [OF required_all_unscanned [OF assms(4)]]) (use n in \<open>auto simp: tokens_script_def\<close>)
  have no_req: "tok_head ?ts \<noteq> Some (Tk ''REQUIRE'')"
  proof (cases "cs = []")
    case True
    then show ?thesis using assms(2) by (cases us) (auto simp: tokens_commands_def head_of_def)
  next
    case False
    then show ?thesis using command_no_require [OF False] length_tokens_command [of "hd cs"]
      by (cases "tokens_commands cs") (auto simp: head_of_def tokens_commands_def neq_Nil_conv)
  qed
  have "in_front s1 (concat (map tokens_require rs) @ ?ts)" using s1(2) by (simp add: tokens_script_def)
  from readsE [OF reqs this no_req s1(3)] s1(4) obtain s2 where s2: "y_reqs cl g ?n s1 = YOk () s2" "in_front s2 ?ts"
    "unscanned (ps_ctx s2) = unscanned c'" "ps_status s2 = 0" by auto
  obtain r where "c' = c\<lparr>require := r\<rparr>" using required_all_only [OF assms(4)] by blast
  then have "calm (require c') c'" "parse_errors c' = parse_errors c" using assms(6) by (auto simp: calm_def idle_def)
  then have calm2: "calm (require c') (ps_ctx s2)" "parse_errors (ps_ctx s2) = parse_errors c"
    using s2(3) calm_unscanned by metis+
  have "room ?ts 6 ?n" using n by (simp add: tokens_script_def)
  from stray_commands [OF s2(2) assms(1) calm2(1) s2(4) assms(5) this, of g] obtain s3 where
    s3: "gets (require c') (y_commands cl g ?n) s2 (map tree_command cs @ Stop # map tree_command ds) s3 1" "in_front s3 []"
    by blast
  let ?s3 = "s3\<lparr>ps_ctx := (ps_ctx s3)\<lparr>sieve_ret := map tree_command cs @ Stop # map tree_command ds\<rparr>\<rparr>"
  have "in_front ?s3 []" using s3(2) by (simp add: in_front_def)
  from reads_peek_result [OF this, of cl] obtain s4 where s4: "y_peek cl ?s3 = YOk None s4"
    "unscanned (ps_ctx s4) = unscanned (ps_ctx ?s3)" by (auto simp: head_of_def)
  have run: "y_start cl g ?n ?s = YOk () s4"
    using s1(1) s2(1) s3(1) s4(1)
    by (simp add: y_start_def y_catch_def y_then_def y_bind_def gets_def y_set_ret_def y_do_def y_ret_def)
  have unscanned_ret: "sieve_ret (unscanned x) = sieve_ret x" for x :: "'a sieve2_context" by (simp add: unscanned_def)
  have "sieve_ret (ps_ctx s4) = sieve_ret (ps_ctx ?s3)" "parse_errors (ps_ctx s4) = parse_errors (ps_ctx ?s3)"
    using s4(2) unscanned_ret calm_unscanned(2) by metis+
  then have "sieve_ret (ps_ctx s4) = map tree_command cs @ Stop # map tree_command ds" "parse_errors (ps_ctx s4) = parse_errors c + 1"
    using s3(1) calm2(2) by (simp_all add: gets_def)
  then show ?thesis
    by (simp add: libsieve_sieve_parse_buffer_def assms(7) libsieve_sieveparse_def Let_def run)
qed

lemma stray_command_stops_witness:
  "\<exists>c''. libsieve_sieve_parse_buffer silent_client \<lparr>syntax_text = (\<lambda>_. ''syntax error''), first_line = 1\<rparr>
      (let c = zero_context no_message ()
       in c\<lparr>script := (script c)\<lparr>script_text := Some (print_tokens
            [Tk ''DISCARD'', SCh CHR '';'', Tk ''REQUIRE'', SStr ''fileinto'', SCh CHR '';'', Tk ''KEEP'', SCh CHR '';''])\<rparr>\<rparr>)
      = Some ([Discard, Stop, Keep []], c'') \<and> parse_errors c'' = 1"
proof -
  let ?c = "let c = zero_context no_message ()
       in c\<lparr>script := (script c)\<lparr>script_text := Some (print_tokens
            [Tk ''DISCARD'', SCh CHR '';'', Tk ''REQUIRE'', SStr ''fileinto'', SCh CHR '';'', Tk ''KEEP'', SCh CHR '';''])\<rparr>\<rparr>"
  have ts: "tokens_script [] [CAct CDiscard] @ [Tk ''REQUIRE'', SStr ''fileinto''] @ SCh CHR '';'' # tokens_commands [CAct (CKeep [])]
      = [Tk ''DISCARD'', SCh CHR '';'', Tk ''REQUIRE'', SStr ''fileinto'', SCh CHR '';'', Tk ''KEEP'', SCh CHR '';'']"
    by (simp add: tokens_script_def tokens_commands_def tokens_flags_def)
  have "\<forall>t \<in> set [Tk ''DISCARD'', SCh CHR '';'', Tk ''REQUIRE'', SStr ''fileinto'', SCh CHR '';'', Tk ''KEEP'', SCh CHR '';'']. printable_token t"
    by code_simp
  from stray_command_stops [where us = "[Tk ''REQUIRE'', SStr ''fileinto'']" and cs = "[CAct CDiscard]" and rs = "[]" and ds = "[CAct (CKeep [])]" and c = ?c
      and c' = ?c and cl = silent_client, unfolded ts, OF _ _ this]
  show ?thesis
    by (simp add: stray_def starts_command_def head_of_def calm_def idle_def zero_context_def Let_def no_callbacks_def)
qed

end
