(* ===== verification/Delivery.thy ===== *)
theory Delivery
  imports Sieve_Roundtrip Sieve_Trees Header_Tests
begin

text \<open>
  From the text of a script to the actions of the client: a script written in the syntax of
  \<open>Sieve_Syntax\<close> and the headers of a message, both handed over by callbacks, run by \<^verbatim>\<open>sieve2_execute\<close>.
\<close>

section \<open>A client that keeps what it is told\<close>






section \<open>One call of the client\<close>





section \<open>Actions\<close>











lemma slots_begin [simp]: "slots (begin_call v c) = slots c"
  by (simp add: libsieve_callback_begin_def)





section \<open>What a script means for a message\<close>












section \<open>What a script intends\<close>









section \<open>The script\<close>







section \<open>From the text of a script to the actions of the client\<close>












end
